(* ===== verification/Prelude.thy ===== *)
theory Prelude
  imports Main "HOL-Library.Sublist" "HOL-Library.AList" "HOL-Library.Char_ord"
    "HOL-Library.List_Lexorder"
begin

text \<open>
  Shared vocabulary of the development: the \<open>Result\<close> type of the Rust code and its \<open>?\<close>
  operator, byte strings with the parts of \<open>str\<close> and \<open>OsStr\<close> the sources use
  (UTF-8 validity, trimming, splitting, line iteration, decimal parsing and printing), and the
  generic lemmas on lists and association lists that the component theories rely on.

  A Rust \<open>String\<close>, \<open>OsString\<close> or \<open>PathBuf\<close> is a \<open>string\<close> here, that is, its bytes;
  \<open>utf8_valid\<close> tells which of them are a \<open>String\<close>.
\<close>

named_theorems result_simps \<open>unfolding of the result plumbing\<close>

section \<open>Results and the question-mark operator\<close>

text \<open>\<open>Result<T, E>\<close> is \<open>'e + 't\<close>: \<open>Inl e\<close> for \<open>Err(e)\<close>, \<open>Inr x\<close> for \<open>Ok(x)\<close>.\<close>

type_synonym ('t, 'e) outcome = "'e + 't"

text \<open>\<open>try_res m k\<close> is \<open>k(m?)\<close> for a pure computation.\<close>

definition try_res :: "('e + 'a) \<Rightarrow> ('a \<Rightarrow> 'e + 'b) \<Rightarrow> 'e + 'b" where
  "try_res m k = (case m of Inl e \<Rightarrow> Inl e | Inr x \<Rightarrow> k x)"

text \<open>\<open>try_st m k\<close> is \<open>k(m?)\<close> for a computation that also returns the new world.\<close>

definition try_st :: "('e + 'a) \<times> 'w \<Rightarrow> ('a \<Rightarrow> 'w \<Rightarrow> ('e + 'b) \<times> 'w) \<Rightarrow> ('e + 'b) \<times> 'w" where
  "try_st m k = (case fst m of Inl e \<Rightarrow> (Inl e, snd m) | Inr x \<Rightarrow> k x (snd m))"

text \<open>\<open>map_err\<close> of \<open>Result\<close>, with and without a world.\<close>

definition map_err :: "('e \<Rightarrow> 'f) \<Rightarrow> 'e + 'a \<Rightarrow> 'f + 'a" where
  "map_err f m = (case m of Inl e \<Rightarrow> Inl (f e) | Inr x \<Rightarrow> Inr x)"

definition map_err_st :: "('e \<Rightarrow> 'f) \<Rightarrow> ('e + 'a) \<times> 'w \<Rightarrow> ('f + 'a) \<times> 'w" where
  "map_err_st f m = (map_err f (fst m), snd m)"

definition is_ok :: "'e + 'a \<Rightarrow> bool" where
  "is_ok m \<longleftrightarrow> (case m of Inl _ \<Rightarrow> False | Inr _ \<Rightarrow> True)"

lemma try_res_simps [simp, result_simps]:
  "try_res (Inl e) k = Inl e"
  "try_res (Inr x) k = k x"
  by (simp_all add: try_res_def)

lemma try_st_simps [simp, result_simps]:
  "try_st (Inl e, w) k = (Inl e, w)"
  "try_st (Inr x, w) k = k x w"
  by (simp_all add: try_st_def)

lemma map_err_simps [simp, result_simps]:
  "map_err f (Inl e) = Inl (f e)"
  "map_err f (Inr x) = Inr x"
  "map_err_st f (r, w) = (map_err f r, w)"
  by (simp_all add: map_err_def map_err_st_def)

lemma is_ok_simps [simp, result_simps]:
  "\<not> is_ok (Inl e)"
  "is_ok (Inr x)"
  by (simp_all add: is_ok_def)

lemma try_res_Inr:
  "try_res m k = Inr y \<longleftrightarrow> (\<exists>x. m = Inr x \<and> k x = Inr y)"
  by (cases m) auto

lemma try_st_Inr:
  "try_st m k = (Inr y, w') \<longleftrightarrow> (\<exists>x w. m = (Inr x, w) \<and> k x w = (Inr y, w'))"
  by (cases m; cases "fst m") auto

lemma try_st_cases:
  assumes "try_st m k = (r, w')"
  obtains (err) e where "m = (Inl e, w')" "r = Inl e"
  | (ok) x w where "m = (Inr x, w)" "k x w = (r, w')"
  using assms by (cases m; cases "fst m") auto

lemma map_err_Inr [simp]: "map_err f m = Inr y \<longleftrightarrow> m = Inr y"
  by (cases m) auto

lemma map_err_st_Inr [simp]: "map_err_st f m = (Inr y, w) \<longleftrightarrow> m = (Inr y, w)"
  by (cases m) auto

lemma is_ok_map_err [simp]: "is_ok (map_err f m) = is_ok m"
  by (cases m) auto

lemma snd_map_err_st [simp]: "snd (map_err_st f m) = snd m"
  by (simp add: map_err_st_def)

lemma fst_map_err_st [simp]: "fst (map_err_st f m) = map_err f (fst m)"
  by (simp add: map_err_st_def)

text \<open>
  A frame rule for chains of \<open>?\<close>: a reflexive and transitive relation between worlds that
  every link of the chain respects is respected by the chain.
\<close>

lemma try_st_frame:
  assumes "R w0 (snd m)"
    and "\<And>x w. m = (Inr x, w) \<Longrightarrow> R w (snd (k x w))"
    and "\<And>a b c. R a b \<Longrightarrow> R b c \<Longrightarrow> R a c"
  shows "R w0 (snd (try_st m k))"
proof (cases m)
  case (Pair r w)
  show ?thesis
  proof (cases r)
    case (Inl e)
    with Pair assms(1) show ?thesis by simp
  next
    case (Inr x)
    with Pair have m: "m = (Inr x, w)" by simp
    from assms(1) m have "R w0 w" by simp
    moreover from assms(2) m have "R w (snd (k x w))" by blast
    ultimately have "R w0 (snd (k x w))" by (rule assms(3))
    with m show ?thesis by simp
  qed
qed

section \<open>Bytes and UTF-8\<close>

definition byte :: "char \<Rightarrow> nat" where
  "byte c = of_char c"

definition is_cont :: "char \<Rightarrow> bool" where
  "is_cont c \<longleftrightarrow> 128 \<le> byte c \<and> byte c < 192"

text \<open>The well-formed byte sequences of \<open>str::from_utf8\<close> (Unicode standard, table 3-7).\<close>

fun utf8_valid :: "string \<Rightarrow> bool" where
  "utf8_valid [] = True"
| "utf8_valid (a # s) =
     (if byte a < 128 then utf8_valid s
      else if 194 \<le> byte a \<and> byte a \<le> 223 then
        (case s of b # t \<Rightarrow> is_cont b \<and> utf8_valid t | _ \<Rightarrow> False)
      else if 224 \<le> byte a \<and> byte a \<le> 239 then
        (case s of b # c # t \<Rightarrow>
             is_cont b \<and> is_cont c \<and> (byte a = 224 \<longrightarrow> 160 \<le> byte b) \<and>
             (byte a = 237 \<longrightarrow> byte b < 160) \<and> utf8_valid t
         | _ \<Rightarrow> False)
      else if 240 \<le> byte a \<and> byte a \<le> 244 then
        (case s of b # c # d # t \<Rightarrow>
             is_cont b \<and> is_cont c \<and> is_cont d \<and> (byte a = 240 \<longrightarrow> 144 \<le> byte b) \<and>
             (byte a = 244 \<longrightarrow> byte b < 144) \<and> utf8_valid t
         | _ \<Rightarrow> False)
      else False)"

text \<open>A valid string starts with one whole character, and what follows it does not matter to it.\<close>

lemma utf8_valid_head:
  assumes v: "utf8_valid (a # s)"
  obtains h t where "s = h @ t" "utf8_valid t" "\<And>r. utf8_valid (a # h @ r) = utf8_valid r"
    "\<forall>c\<in>set h. is_cont c" "length h \<le> 3"
proof (cases "byte a < 128")
  case True
  with v that [of "[]" s] show ?thesis by simp
next
  case a1: False
  show ?thesis
  proof (cases "194 \<le> byte a \<and> byte a \<le> 223")
    case True
    then obtain b t where "s = b # t" "is_cont b" "utf8_valid t"
      using v a1 by (cases s) (simp_all del: utf8_valid.simps add: utf8_valid.simps(2) [of a])
    with True a1 that [of "[b]" t] show ?thesis by simp
  next
    case a2: False
    show ?thesis
    proof (cases "224 \<le> byte a \<and> byte a \<le> 239")
      case True
      then obtain b c t where s: "s = b # c # t" "is_cont b" "is_cont c" "utf8_valid t"
          and r: "byte a = 224 \<longrightarrow> 160 \<le> byte b" "byte a = 237 \<longrightarrow> byte b < 160"
        using v a1 a2
        by (cases s rule: remdups_adj.cases)
          (simp_all del: utf8_valid.simps add: utf8_valid.simps(2) [of a])
      have "utf8_valid (a # [b, c] @ r) = utf8_valid r" for r
        using a1 a2 True s r by (simp del: utf8_valid.simps add: utf8_valid.simps(2) [of a])
      with s that [of "[b, c]" t] show ?thesis by simp
    next
      case a3: False
      with v a1 a2 have a4: "240 \<le> byte a \<and> byte a \<le> 244"
        by (simp only: utf8_valid.simps split: if_splits)
      obtain b s' where s: "s = b # s'"
        using v a1 a2 a3 a4
        by (cases s) (simp_all del: utf8_valid.simps add: utf8_valid.simps(2) [of a])
      obtain c d t where s': "s' = c # d # t" "is_cont b" "is_cont c" "is_cont d" "utf8_valid t"
          and r: "byte a = 240 \<longrightarrow> 144 \<le> byte b" "byte a = 244 \<longrightarrow> byte b < 144"
        using v a1 a2 a3 a4 s
        by (cases s' rule: remdups_adj.cases)
          (simp_all del: utf8_valid.simps add: utf8_valid.simps(2) [of a])
      have "utf8_valid (a # [b, c, d] @ r) = utf8_valid r" for r
        using a1 a2 a3 a4 s' r by (simp del: utf8_valid.simps add: utf8_valid.simps(2) [of a])
      with s s' that [of "[b, c, d]" t] show ?thesis by simp
    qed
  qed
qed

lemma utf8_valid_append: "utf8_valid a \<Longrightarrow> utf8_valid b \<Longrightarrow> utf8_valid (a @ b)"
proof (induction "length a" arbitrary: a rule: less_induct)
  case less
  show ?case
  proof (cases a)
    case (Cons x s)
    with less.prems(1) obtain h t where ht: "s = h @ t" "utf8_valid t"
      "\<And>r. utf8_valid (x # h @ r) = utf8_valid r" using utf8_valid_head by metis
    have "utf8_valid (t @ b)" using less.hyps [of t] less.prems ht Cons by simp
    with ht Cons show ?thesis by (simp del: utf8_valid.simps)
  qed (use less in simp)
qed

text \<open>\<open>str::chars\<close>: every character as the list of its bytes, split before each byte that is
  not a continuation byte.\<close>

function utf8_chars :: "string \<Rightarrow> string list" where
  "utf8_chars [] = []"
| "utf8_chars (a # s) = (a # takeWhile is_cont s) # utf8_chars (dropWhile is_cont s)"
  by pat_completeness auto
termination
  by (relation "measure length") (simp_all add: length_dropWhile_le less_Suc_eq_le)

lemma concat_utf8_chars [simp]: "concat (utf8_chars s) = s"
  by (induction s rule: utf8_chars.induct) auto

lemma utf8_chars_nonempty: "c \<in> set (utf8_chars s) \<Longrightarrow> c \<noteq> []"
  by (induction s rule: utf8_chars.induct) auto

lemma valid_hd_not_cont: "utf8_valid (b # t) \<Longrightarrow> \<not> is_cont b"
  by (auto simp: is_cont_def split: if_splits)

lemma valid_takeWhile_cont: "utf8_valid t \<Longrightarrow> takeWhile is_cont t = [] \<and> dropWhile is_cont t = t"
  by (cases t) (auto dest: valid_hd_not_cont simp del: utf8_valid.simps)

lemma utf8_chars_length: "utf8_valid s \<Longrightarrow> \<forall>x\<in>set (utf8_chars s). length x \<le> 4"
proof (induction "length s" arbitrary: s rule: less_induct)
  case less
  show ?case
  proof (cases s)
    case (Cons a r)
    with less.prems obtain h t where ht: "r = h @ t" "utf8_valid t" "\<forall>c\<in>set h. is_cont c" "length h \<le> 3"
      using utf8_valid_head by metis
    then have "takeWhile is_cont r = h" "dropWhile is_cont r = t"
      using valid_takeWhile_cont [OF ht(2)] by (simp_all add: takeWhile_append2 dropWhile_append2)
    with ht Cons less.hyps [of t] show ?thesis by simp
  qed simp
qed

text \<open>A valid string is cut between whole characters: any number of its first characters is valid, and
  cutting it does not change them.\<close>

lemma utf8_chars_valid_cons:
  assumes "utf8_valid (a # s)"
  obtains h t where "s = h @ t" "utf8_valid t" "utf8_chars (a # s) = (a # h) # utf8_chars t"
    "\<And>r. utf8_valid r \<Longrightarrow> utf8_valid (a # h @ r) \<and> utf8_chars (a # h @ r) = (a # h) # utf8_chars r"
proof -
  obtain h t where ht: "s = h @ t" "utf8_valid t" "\<And>r. utf8_valid (a # h @ r) = utf8_valid r"
      "\<forall>c\<in>set h. is_cont c"
    using utf8_valid_head [OF assms] by metis
  have "takeWhile is_cont (h @ r) = h \<and> dropWhile is_cont (h @ r) = r" if "utf8_valid r" for r
    using valid_takeWhile_cont [OF that] ht(4) by (simp add: takeWhile_append2 dropWhile_append2)
  with ht that [of h t] show thesis by (simp del: utf8_valid.simps)
qed

lemma utf8_take_chars:
  "utf8_valid s \<Longrightarrow> utf8_valid (concat (take n (utf8_chars s))) \<and>
     utf8_chars (concat (take n (utf8_chars s))) = take n (utf8_chars s)"
proof (induction n arbitrary: s)
  case (Suc n)
  show ?case
  proof (cases s)
    case (Cons a r)
    with Suc.prems obtain h t where ht: "r = h @ t" "utf8_valid t" "utf8_chars s = (a # h) # utf8_chars t"
        "\<And>r. utf8_valid r \<Longrightarrow> utf8_valid (a # h @ r) \<and> utf8_chars (a # h @ r) = (a # h) # utf8_chars r"
      using utf8_chars_valid_cons by metis
    from Suc.IH [OF ht(2)] ht(4) show ?thesis by (simp add: ht(3) del: utf8_valid.simps utf8_chars.simps)
  qed simp
qed simp

section \<open>Trimming\<close>

text \<open>The characters with the Unicode property White\_Space, as UTF-8 byte sequences.\<close>

definition bytes :: "nat list \<Rightarrow> string" where
  "bytes = map char_of"

definition whitespace :: "string list" where
  "whitespace = map (\<lambda>n. bytes [n]) [9, 10, 11, 12, 13, 32]
     @ [bytes [194, 133], bytes [194, 160], bytes [225, 154, 128]]
     @ map (\<lambda>n. bytes [226, 128, n]) [128, 129, 130, 131, 132, 133, 134, 135, 136, 137, 138, 168, 169, 175]
     @ [bytes [226, 129, 159], bytes [227, 128, 128]]"

lemma whitespace_nonempty: "v \<in> set whitespace \<Longrightarrow> v \<noteq> []"
  by (auto simp: whitespace_def bytes_def)

function trim_start :: "string \<Rightarrow> string" where
  "trim_start s = (case find (\<lambda>v. prefix v s) whitespace of
       None \<Rightarrow> s
     | Some v \<Rightarrow> trim_start (drop (length v) s))"
  by pat_completeness auto
termination
proof (relation "measure length", goal_cases)
  case 1
  show ?case by simp
next
  case (2 s v)
  then have "v \<in> set whitespace" and "prefix v s"
    by (auto simp: find_Some_iff)
  then have "v \<noteq> []" and "length v \<le> length s"
    by (auto dest: whitespace_nonempty prefix_length_le)
  then show ?case by (cases v) auto
qed

function trim_end :: "string \<Rightarrow> string" where
  "trim_end s = (case find (\<lambda>v. suffix v s) whitespace of
       None \<Rightarrow> s
     | Some v \<Rightarrow> trim_end (take (length s - length v) s))"
  by pat_completeness auto
termination
proof (relation "measure length", goal_cases)
  case 1
  show ?case by simp
next
  case (2 s v)
  then have "v \<in> set whitespace" and "suffix v s"
    by (auto simp: find_Some_iff)
  then have "v \<noteq> []" and "length v \<le> length s"
    by (auto dest: whitespace_nonempty suffix_length_le)
  then show ?case by (cases v) auto
qed

declare trim_start.simps [simp del] trim_end.simps [simp del]

definition trim :: "string \<Rightarrow> string" where
  "trim s = trim_end (trim_start s)"

lemma trim_end_prefix: "prefix (trim_end s) s"
proof (induction s rule: trim_end.induct)
  case (1 s)
  show ?case
  proof (cases "find (\<lambda>v. suffix v s) whitespace")
    case None
    then show ?thesis by (simp add: trim_end.simps [of s])
  next
    case (Some v)
    with 1 have "prefix (trim_end (take (length s - length v) s)) (take (length s - length v) s)"
      by blast
    then have "prefix (trim_end (take (length s - length v) s)) s"
      by (rule prefix_order.trans) (rule take_is_prefix)
    with Some show ?thesis by (simp add: trim_end.simps [of s])
  qed
qed

lemma trim_end_length: "length (trim_end s) \<le> length s"
  by (rule prefix_length_le [OF trim_end_prefix])

text \<open>A string of digits has nothing to trim.\<close>

definition is_digit_byte :: "char \<Rightarrow> bool" where
  "is_digit_byte c \<longleftrightarrow> 48 \<le> byte c \<and> byte c \<le> 57"

lemma whitespace_not_digit:
  "list_all (\<lambda>v. v \<noteq> [] \<and> \<not> is_digit_byte (hd v) \<and> \<not> is_digit_byte (last v)) whitespace"
  by (simp add: whitespace_def bytes_def is_digit_byte_def byte_def)

lemma trim_digits:
  assumes "\<forall>c\<in>set s. is_digit_byte c"
  shows "trim s = s"
proof -
  have ws: "v \<noteq> [] \<and> \<not> is_digit_byte (hd v) \<and> \<not> is_digit_byte (last v)" if "v \<in> set whitespace" for v
    using whitespace_not_digit that by (simp add: list_all_iff)
  have "\<not> prefix v s" if "v \<in> set whitespace" for v
    using ws [OF that] assms by (cases v; cases s) auto
  then have 1: "find (\<lambda>v. prefix v s) whitespace = None" by (simp add: find_None_iff)
  have "\<not> suffix v s" if "v \<in> set whitespace" for v
  proof
    assume "suffix v s"
    then have "last v \<in> set s" using ws [OF that] by (auto simp: suffix_def)
    with assms ws [OF that] show False by blast
  qed
  then have 2: "find (\<lambda>v. suffix v s) whitespace = None" by (simp add: find_None_iff)
  from 1 2 show ?thesis by (simp add: trim_def trim_start.simps [of s] trim_end.simps [of s])
qed

section \<open>Splitting and joining\<close>

fun split_on :: "char \<Rightarrow> string \<Rightarrow> string list" where
  "split_on d [] = [[]]"
| "split_on d (c # s) =
     (if c = d then [] # split_on d s
      else (case split_on d s of [] \<Rightarrow> [[c]] | h # t \<Rightarrow> (c # h) # t))"

lemma split_on_nonempty [simp]: "split_on d s \<noteq> []"
  by (induction s) (auto split: list.splits)

lemma split_on_no_sep: "d \<notin> set s \<Longrightarrow> split_on d s = [s]"
  by (induction s) auto

lemma split_on_append: "d \<notin> set s \<Longrightarrow> split_on d (s @ d # t) = s # split_on d t"
  by (induction s) auto

fun join_with :: "string \<Rightarrow> string list \<Rightarrow> string" where
  "join_with sep [] = []"
| "join_with sep [x] = x"
| "join_with sep (x # y # ys) = x @ sep @ join_with sep (y # ys)"

text \<open>\<open>str::lines\<close>: split at newlines, drop one carriage return at the end of each line, and no
  empty line after a final newline.\<close>

definition chomp_cr :: "string \<Rightarrow> string" where
  "chomp_cr s = (if s \<noteq> [] \<and> last s = CHR 0x0D then butlast s else s)"

definition str_lines :: "string \<Rightarrow> string list" where
  "str_lines s = (let parts = split_on (CHR 0x0A) s in
     case rev parts of
       [] \<Rightarrow> []
     | l # r \<Rightarrow> map chomp_cr (rev r) @ (if l = [] then [] else [l]))"

text \<open>\<open>Iterator::nth\<close> on a list.\<close>

definition nth_opt :: "'a list \<Rightarrow> nat \<Rightarrow> 'a option" where
  "nth_opt xs i = (if i < length xs then Some (xs ! i) else None)"

definition contains :: "string \<Rightarrow> string \<Rightarrow> bool" where
  "contains s t \<longleftrightarrow> sublist t s"

section \<open>Decimal numbers\<close>

definition digit_val :: "char \<Rightarrow> nat option" where
  "digit_val c = (if 48 \<le> byte c \<and> byte c \<le> 57 then Some (byte c - 48) else None)"

fun digits_val :: "nat \<Rightarrow> string \<Rightarrow> nat option" where
  "digits_val acc [] = Some acc"
| "digits_val acc (c # s) =
     (case digit_val c of None \<Rightarrow> None | Some d \<Rightarrow> digits_val (10 * acc + d) s)"

text \<open>
  \<open>str::parse\<close> at an unsigned type whose largest value is \<open>m\<close>: an optional plus sign, at
  least one digit, no overflow. (The checked steps of the library overflow exactly when the
  final value exceeds \<open>m\<close>, because the accumulator never decreases.)
\<close>

definition parse_unsigned :: "nat \<Rightarrow> string \<Rightarrow> nat option" where
  "parse_unsigned m s =
     (let ds = (case s of c # r \<Rightarrow> if c = CHR ''+'' then r else s | [] \<Rightarrow> [])
      in if ds = [] then None
         else (case digits_val 0 ds of None \<Rightarrow> None | Some n \<Rightarrow> if n \<le> m then Some n else None))"

text \<open>\<open>str::parse\<close> at \<open>i32\<close>.\<close>

definition parse_i32 :: "string \<Rightarrow> int option" where
  "parse_i32 s =
     (case s of
        c # r \<Rightarrow>
          (if c = CHR ''-'' then
             (if r = [] then None
              else case digits_val 0 r of None \<Rightarrow> None
                | Some n \<Rightarrow> if n \<le> 2147483648 then Some (- int n) else None)
           else map_option int (parse_unsigned 2147483647 s))
      | [] \<Rightarrow> None)"

fun show_nat :: "nat \<Rightarrow> string" where
  "show_nat n = (if n < 10 then [char_of (48 + n)] else show_nat (n div 10) @ [char_of (48 + n mod 10)])"

declare show_nat.simps [simp del]

lemma byte_char_of [simp]: "n < 256 \<Longrightarrow> byte (char_of n) = n"
  by (simp add: byte_def)

lemma digit_val_char [simp]: "d < 10 \<Longrightarrow> digit_val (char_of (48 + d)) = Some d"
  by (simp add: digit_val_def)

lemma digits_val_append:
  "digits_val acc (s @ t) = (case digits_val acc s of None \<Rightarrow> None | Some n \<Rightarrow> digits_val n t)"
  by (induction s arbitrary: acc) (auto split: option.splits)

lemma digits_val_show: "digits_val 0 (show_nat n) = Some n"
proof (induction n rule: show_nat.induct)
  case (1 n)
  show ?case
  proof (cases "n < 10")
    case True
    then show ?thesis by (simp add: show_nat.simps [of n])
  next
    case False
    with 1 have "digits_val 0 (show_nat (n div 10)) = Some (n div 10)" by blast
    with False show ?thesis
      by (simp add: show_nat.simps [of n] digits_val_append)
  qed
qed

lemma show_nat_nonempty [simp]: "show_nat n \<noteq> []"
  by (subst show_nat.simps) simp

lemma show_nat_digit: "c \<in> set (show_nat n) \<Longrightarrow> 48 \<le> byte c \<and> byte c \<le> 57"
proof (induction n rule: show_nat.induct)
  case (1 n)
  show ?case
  proof (cases "n < 10")
    case True
    with 1 show ?thesis by (simp add: show_nat.simps [of n])
  next
    case False
    with "1.prems" have "c \<in> set (show_nat (n div 10)) \<or> c = char_of (48 + n mod 10)"
      by (auto simp: show_nat.simps [of n])
    then show ?thesis
    proof
      assume "c \<in> set (show_nat (n div 10))"
      with False 1 show ?thesis by blast
    qed simp
  qed
qed

lemma trim_show_nat [simp]: "trim (show_nat n) = show_nat n"
  by (rule trim_digits) (auto simp: is_digit_byte_def dest: show_nat_digit)

lemma utf8_valid_ascii: "\<forall>c\<in>set s. byte c < 128 \<Longrightarrow> utf8_valid s"
  by (induction s) auto

lemma utf8_valid_show_nat [simp]: "utf8_valid (show_nat n)"
  by (rule utf8_valid_ascii) (auto dest: show_nat_digit)

lemma parse_unsigned_show: "n \<le> m \<Longrightarrow> parse_unsigned m (show_nat n) = Some n"
proof -
  assume n: "n \<le> m"
  obtain c s where cs: "show_nat n = c # s" by (cases "show_nat n") auto
  then have "48 \<le> byte c" using show_nat_digit [of c n] by simp
  then have "c \<noteq> CHR ''+''" by (auto simp: byte_def)
  with cs n digits_val_show [of n] show ?thesis by (simp add: parse_unsigned_def)
qed

lemma parse_unsigned_le: "parse_unsigned m s = Some n \<Longrightarrow> n \<le> m"
  by (auto simp: parse_unsigned_def Let_def split: list.splits if_splits option.splits)

section \<open>Lists and association lists\<close>

lemma map_of_update [simp]: "map_of (AList.update k v al) = (map_of al)(k \<mapsto> v)"
  by (rule update_conv')

lemma map_of_filter_key:
  "map_of (filter (\<lambda>kv. P (fst kv)) al) k = (if P k then map_of al k else None)"
  by (induction al) auto

lemma trim_nil: "trim [] = []"
proof -
  have "find (\<lambda>v. prefix v []) whitespace = None" "find (\<lambda>v. suffix v []) whitespace = None"
    by (simp_all add: find_None_iff whitespace_def bytes_def)
  then have "trim_start [] = []" "trim_end [] = []"
    by (subst trim_start.simps trim_end.simps, simp)+
  then show ?thesis by (simp add: trim_def)
qed


end
