(* ===== verification/Paths.thy ===== *)
theory Paths
  imports Prelude
begin

text \<open>
  Paths as the Rust standard library sees them on Unix. A \<open>PathBuf\<close> is its byte string; what the
  code compares and walks are its components, so \<open>components\<close> parses the string and the path
  operations (\<open>parent\<close>, \<open>ancestors\<close>, \<open>starts_with\<close>, \<open>strip_prefix\<close>, \<open>file_name\<close>) work on the list of
  components. On top of them stand the path guards of the sources: \<open>src/src/cleanup_helpers.rs\<close>
  (\<open>has_parent_dir\<close>, \<open>is_empty_or_root\<close>), \<open>src/src/cluster/cleanup.rs\<close>
  (\<open>is_dangerous_cleanup_path\<close>) and \<open>src/src/cache/lock.rs\<close> (\<open>validate_version\<close>).
  The Windows-only \<open>Prefix\<close> component never occurs.
\<close>

section \<open>Components\<close>

datatype component = RootDir | CurDir | ParentDir | Normal string

type_synonym pathbuf = string
type_synonym path = "component list"

text \<open>\<open>Component\<close> derives \<open>Ord\<close>: by constructor first, then by the name. \<open>Path\<close> is ordered by its
  components, which is the lexicographic order of \<open>List_Lexorder\<close>.\<close>

fun comp_rank :: "component \<Rightarrow> nat" where
  "comp_rank RootDir = 0"
| "comp_rank CurDir = 1"
| "comp_rank ParentDir = 2"
| "comp_rank (Normal _) = 3"

fun comp_name :: "component \<Rightarrow> string" where
  "comp_name (Normal n) = n"
| "comp_name _ = []"

lemma comp_rank_name_inj: "comp_rank a = comp_rank b \<Longrightarrow> comp_name a = comp_name b \<Longrightarrow> a = b"
  by (cases a; cases b) auto

instantiation component :: linorder
begin

definition less_eq_component :: "component \<Rightarrow> component \<Rightarrow> bool" where
  "less_eq_component a b \<longleftrightarrow>
     comp_rank a < comp_rank b \<or> (comp_rank a = comp_rank b \<and> comp_name a \<le> comp_name b)"

definition less_component :: "component \<Rightarrow> component \<Rightarrow> bool" where
  "less_component a b \<longleftrightarrow> a \<le> b \<and> \<not> b \<le> (a :: component)"

instance
proof
  fix a b c :: component
  show "a < b \<longleftrightarrow> a \<le> b \<and> \<not> b \<le> a" by (simp add: less_component_def)
  show "a \<le> a" by (simp add: less_eq_component_def)
  show "a \<le> b \<Longrightarrow> b \<le> c \<Longrightarrow> a \<le> c" by (auto simp: less_eq_component_def)
  show "a \<le> b \<Longrightarrow> b \<le> a \<Longrightarrow> a = b" by (auto simp: less_eq_component_def intro: comp_rank_name_inj)
  show "a \<le> b \<or> b \<le> a" by (auto simp: less_eq_component_def)
qed

end

definition is_abs :: "pathbuf \<Rightarrow> bool" where
  "is_abs s \<longleftrightarrow> (case s of [] \<Rightarrow> False | c # _ \<Rightarrow> c = CHR ''/'')"

definition seg_comp :: "string \<Rightarrow> component" where
  "seg_comp x = (if x = ''..'' then ParentDir else Normal x)"

definition body_comps :: "string list \<Rightarrow> path" where
  "body_comps segs = map seg_comp (filter (\<lambda>x. x \<noteq> [] \<and> x \<noteq> ''.'') segs)"

text \<open>\<open>Path::components\<close>: repeated separators and inner \<open>.\<close> segments disappear, a leading \<open>.\<close> of a
  relative path is kept.\<close>

definition components :: "pathbuf \<Rightarrow> path" where
  "components s =
     (if is_abs s then [RootDir]
      else if hd (split_on (CHR ''/'') s) = ''.'' then [CurDir] else [])
     @ body_comps (split_on (CHR ''/'') s)"

definition is_absolute :: "path \<Rightarrow> bool" where
  "is_absolute cs \<longleftrightarrow> (case cs of RootDir # _ \<Rightarrow> True | _ \<Rightarrow> False)"

definition path_parent :: "path \<Rightarrow> path option" where
  "path_parent cs = (case rev cs of [] \<Rightarrow> None | RootDir # _ \<Rightarrow> None | _ # r \<Rightarrow> Some (rev r))"

definition file_name :: "path \<Rightarrow> string option" where
  "file_name cs = (case rev cs of Normal n # _ \<Rightarrow> Some n | _ \<Rightarrow> None)"

definition starts_with :: "path \<Rightarrow> path \<Rightarrow> bool" where
  "starts_with p base \<longleftrightarrow> prefix base p"

definition strip_prefix :: "path \<Rightarrow> path \<Rightarrow> path option" where
  "strip_prefix p base = (if prefix base p then Some (drop (length base) p) else None)"

text \<open>\<open>PathBuf::join\<close>: an absolute argument replaces the path, otherwise a separator is put between
  the two unless one is there already.\<close>

definition join_path :: "pathbuf \<Rightarrow> pathbuf \<Rightarrow> pathbuf" where
  "join_path a b =
     (if is_abs b then b
      else if a = [] \<or> last a = CHR ''/'' then a @ b
      else a @ CHR ''/'' # b)"

lemma path_parent_butlast: "path_parent cs = Some p \<Longrightarrow> p = butlast cs \<and> cs \<noteq> []"
  by (cases cs rule: rev_cases) (auto simp: path_parent_def split: component.splits)

lemma path_parent_None: "path_parent cs = None \<longleftrightarrow> cs = [] \<or> last cs = RootDir"
  by (cases cs rule: rev_cases) (auto simp: path_parent_def split: component.splits)

lemma path_parent_snoc_Normal [simp]: "path_parent (cs @ [Normal n]) = Some cs"
  by (simp add: path_parent_def)

lemma file_name_snoc_Normal [simp]: "file_name (cs @ [Normal n]) = Some n"
  by (simp add: file_name_def)

lemma path_parent_prefix: "path_parent cs = Some p \<Longrightarrow> strict_prefix p cs"
  by (cases cs rule: rev_cases)
     (auto simp: path_parent_def strict_prefix_def split: component.splits)

function ancestors :: "path \<Rightarrow> path list" where
  "ancestors cs = cs # (case path_parent cs of None \<Rightarrow> [] | Some p \<Rightarrow> ancestors p)"
  by pat_completeness auto
termination
  by (relation "measure length") (auto dest: path_parent_prefix prefix_length_less)

declare ancestors.simps [simp del]

lemma ancestors_prefix: "a \<in> set (ancestors cs) \<Longrightarrow> prefix a cs"
proof (induction cs rule: ancestors.induct)
  case (1 cs)
  show ?case
  proof (cases "path_parent cs")
    case None
    with 1 show ?thesis by (simp add: ancestors.simps [of cs])
  next
    case (Some p)
    with "1.prems" consider "a = cs" | "a \<in> set (ancestors p)"
      by (auto simp: ancestors.simps [of cs])
    then show ?thesis
    proof cases
      case 2
      with "1.IH" Some have "prefix a p" by blast
      with path_parent_prefix [OF Some] show ?thesis
        by (meson prefix_order.le_less_trans prefix_order.less_imp_le)
    qed simp
  qed
qed

subsection \<open>Parsing facts\<close>

lemma split_on_append_gen:
  "split_on d (s @ d # t) = split_on d s @ split_on d t"
  by (induction s) (auto split: list.splits)

lemma body_comps_append [simp]: "body_comps (xs @ ys) = body_comps xs @ body_comps ys"
  by (simp add: body_comps_def)

lemma body_comps_Nil [simp]: "body_comps [] = []" "body_comps [[]] = []" "body_comps [''.''] = []"
  by (simp_all add: body_comps_def)

lemma hd_split_on_append: "hd (split_on d (s @ d # t)) = hd (split_on d s)"
  by (simp add: split_on_append_gen)

definition simple_name :: "string \<Rightarrow> bool" where
  "simple_name n \<longleftrightarrow> n \<noteq> [] \<and> n \<noteq> ''.'' \<and> n \<noteq> ''..'' \<and> CHR ''/'' \<notin> set n"

lemma simple_name_not_abs: "simple_name n \<Longrightarrow> \<not> is_abs n"
  by (cases n) (auto simp: simple_name_def is_abs_def)

lemma components_simple: "simple_name n \<Longrightarrow> components n = [Normal n]"
  by (auto simp: components_def simple_name_not_abs split_on_no_sep)
     (auto simp: simple_name_def split_on_no_sep body_comps_def seg_comp_def)

lemma is_abs_append: "a \<noteq> [] \<Longrightarrow> is_abs (a @ b) = is_abs a"
  by (cases a) (auto simp: is_abs_def)

lemma hd_split_on_slash: "hd (split_on (CHR ''/'') (CHR ''/'' # b)) = []"
  by simp

text \<open>Joining appends the components: the fact behind every derived directory of the sources.\<close>

lemma components_join:
  assumes "\<not> is_abs b" and "hd (split_on (CHR ''/'') b) \<noteq> ''.''"
  shows "components (join_path a b) = components a @ components b"
proof -
  have b: "components b = body_comps (split_on (CHR ''/'') b)"
    using assms by (simp add: components_def)
  consider "a = []" | a' where "a = a' @ [CHR ''/'']" | "a \<noteq> []" "last a \<noteq> CHR ''/''"
    by (cases a rule: rev_cases) auto
  then show ?thesis
  proof cases
    case 1
    then show ?thesis using assms by (simp add: join_path_def components_def is_abs_def)
  next
    case (2 a')
    then have j: "join_path a b = a' @ CHR ''/'' # b" using assms by (simp add: join_path_def)
    have abs: "is_abs (a' @ CHR ''/'' # b) = is_abs a"
      using 2 by (cases a') (auto simp: is_abs_def)
    have a: "split_on (CHR ''/'') a = split_on (CHR ''/'') a' @ [[]]"
      using 2 split_on_append_gen [of "CHR ''/''" a' "[]"] by simp
    show ?thesis unfolding j components_def [of "a' @ CHR ''/'' # b"] b components_def [of a] abs a
      by (simp add: split_on_append_gen)
  next
    case 3
    then have j: "join_path a b = a @ CHR ''/'' # b" using assms by (simp add: join_path_def)
    have abs: "is_abs (a @ CHR ''/'' # b) = is_abs a"
      using 3 by (simp add: is_abs_append)
    show ?thesis unfolding j components_def [of "a @ CHR ''/'' # b"] b components_def [of a] abs
      by (simp add: split_on_append_gen)
  qed
qed

lemma components_join_simple:
  assumes "simple_name n"
  shows "components (join_path a n) = components a @ [Normal n]"
proof -
  have "hd (split_on (CHR ''/'') n) \<noteq> ''.''"
    using assms by (simp add: simple_name_def split_on_no_sep)
  with components_join [of n a] components_simple [OF assms] simple_name_not_abs [OF assms]
  show ?thesis by simp
qed

lemma components_empty_iff: "components s = [] \<longleftrightarrow> s = []"
proof
  assume c: "components s = []"
  show "s = []"
  proof (rule ccontr)
    assume s: "s \<noteq> []"
    with c have abs: "\<not> is_abs s" by (auto simp: components_def)
    obtain h t where ht: "split_on (CHR ''/'') s = h # t" by (cases "split_on (CHR ''/'') s") auto
    from s abs have "h \<noteq> []"
      using ht by (cases s) (auto simp: is_abs_def split: list.splits if_splits)
    with c abs ht show False by (auto simp: components_def body_comps_def split: if_splits)
  qed
next
  assume "s = []"
  then show "components s = []" by (simp add: components_def is_abs_def)
qed

text \<open>Only the first component can be the root or \<open>.\<close>.\<close>

lemma body_comps_no_root: "RootDir \<notin> set (body_comps xs)" "CurDir \<notin> set (body_comps xs)"
  by (auto simp: body_comps_def seg_comp_def)

lemma components_last_root: "components s \<noteq> [] \<Longrightarrow> last (components s) = RootDir \<Longrightarrow> components s = [RootDir]"
  using body_comps_no_root(1) [of "split_on (CHR ''/'') s"]
  by (auto simp: components_def split: if_splits) (metis last_in_set last_append)+

lemma is_absolute_components [simp]: "is_absolute (components s) = is_abs s"
proof (cases "is_abs s")
  case True
  then show ?thesis by (simp add: components_def is_absolute_def)
next
  case False
  then show ?thesis using body_comps_no_root(1) [of "split_on (CHR ''/'') s"]
    by (auto simp: components_def is_absolute_def split: list.splits component.splits)
qed

text \<open>The shape of every parsed path: the root and \<open>.\<close> only in front.\<close>

definition wf_path :: "path \<Rightarrow> bool" where
  "wf_path p \<longleftrightarrow> RootDir \<notin> set (tl p) \<and> CurDir \<notin> set (tl p)"

lemma in_set_tl: "x \<in> set (tl xs) \<Longrightarrow> x \<in> set xs"
  by (cases xs) auto

lemma wf_path_components [simp]: "wf_path (components s)"
  using body_comps_no_root [of "split_on (CHR ''/'') s"]
  by (auto simp: wf_path_def components_def dest: in_set_tl)

lemma in_set_tl_butlast: "x \<in> set (tl (butlast p)) \<Longrightarrow> x \<in> set (tl p)"
  by (metis butlast_tl in_set_butlastD)

lemma wf_path_parent: "wf_path p \<Longrightarrow> path_parent p = Some q \<Longrightarrow> wf_path q"
  by (auto simp: wf_path_def dest!: path_parent_butlast dest: in_set_tl_butlast)

lemma wf_path_snoc: "wf_path p \<Longrightarrow> wf_path (p @ [Normal n])"
  by (cases p) (auto simp: wf_path_def)

section \<open>The path guards of the cleanup code\<close>

definition has_parent_dir :: "path \<Rightarrow> bool" where
  "has_parent_dir cs \<longleftrightarrow> list_ex (\<lambda>c. c = ParentDir) cs"

fun is_empty_or_root :: "path \<Rightarrow> bool" where
  "is_empty_or_root [] = True"
| "is_empty_or_root (CurDir # cs) = (cs = [])"
| "is_empty_or_root (RootDir # cs) = (cs = [])"
| "is_empty_or_root (_ # cs) = False"

text \<open>An empty string is the path without components (\<open>components_empty_iff\<close>).\<close>

definition is_dangerous_cleanup_path :: "path \<Rightarrow> bool" where
  "is_dangerous_cleanup_path p \<longleftrightarrow> p = [] \<or> (is_absolute p \<and> path_parent p = None)"

lemma has_parent_dir_iff: "has_parent_dir cs \<longleftrightarrow> ParentDir \<in> set cs"
  by (auto simp: has_parent_dir_def list_ex_iff)

lemma has_parent_dir_append [simp]:
  "has_parent_dir (a @ b) \<longleftrightarrow> has_parent_dir a \<or> has_parent_dir b"
  by (simp add: has_parent_dir_def)

lemma is_empty_or_root_iff: "is_empty_or_root cs \<longleftrightarrow> cs = [] \<or> cs = [CurDir] \<or> cs = [RootDir]"
  by (cases cs rule: is_empty_or_root.cases) auto

lemma dangerous_imp_empty_or_root:
  assumes "wf_path p" and "is_dangerous_cleanup_path p"
  shows "is_empty_or_root p"
proof (cases p rule: rev_cases)
  case (snoc c x)
  with assms have x: "x = RootDir"
    by (simp add: is_dangerous_cleanup_path_def path_parent_None)
  have "c = []"
  proof (cases c)
    case (Cons y ys)
    with snoc assms(1) x show ?thesis by (simp add: wf_path_def)
  qed simp
  with snoc x show ?thesis by simp
qed simp

text \<open>A path the guards accept ends in a name.\<close>

lemma guarded_path_last:
  assumes "wf_path p" and "\<not> is_empty_or_root p" and "\<not> has_parent_dir p"
  shows "\<exists>c n. p = c @ [Normal n]"
proof (cases p rule: rev_cases)
  case Nil
  with assms show ?thesis by simp
next
  case (snoc c x)
  show ?thesis
  proof (cases c)
    case Nil
    with snoc assms show ?thesis by (cases x) (auto simp: has_parent_dir_iff)
  next
    case (Cons y ys)
    with snoc assms show ?thesis by (cases x) (auto simp: has_parent_dir_iff wf_path_def)
  qed
qed

end
