(* ===== verification/Errors.thy ===== *)
theory Errors
  imports Prelude
begin

text \<open>
  The error types of \<open>src/src/error.rs\<close>. A \<open>Report\<close> is the chain that eyre keeps: an I/O error or a
  message at the root, wrapped in contexts. \<open>BootstrapError\<close> adds a kind that callers branch on;
  the other two error types wrap a report; \<open>PgEmbeddedError\<close> is their sum, and the \<open>From\<close>
  implementations convert between them.
\<close>

text \<open>The values of \<open>std::io::ErrorKind\<close> the sources distinguish.\<close>

datatype io_kind =
  NotFound | NotADirectory | AlreadyExists | PermissionDenied | InvalidInput | Interrupted | OtherIo

datatype report = IoErr io_kind | Msg string | Ctx string report

datatype bootstrap_kind = Other | WorkerBinaryMissing | WorkerBinaryPathNonUtf8

record bootstrap_error =
  be_kind :: bootstrap_kind
  be_report :: report

datatype privilege_error = PrivilegeError report
datatype config_error = ConfigError report

datatype pg_embedded_error =
  Bootstrap bootstrap_error | Privilege privilege_error | Config config_error

definition bootstrap_new :: "bootstrap_kind \<Rightarrow> report \<Rightarrow> bootstrap_error" where
  "bootstrap_new k r = \<lparr>be_kind = k, be_report = r\<rparr>"

definition bootstrap_from_report :: "report \<Rightarrow> bootstrap_error" where
  "bootstrap_from_report r = bootstrap_new Other r"

fun bootstrap_from_privilege :: "privilege_error \<Rightarrow> bootstrap_error" where
  "bootstrap_from_privilege (PrivilegeError r) = bootstrap_new Other r"

fun bootstrap_from_config :: "config_error \<Rightarrow> bootstrap_error" where
  "bootstrap_from_config (ConfigError r) = bootstrap_new Other r"

fun bootstrap_from_pg :: "pg_embedded_error \<Rightarrow> bootstrap_error" where
  "bootstrap_from_pg (Bootstrap inner) = inner"
| "bootstrap_from_pg (Privilege inner) = bootstrap_from_privilege inner"
| "bootstrap_from_pg (Config inner) = bootstrap_from_config inner"

text \<open>\<open>err.chain()\<close> filtered for \<open>std::io::Error\<close>: only the root of a report can be one.\<close>

fun report_root :: "report \<Rightarrow> report" where
  "report_root (Ctx _ r) = report_root r"
| "report_root r = r"

definition chain_has_io :: "io_kind \<Rightarrow> report \<Rightarrow> bool" where
  "chain_has_io k r \<longleftrightarrow> report_root r = IoErr k"

lemma chain_has_io_simps [simp]:
  "chain_has_io k (IoErr k') \<longleftrightarrow> k' = k"
  "\<not> chain_has_io k (Msg m)"
  "chain_has_io k (Ctx c r) \<longleftrightarrow> chain_has_io k r"
  by (auto simp: chain_has_io_def)

text \<open>The report inside any of the errors, and that conversion keeps it.\<close>

fun pg_report :: "pg_embedded_error \<Rightarrow> report" where
  "pg_report (Bootstrap e) = be_report e"
| "pg_report (Privilege (PrivilegeError r)) = r"
| "pg_report (Config (ConfigError r)) = r"

lemma bootstrap_from_pg_report: "be_report (bootstrap_from_pg e) = pg_report e"
  by (cases e rule: pg_report.cases) (simp_all add: bootstrap_new_def)

lemma bootstrap_from_pg_kind:
  "be_kind (bootstrap_from_pg e) = (case e of Bootstrap b \<Rightarrow> be_kind b | _ \<Rightarrow> Other)"
  by (cases e rule: pg_report.cases) (simp_all add: bootstrap_new_def)

lemma bootstrap_kind_from_report [simp]: "be_kind (bootstrap_from_report r) = Other"
  by (simp add: bootstrap_from_report_def bootstrap_new_def)

lemma bootstrap_report_from_report [simp]: "be_report (bootstrap_from_report r) = r"
  by (simp add: bootstrap_from_report_def bootstrap_new_def)

end
