(* ===== verification/Os_World.thy ===== *)
theory Os_World
  imports Paths Errors
begin

text \<open>
  The operating system as the sources see it through \<open>std::fs\<close> and \<open>std::env\<close>: a file system of
  directories, files and symbolic links with owners and modes, the working directory and the
  environment. Paths are resolved the way the kernel does it, one component at a time through
  symbolic links, with the limit of forty links. Any call can also fail for a reason the file system
  does not show (permissions, I/O): \<open>w_faults\<close> says which, and \<open>w_residue\<close> what a failing
  recursive removal deletes before it fails; both are arbitrary.
\<close>

section \<open>State\<close>

datatype node_kind = KDir | KFile string | KLink path

record node =
  nd_kind :: node_kind
  nd_mode :: nat
  nd_uid :: nat
  nd_gid :: nat

datatype sysop =
  SysRemoveDirAll path | SysMkdir path | SysReadDir path | SysRead path | SysWrite path
| SysCopy path path | SysChmod path | SysStat path | SysSymlink path | SysReadLink path
| SysOpen path

record world =
  w_fs :: "(path \<times> node) list"
  w_cwd :: path
  w_env :: "string \<rightharpoonup> string"
  w_euid :: nat
  w_faults :: "sysop \<Rightarrow> io_kind option"
  w_residue :: "path \<Rightarrow> path list"

definition entry :: "world \<Rightarrow> path \<Rightarrow> node option" where
  "entry w p = map_of (w_fs w) p"

definition put_entry :: "path \<Rightarrow> node \<Rightarrow> world \<Rightarrow> world" where
  "put_entry p n w = w\<lparr>w_fs := AList.update p n (w_fs w)\<rparr>"

definition drop_entries :: "(path \<Rightarrow> bool) \<Rightarrow> world \<Rightarrow> world" where
  "drop_entries P w = w\<lparr>w_fs := filter (\<lambda>kv. \<not> P (fst kv)) (w_fs w)\<rparr>"

lemma entry_put [simp]: "entry (put_entry p n w) q = (if q = p then Some n else entry w q)"
  by (simp add: entry_def put_entry_def)

lemma entry_drop [simp]: "entry (drop_entries P w) q = (if P q then None else entry w q)"
  using map_of_filter_key [of "\<lambda>r. \<not> P r" "w_fs w" q] by (simp add: entry_def drop_entries_def)

lemma put_drop_frame [simp]:
  "w_cwd (put_entry p n w) = w_cwd w" "w_env (put_entry p n w) = w_env w"
  "w_euid (put_entry p n w) = w_euid w" "w_faults (put_entry p n w) = w_faults w"
  "w_residue (put_entry p n w) = w_residue w"
  "w_cwd (drop_entries P w) = w_cwd w" "w_env (drop_entries P w) = w_env w"
  "w_euid (drop_entries P w) = w_euid w" "w_faults (drop_entries P w) = w_faults w"
  "w_residue (drop_entries P w) = w_residue w"
  by (simp_all add: put_entry_def drop_entries_def)

section \<open>Path resolution\<close>

text \<open>
  \<open>walk look follow links cur rest\<close> resolves \<open>rest\<close> from the directory \<open>cur\<close> and gives a path
  without links. Only the last component may be missing. \<open>follow\<close> tells whether a link in last
  position is followed.
\<close>

function walk :: "(path \<Rightarrow> node option) \<Rightarrow> bool \<Rightarrow> nat \<Rightarrow> path \<Rightarrow> path \<Rightarrow> io_kind + path" where
  "walk look follow links cur [] = Inr cur"
| "walk look follow links cur (RootDir # rest) = walk look follow links [RootDir] rest"
| "walk look follow links cur (CurDir # rest) = walk look follow links cur rest"
| "walk look follow links cur (ParentDir # rest) =
     walk look follow links (if cur = [RootDir] then cur else butlast cur) rest"
| "walk look follow links cur (Normal n # rest) =
     (let here = cur @ [Normal n] in
      case look here of
        None \<Rightarrow> if rest = [] then Inr here else Inl NotFound
      | Some nd \<Rightarrow>
          (case nd_kind nd of
             KDir \<Rightarrow> walk look follow links here rest
           | KFile _ \<Rightarrow> if rest = [] then Inr here else Inl NotADirectory
           | KLink target \<Rightarrow>
               if rest = [] \<and> \<not> follow then Inr here
               else (case links of 0 \<Rightarrow> Inl OtherIo
                     | Suc k \<Rightarrow> walk look follow k cur (target @ rest))))"
  by pat_completeness auto
termination
  by (relation "measures [\<lambda>(_, _, links, _, _). links, \<lambda>(_, _, _, _, rest). length rest]") auto

definition resolve :: "bool \<Rightarrow> world \<Rightarrow> path \<Rightarrow> io_kind + path" where
  "resolve follow w p = (if p = [] then Inl NotFound else walk (entry w) follow 40 (w_cwd w) p)"

text \<open>The node a path leads to; the root directory is always there.\<close>

definition root_node :: node where
  "root_node = \<lparr>nd_kind = KDir, nd_mode = 493, nd_uid = 0, nd_gid = 0\<rparr>"

definition entry_at :: "world \<Rightarrow> path \<Rightarrow> node option" where
  "entry_at w p = (if p = [RootDir] then Some (case entry w p of Some n \<Rightarrow> n | None \<Rightarrow> root_node)
                   else entry w p)"

definition node_of :: "bool \<Rightarrow> world \<Rightarrow> path \<Rightarrow> io_kind + (path \<times> node)" where
  "node_of follow w p =
     try_res (resolve follow w p) (\<lambda>q. case entry_at w q of None \<Rightarrow> Inl NotFound | Some n \<Rightarrow> Inr (q, n))"

definition guarded :: "world \<Rightarrow> sysop \<Rightarrow> io_kind + 'a \<Rightarrow> io_kind + 'a" where
  "guarded w call r = (case w_faults w call of Some k \<Rightarrow> Inl k | None \<Rightarrow> r)"

text \<open>\<open>metadata\<close>, \<open>symlink_metadata\<close> and the tests of \<open>Path\<close>, which answer false on any error.\<close>

definition metadata :: "world \<Rightarrow> path \<Rightarrow> io_kind + node" where
  "metadata w p = guarded w (SysStat p) (try_res (node_of True w p) (\<lambda>(_, n). Inr n))"

definition symlink_metadata :: "world \<Rightarrow> path \<Rightarrow> io_kind + node" where
  "symlink_metadata w p = guarded w (SysStat p) (try_res (node_of False w p) (\<lambda>(_, n). Inr n))"

definition path_exists :: "world \<Rightarrow> path \<Rightarrow> bool" where
  "path_exists w p \<longleftrightarrow> is_ok (metadata w p)"

fun is_file_kind :: "node_kind \<Rightarrow> bool" where
  "is_file_kind (KFile _) = True"
| "is_file_kind _ = False"

fun is_link_kind :: "node_kind \<Rightarrow> bool" where
  "is_link_kind (KLink _) = True"
| "is_link_kind _ = False"

definition path_is_dir :: "world \<Rightarrow> path \<Rightarrow> bool" where
  "path_is_dir w p \<longleftrightarrow> (case metadata w p of Inl _ \<Rightarrow> False | Inr n \<Rightarrow> nd_kind n = KDir)"

definition path_is_file :: "world \<Rightarrow> path \<Rightarrow> bool" where
  "path_is_file w p \<longleftrightarrow> (case metadata w p of Inl _ \<Rightarrow> False | Inr n \<Rightarrow> is_file_kind (nd_kind n))"

section \<open>Calls\<close>

type_synonym 'a io = "world \<Rightarrow> (io_kind + 'a) \<times> world"

definition new_node :: "world \<Rightarrow> node_kind \<Rightarrow> nat \<Rightarrow> node" where
  "new_node w k mode = \<lparr>nd_kind = k, nd_mode = mode, nd_uid = w_euid w, nd_gid = w_euid w\<rparr>"

definition sys_mkdir :: "path \<Rightarrow> unit io" where
  "sys_mkdir p w =
     (case guarded w (SysMkdir p) (resolve False w p) of
        Inl k \<Rightarrow> (Inl k, w)
      | Inr q \<Rightarrow> if entry_at w q \<noteq> None then (Inl AlreadyExists, w)
                 else (Inr (), put_entry q (new_node w KDir 493) w))"

text \<open>\<open>std::fs::create_dir_all\<close>, as the library writes it: try, then the parents, then try again.\<close>

function create_dir_all :: "path \<Rightarrow> unit io" where
  "create_dir_all p w =
     (if p = [] then (Inr (), w)
      else case sys_mkdir p w of
        (Inr _, w1) \<Rightarrow> (Inr (), w1)
      | (Inl k, w1) \<Rightarrow>
          if k \<noteq> NotFound then (if path_is_dir w1 p then (Inr (), w1) else (Inl k, w1))
          else (case path_parent p of
              None \<Rightarrow> (Inl OtherIo, w1)
            | Some parent \<Rightarrow>
                (case create_dir_all parent w1 of
                   (Inl e, w2) \<Rightarrow> (Inl e, w2)
                 | (Inr _, w2) \<Rightarrow>
                     (case sys_mkdir p w2 of
                        (Inr _, w3) \<Rightarrow> (Inr (), w3)
                      | (Inl k', w3) \<Rightarrow>
                          if path_is_dir w3 p then (Inr (), w3) else (Inl k', w3)))))"
  by pat_completeness auto
termination
  by (relation "measure (\<lambda>(p, _). length p)") (auto dest: path_parent_prefix prefix_length_less)

declare create_dir_all.simps [simp del]

text \<open>
  \<open>std::fs::remove_dir_all\<close>: a link is unlinked, a directory goes with everything below it. A failing
  removal may have deleted some of it; it fails with \<open>NotFound\<close> when the tree vanishes meanwhile.
\<close>

definition remove_effect :: "world \<Rightarrow> path \<Rightarrow> path \<Rightarrow> node \<Rightarrow> (io_kind + unit) \<times> (path \<Rightarrow> bool)" where
  "remove_effect w p q n =
     (case w_faults w (SysRemoveDirAll p) of
        Some k \<Rightarrow> (Inl k, \<lambda>r. if k = NotFound then prefix q r
                               else strict_prefix q r \<and> r \<in> set (w_residue w p))
      | None \<Rightarrow>
          (case nd_kind n of
             KDir \<Rightarrow> (Inr (), \<lambda>r. prefix q r)
           | KLink _ \<Rightarrow> (Inr (), \<lambda>r. r = q)
           | KFile _ \<Rightarrow> (Inl NotADirectory, \<lambda>r. False)))"

definition remove_dir_all :: "path \<Rightarrow> unit io" where
  "remove_dir_all p w =
     (case node_of False w p of
        Inl k \<Rightarrow> (Inl k, w)
      | Inr (q, n) \<Rightarrow> (case remove_effect w p q n of (r, gone) \<Rightarrow> (r, drop_entries gone w)))"

definition children :: "world \<Rightarrow> path \<Rightarrow> string list" where
  "children w q = remdups (List.map_filter
     (\<lambda>(r, _). if r \<noteq> [] \<and> butlast r = q then (case last r of Normal n \<Rightarrow> Some n | _ \<Rightarrow> None) else None)
     (w_fs w))"

definition read_dir :: "path \<Rightarrow> world \<Rightarrow> io_kind + string list" where
  "read_dir p w =
     guarded w (SysReadDir p) (try_res (node_of True w p)
       (\<lambda>(q, n). if nd_kind n = KDir then Inr (children w q) else Inl NotADirectory))"

definition read_to_string :: "path \<Rightarrow> world \<Rightarrow> io_kind + string" where
  "read_to_string p w =
     guarded w (SysRead p) (try_res (node_of True w p)
       (\<lambda>(_, n). case nd_kind n of
           KFile s \<Rightarrow> if utf8_valid s then Inr s else Inl OtherIo
         | _ \<Rightarrow> Inl OtherIo))"

definition write_file :: "path \<Rightarrow> string \<Rightarrow> unit io" where
  "write_file p s w =
     (case guarded w (SysWrite p) (resolve True w p) of
        Inl k \<Rightarrow> (Inl k, w)
      | Inr q \<Rightarrow>
          (case entry_at w q of
             None \<Rightarrow> (Inr (), put_entry q (new_node w (KFile s) 420) w)
           | Some n \<Rightarrow> if is_file_kind (nd_kind n) then (Inr (), put_entry q (n\<lparr>nd_kind := KFile s\<rparr>) w)
                       else (Inl OtherIo, w)))"

section \<open>Facts\<close>

lemma entry_env [simp]: "entry (w\<lparr>w_env := e\<rparr>) = entry w"
  by (rule ext) (simp add: entry_def)

lemma resolve_env [simp]: "resolve f (w\<lparr>w_env := e\<rparr>) p = resolve f w p"
  by (simp add: resolve_def)

text \<open>
  Removing entries can only make a path stop resolving, or resolve to something that is gone: what
  a removal promises about the path it was given rests on this.
\<close>

lemma walk_drop:
  assumes "\<And>q. look' q = (if P q then None else look q)"
  shows "walk look' follow links cur rest = walk look follow links cur rest \<or>
    walk look' follow links cur rest = Inl NotFound \<or>
    (\<exists>q. walk look' follow links cur rest = Inr q \<and> P q \<and> q \<noteq> [RootDir])"
  using assms
proof (induction look follow links cur rest rule: walk.induct)
  case (5 look follow links cur n rest)
  let ?here = "cur @ [Normal n]"
  show ?case
  proof (cases "P ?here")
    case True
    with "5.prems" have "look' ?here = None" by simp
    moreover have "?here \<noteq> [RootDir]" by (cases cur) auto
    ultimately show ?thesis using True by (cases "rest = []") simp_all
  next
    case False
    with "5.prems" have l: "look' ?here = look ?here" by simp
    show ?thesis
    proof (cases "look ?here")
      case (Some nd)
      show ?thesis
      proof (cases "nd_kind nd")
        case KDir
        with "5.IH"(1) [OF refl Some KDir "5.prems"] Some l show ?thesis by simp
      next
        case (KLink target)
        show ?thesis
        proof (cases "rest = [] \<and> \<not> follow")
          case False
          show ?thesis
          proof (cases links)
            case (Suc k)
            with "5.IH"(2) [OF refl Some KLink False Suc "5.prems"] Some l KLink False show ?thesis by auto
          qed (use Some l KLink False in auto)
        qed (use Some l KLink in simp)
      qed (use Some l in simp)
    qed (use l in simp)
  qed
qed simp_all

text \<open>Without following the last link, a path that ends in a name leads to an entry of that name.\<close>

lemma walk_last:
  "walk look follow links cur rest = Inr t \<Longrightarrow> \<not> follow \<Longrightarrow> rest \<noteq> [] \<Longrightarrow> last rest = Normal m \<Longrightarrow>
     t \<noteq> [] \<and> last t = Normal m"
proof (induction look follow links cur rest rule: walk.induct)
  case (5 look follow links cur n rest)
  show ?case
  proof (cases "rest = []")
    case True
    with 5 show ?thesis by (auto simp: Let_def split: option.splits node_kind.splits if_splits nat.splits)
  next
    case False
    with 5 show ?thesis by (auto simp: Let_def split: option.splits node_kind.splits if_splits nat.splits)
  qed
qed (auto split: if_splits)

text \<open>A resolved path is absolute when the working directory is.\<close>

lemma walk_absolute:
  "walk look follow links cur rest = Inr q \<Longrightarrow> cur \<noteq> [] \<Longrightarrow> hd cur = RootDir \<Longrightarrow> q \<noteq> [] \<and> hd q = RootDir"
proof (induction look follow links cur rest rule: walk.induct)
  case (4 look follow links cur rest)
  let ?up = "if cur = [RootDir] then cur else butlast cur"
  from "4.prems" have "?up \<noteq> []" "hd ?up = RootDir"
    by (cases cur; cases "tl cur"; auto)+
  with 4 show ?case by simp
next
  case (5 look follow links cur n rest)
  then show ?case
    by (auto simp: Let_def split: option.splits node_kind.splits if_splits nat.splits)
qed simp_all

text \<open>\<open>create_dir_all\<close> only adds directories; nothing that is there changes.\<close>

lemma sys_mkdir_frame: "entry_at w q = Some n \<Longrightarrow> entry_at (snd (sys_mkdir p w)) q = Some n"
  by (auto simp: sys_mkdir_def entry_at_def split: sum.splits if_splits)

lemma create_dir_all_frame:
  "entry_at w q = Some n \<Longrightarrow> entry_at (snd (create_dir_all p w)) q = Some n"
proof (induction p w rule: create_dir_all.induct)
  case (1 p w)
  obtain r w1 where m: "sys_mkdir p w = (r, w1)" by (cases "sys_mkdir p w")
  with sys_mkdir_frame [OF "1.prems", of p] have w1: "entry_at w1 q = Some n" by simp
  show ?case
  proof (cases "p = []")
    case True
    with "1.prems" show ?thesis by (simp add: create_dir_all.simps)
  next
    case False
    show ?thesis
    proof (cases "\<exists>parent. r = Inl NotFound \<and> path_parent p = Some parent")
      case True
      then obtain parent where r: "r = Inl NotFound" and pp: "path_parent p = Some parent" by blast
      from m r have m': "sys_mkdir p w = (Inl NotFound, w1)" by simp
      have ih: "entry_at (snd (create_dir_all parent w1)) q = Some n"
        using "1.IH" [OF False m' [symmetric] refl _ pp w1] by simp
      obtain r2 w2 where c: "create_dir_all parent w1 = (r2, w2)" by (cases "create_dir_all parent w1")
      obtain r3 w3 where m3: "sys_mkdir p w2 = (r3, w3)" by (cases "sys_mkdir p w2")
      have w2: "entry_at w2 q = Some n" using ih c by simp
      then have w3: "entry_at w3 q = Some n" using sys_mkdir_frame [OF w2, of p] m3 by simp
      show ?thesis using False m r pp c m3 w2 w3
        by (simp add: create_dir_all.simps [of p w] split: sum.splits)
    next
      case no: False
      then show ?thesis using False m w1
        by (auto simp: create_dir_all.simps [of p w] split: sum.splits option.splits)
    qed
  qed
qed

end
