(* ===== verification/Types.thy ===== *)
theory Types
  imports Os_World
begin

text \<open>
  The data types the components share: the settings of the embedded server (the fields of
  \<open>postgresql_embedded::Settings\<close> that the sources read or write), the configuration read from the
  environment (\<open>PgEnvCfg\<close> of \<open>src/src/lib.rs\<close>), the prepared bootstrap settings of
  \<open>src/src/bootstrap/mod.rs\<close> and its environment, and the operations of the worker.

  Durations are in nanoseconds. A \<open>VersionReq\<close> is kept as its canonical text. A \<open>PathBuf\<close> or
  \<open>Utf8PathBuf\<close> is its bytes; \<open>utf8_valid\<close> tells whether a \<open>PathBuf\<close> converts to the latter.
\<close>

type_synonym duration = nat

definition from_secs :: "nat \<Rightarrow> duration" where
  "from_secs n = n * 1000000000"

definition from_millis :: "nat \<Rightarrow> duration" where
  "from_millis n = n * 1000000"

type_synonym env_vars = "(string \<times> string option) list"

record settings =
  st_releases_url :: string
  st_version :: string
  st_installation_dir :: pathbuf
  st_password_file :: pathbuf
  st_data_dir :: pathbuf
  st_host :: string
  st_port :: nat
  st_username :: string
  st_password :: string
  st_temporary :: bool
  st_timeout :: "duration option"
  st_configuration :: "string \<rightharpoonup> string"
  st_trust_installation_dir :: bool
  st_socket_dir :: "pathbuf option"

record pg_env_cfg =
  pc_version_req :: "string option"
  pc_port :: "nat option"
  pc_superuser :: "string option"
  pc_password :: "string option"
  pc_data_dir :: "pathbuf option"
  pc_runtime_dir :: "pathbuf option"
  pc_locale :: "string option"
  pc_encoding :: "string option"
  pc_binary_cache_dir :: "pathbuf option"

datatype cleanup_mode = DataOnly | Full | NoCleanup

text \<open>\<open>#[default]\<close> on \<open>DataOnly\<close>.\<close>

definition default_cleanup_mode :: cleanup_mode where
  "default_cleanup_mode = DataOnly"

datatype execution_privileges = Root | Unprivileged

datatype execution_mode = InProcess | Subprocess

record timezone_env =
  tz_dir :: "pathbuf option"
  tz_zone :: string

record xdg_dirs =
  xd_home :: pathbuf
  xd_cache :: pathbuf
  xd_runtime :: pathbuf

record bootstrap_environment =
  ben_home :: pathbuf
  ben_xdg_cache_home :: pathbuf
  ben_xdg_runtime_dir :: pathbuf
  ben_pgpass_file :: pathbuf
  ben_tz_dir :: "pathbuf option"
  ben_timezone :: string

record bootstrap_settings =
  bs_privileges :: execution_privileges
  bs_execution_mode :: execution_mode
  bs_settings :: settings
  bs_environment :: bootstrap_environment
  bs_worker_binary :: "pathbuf option"
  bs_setup_timeout :: duration
  bs_start_timeout :: duration
  bs_shutdown_timeout :: duration
  bs_cleanup_mode :: cleanup_mode
  bs_binary_cache_dir :: "pathbuf option"

datatype worker_operation = OpSetup | OpStart | OpStop | OpCleanup | OpCleanupFull

fun op_as_str :: "worker_operation \<Rightarrow> string" where
  "op_as_str OpSetup = ''setup''"
| "op_as_str OpStart = ''start''"
| "op_as_str OpStop = ''stop''"
| "op_as_str OpCleanup = ''cleanup''"
| "op_as_str OpCleanupFull = ''cleanup-full''"

fun op_error_context :: "worker_operation \<Rightarrow> string" where
  "op_error_context OpSetup = ''postgresql_embedded::setup() failed''"
| "op_error_context OpStart = ''postgresql_embedded::start() failed''"
| "op_error_context OpStop = ''postgresql_embedded::stop() failed''"
| "op_error_context OpCleanup = ''pg_worker cleanup operation failed''"
| "op_error_context OpCleanupFull = ''pg_worker cleanup-full operation failed''"

fun op_timeout :: "worker_operation \<Rightarrow> bootstrap_settings \<Rightarrow> duration" where
  "op_timeout OpSetup b = bs_setup_timeout b"
| "op_timeout OpStart b = bs_start_timeout b"
| "op_timeout _ b = bs_shutdown_timeout b"

lemma op_as_str_inject: "op_as_str a = op_as_str b \<Longrightarrow> a = b"
  by (cases a; cases b) simp_all

text \<open>The environment handed to child processes and to the tests.\<close>

definition from_components :: "xdg_dirs \<Rightarrow> pathbuf \<Rightarrow> timezone_env \<Rightarrow> bootstrap_environment" where
  "from_components xdg pgpass_file timezone =
     \<lparr>ben_home = xd_home xdg, ben_xdg_cache_home = xd_cache xdg,
      ben_xdg_runtime_dir = xd_runtime xdg, ben_pgpass_file = pgpass_file,
      ben_tz_dir = tz_dir timezone, ben_timezone = tz_zone timezone\<rparr>"

definition to_env :: "bootstrap_environment \<Rightarrow> env_vars" where
  "to_env b =
     [(''HOME'', Some (ben_home b)),
      (''XDG_CACHE_HOME'', Some (ben_xdg_cache_home b)),
      (''XDG_RUNTIME_DIR'', Some (ben_xdg_runtime_dir b)),
      (''PGPASSFILE'', Some (ben_pgpass_file b)),
      (''TZDIR'', ben_tz_dir b),
      (''TZ'', Some (ben_timezone b))]"

lemma to_env_keys: "distinct (map fst (to_env b))" "length (to_env b) = 6"
  by (simp_all add: to_env_def)

end
