(* ===== verification/Fs_Helpers.thy ===== *)
theory Fs_Helpers
  imports Types
begin

text \<open>
  The directory helpers of \<open>src/src/fs.rs\<close>. They use \<open>cap_std\<close> directory handles, which are not part
  of the repository: the calls the sources make on them, and the \<open>nix\<close> calls that change owners, are
  the fields of the record \<open>ext\<close>, an argument of every definition that uses them. What the theorems
  need of these calls is stated as named predicates on the record (\<open>chown_spec\<close>, \<open>chmod_spec\<close>,
  \<open>create_spec\<close>, \<open>entries_spec\<close>), the documented POSIX behaviour over the file system of \<open>Os_World\<close>;
  \<open>posix_ext\<close> is an instance on which the witnesses run.
\<close>

section \<open>Third-party calls\<close>

record user =
  us_name :: string
  us_uid :: nat
  us_gid :: nat

record 'h ext =
  cap_open :: "path \<Rightarrow> world \<Rightarrow> io_kind + 'h"
  cap_create_dir_all :: "'h \<Rightarrow> path \<Rightarrow> unit io"
  cap_set_permissions :: "'h \<Rightarrow> path \<Rightarrow> nat \<Rightarrow> unit io"
  cap_dir_metadata :: "'h \<Rightarrow> world \<Rightarrow> io_kind + node"
  cap_metadata :: "'h \<Rightarrow> path \<Rightarrow> world \<Rightarrow> io_kind + node"
  cap_entries :: "'h \<Rightarrow> world \<Rightarrow> io_kind + (io_kind + (string \<times> bool)) list"
  cap_read_dir :: "'h \<Rightarrow> path \<Rightarrow> world \<Rightarrow> io_kind + string list"
  cap_exists :: "'h \<Rightarrow> path \<Rightarrow> world \<Rightarrow> bool"
  cap_remove_dir_all :: "'h \<Rightarrow> path \<Rightarrow> unit io"
  cap_read :: "'h \<Rightarrow> path \<Rightarrow> world \<Rightarrow> io_kind + string"
  cap_open_nofollow :: "'h \<Rightarrow> path \<Rightarrow> world \<Rightarrow> io_kind + 'h"
  cap_file_metadata :: "'h \<Rightarrow> world \<Rightarrow> io_kind + node"
  nix_chown :: "path \<Rightarrow> nat \<Rightarrow> nat \<Rightarrow> unit io"
  nix_fchown :: "'h \<Rightarrow> nat \<Rightarrow> nat \<Rightarrow> unit io"
  nix_fchmod :: "'h \<Rightarrow> nat \<Rightarrow> unit io"
  nix_user_from_name :: "string \<Rightarrow> world \<Rightarrow> io_kind + user option"

type_synonym 'a step = "(report + 'a) \<times> world"

definition context_io :: "string \<Rightarrow> io_kind + 'a \<Rightarrow> report + 'a" where
  "context_io c r = map_err (\<lambda>k. Ctx c (IoErr k)) r"

definition context_io_st :: "string \<Rightarrow> (io_kind + 'a) \<times> world \<Rightarrow> 'a step" where
  "context_io_st c r = map_err_st (\<lambda>k. Ctx c (IoErr k)) r"

lemma context_io_simps [simp]:
  "context_io c (Inl k) = Inl (Ctx c (IoErr k))" "context_io c (Inr x) = Inr x"
  "context_io_st c (Inl k, w) = (Inl (Ctx c (IoErr k)), w)" "context_io_st c (Inr x, w) = (Inr x, w)"
  by (simp_all add: context_io_def context_io_st_def)

lemma context_io_Inr [simp]:
  "context_io c r = Inr x \<longleftrightarrow> r = Inr x" "context_io_st c m = (Inr x, w) \<longleftrightarrow> m = (Inr x, w)"
  by (simp_all add: context_io_def context_io_st_def)

section \<open>Operations\<close>

definition ambient_dir_and_path :: "'h ext \<Rightarrow> path \<Rightarrow> world \<Rightarrow> report + ('h \<times> path)" where
  "ambient_dir_and_path X p w =
     (if is_absolute p then
        try_res
          (case path_parent p of
             Some parent \<Rightarrow>
               (case strip_prefix p parent of
                  None \<Rightarrow> Inl (Ctx ''strip parent'' (Msg ''prefix not found''))
                | Some relative \<Rightarrow> Inr (parent, relative))
           | None \<Rightarrow> Inr (p, []))
          (\<lambda>(dir_path, relative).
             try_res (context_io ''open ambient directory for absolute path'' (cap_open X dir_path w))
               (\<lambda>dir. Inr (dir, relative)))
      else try_res (context_io ''open ambient working directory'' (cap_open X [CurDir] w))
             (\<lambda>dir. Inr (dir, p)))"

definition ancestor_fs_path :: "path \<Rightarrow> path" where
  "ancestor_fs_path a = (if a = [] then [CurDir] else a)"

fun ancestor_loop :: "'h ext \<Rightarrow> path \<Rightarrow> path list \<Rightarrow> io_kind option \<Rightarrow> world \<Rightarrow> report + ('h \<times> path)" where
  "ancestor_loop X p [] last_err w =
     Inl (Ctx ''find existing ancestor directory''
       (IoErr (case last_err of None \<Rightarrow> NotFound | Some k \<Rightarrow> k)))"
| "ancestor_loop X p (a # rest) last_err w =
     (case cap_open X (ancestor_fs_path a) w of
        Inr dir \<Rightarrow>
          (case strip_prefix p a of
             None \<Rightarrow> Inl (Ctx ''strip ancestor'' (Msg ''prefix not found''))
           | Some relative \<Rightarrow> Inr (dir, relative))
      | Inl k \<Rightarrow>
          if k = NotFound \<or> k = NotADirectory then ancestor_loop X p rest (Some k) w
          else Inl (Ctx ''open ambient directory for path'' (IoErr k)))"

definition find_existing_ancestor :: "'h ext \<Rightarrow> path \<Rightarrow> world \<Rightarrow> report + ('h \<times> path)" where
  "find_existing_ancestor X p w = ancestor_loop X p (ancestors p) None w"

definition handle_existing_metadata :: "node \<Rightarrow> report + unit" where
  "handle_existing_metadata n =
     (if nd_kind n = KDir then Inr () else Inl (Ctx ''create'' (IoErr NotADirectory)))"

definition ensure_existing_path_is_dir :: "'h ext \<Rightarrow> path \<Rightarrow> world \<Rightarrow> report + unit" where
  "ensure_existing_path_is_dir X p w =
     try_res (ambient_dir_and_path X p w)
       (\<lambda>(dir, relative).
          case (if relative = [] then cap_dir_metadata X dir w else cap_metadata X dir relative w) of
            Inr n \<Rightarrow> handle_existing_metadata n
          | Inl k \<Rightarrow> Inl (Ctx ''create'' (IoErr k)))"

definition handle_dir_creation_error :: "'h ext \<Rightarrow> path \<Rightarrow> io_kind \<Rightarrow> world \<Rightarrow> report + unit" where
  "handle_dir_creation_error X p k w =
     (if k = AlreadyExists then ensure_existing_path_is_dir X p w
      else Inl (Ctx ''create'' (IoErr k)))"

definition ensure_dir_exists_inner :: "'h ext \<Rightarrow> path \<Rightarrow> 'h \<Rightarrow> path \<Rightarrow> world \<Rightarrow> unit step" where
  "ensure_dir_exists_inner X p dir relative w =
     (if relative = [] then (Inr (), w)
      else case cap_create_dir_all X dir relative w of
        (Inr _, w1) \<Rightarrow> (Inr (), w1)
      | (Inl k, w1) \<Rightarrow> (handle_dir_creation_error X p k w1, w1))"

definition ensure_dir_exists :: "'h ext \<Rightarrow> path \<Rightarrow> world \<Rightarrow> unit step" where
  "ensure_dir_exists X p w =
     try_st (find_existing_ancestor X p w, w)
       (\<lambda>(dir, relative). ensure_dir_exists_inner X p dir relative)"

definition set_permissions_inner :: "'h ext \<Rightarrow> nat \<Rightarrow> 'h \<Rightarrow> path \<Rightarrow> world \<Rightarrow> unit step" where
  "set_permissions_inner X mode dir relative w =
     (if relative = [] then (Inr (), w)
      else context_io_st ''chmod'' (cap_set_permissions X dir relative mode w))"

definition set_permissions :: "'h ext \<Rightarrow> path \<Rightarrow> nat \<Rightarrow> world \<Rightarrow> unit step" where
  "set_permissions X p mode w =
     try_st (ambient_dir_and_path X p w, w)
       (\<lambda>(dir, relative). set_permissions_inner X mode dir relative)"

section \<open>What the calls are documented to do\<close>

text \<open>A path leads to a node, following links, from the working directory or from a directory.\<close>

definition leads_to :: "world \<Rightarrow> path \<Rightarrow> path \<Rightarrow> node \<Rightarrow> bool" where
  "leads_to w p q n \<longleftrightarrow> node_of True w p = Inr (q, n)"

definition leads_from :: "world \<Rightarrow> path \<Rightarrow> path \<Rightarrow> path \<Rightarrow> node \<Rightarrow> bool" where
  "leads_from w d rel q n \<longleftrightarrow> walk (entry w) True 40 d rel = Inr q \<and> entry_at w q = Some n"

definition dir_at :: "world \<Rightarrow> path \<Rightarrow> bool" where
  "dir_at w p \<longleftrightarrow> (\<exists>q n. leads_to w p q n \<and> nd_kind n = KDir)"

text \<open>Opening a directory succeeds only on a directory, and reports \<open>NotFound\<close> only where none is.\<close>

definition open_spec :: "'h ext \<Rightarrow> bool" where
  "open_spec X \<longleftrightarrow> (\<forall>p w d. cap_open X p w = Inr d \<longrightarrow> dir_at w p) \<and>
     (\<forall>p w. cap_open X p w = Inl NotFound \<longrightarrow> \<not> dir_at w p)"

text \<open>Creating below a handle leaves a directory there and disturbs nothing that exists; metadata is
  that of the node the path leads to from the handle.\<close>

definition create_spec :: "'h ext \<Rightarrow> bool" where
  "create_spec X \<longleftrightarrow>
     (\<forall>p w d q0 n0 rel w'. cap_open X p w = Inr d \<longrightarrow> leads_to w p q0 n0 \<longrightarrow> rel \<noteq> [] \<longrightarrow>
        cap_create_dir_all X d rel w = (Inr (), w') \<longrightarrow>
        (\<exists>q n. leads_from w' q0 rel q n \<and> nd_kind n = KDir)) \<and>
     (\<forall>d rel w p q n. leads_to w p q n \<longrightarrow> leads_to (snd (cap_create_dir_all X d rel w)) p q n) \<and>
     (\<forall>p w d q0 n0 rel n. cap_open X p w = Inr d \<longrightarrow> leads_to w p q0 n0 \<longrightarrow>
        cap_metadata X d rel w = Inr n \<longrightarrow> (\<exists>q. leads_from w q0 rel q n)) \<and>
     (\<forall>p w d q0 n0 n. cap_open X p w = Inr d \<longrightarrow> leads_to w p q0 n0 \<longrightarrow>
        cap_dir_metadata X d w = Inr n \<longrightarrow> n = n0)"

definition chown_spec :: "'h ext \<Rightarrow> bool" where
  "chown_spec X \<longleftrightarrow>
     (\<forall>p u g w w'. nix_chown X p u g w = (Inr (), w') \<longrightarrow>
        (\<exists>q n. leads_to w p q n \<and> w' = put_entry q (n\<lparr>nd_uid := u, nd_gid := g\<rparr>) w))"

definition chmod_spec :: "'h ext \<Rightarrow> bool" where
  "chmod_spec X \<longleftrightarrow>
     (\<forall>p w d q0 n0 rel m w'. cap_open X p w = Inr d \<longrightarrow> leads_to w p q0 n0 \<longrightarrow>
        cap_set_permissions X d rel m w = (Inr (), w') \<longrightarrow>
        (\<exists>q n. leads_from w q0 rel q n \<and> w' = put_entry q (n\<lparr>nd_mode := m\<rparr>) w))"

text \<open>Listing a directory gives each of its entries once, with their types.\<close>

definition entries_spec :: "'h ext \<Rightarrow> bool" where
  "entries_spec X \<longleftrightarrow>
     (\<forall>p w d es q n. cap_open X p w = Inr d \<longrightarrow> leads_to w p q n \<longrightarrow> cap_entries X d w = Inr es \<longrightarrow>
        (\<exists>names. es = map Inr names \<and> distinct (map fst names) \<and>
           (\<forall>m b. (m, b) \<in> set names \<longleftrightarrow>
              (\<exists>nd. entry w (q @ [Normal m]) = Some nd \<and> (b \<longleftrightarrow> nd_kind nd = KDir)))))"

section \<open>An instance\<close>

text \<open>Handles are the paths of open directories and files.\<close>

definition posix_node :: "bool \<Rightarrow> path \<Rightarrow> path \<Rightarrow> world \<Rightarrow> io_kind + (path \<times> node)" where
  "posix_node follow d rel w = try_res (walk (entry w) follow 40 d rel)
     (\<lambda>q. case entry_at w q of None \<Rightarrow> Inl NotFound | Some n \<Rightarrow> Inr (q, n))"

definition posix_update :: "io_kind + (path \<times> node) \<Rightarrow> (node \<Rightarrow> node) \<Rightarrow> unit io" where
  "posix_update r f w = (case r of Inl k \<Rightarrow> (Inl k, w) | Inr (q, n) \<Rightarrow> (Inr (), put_entry q (f n) w))"

definition in_dir :: "path \<Rightarrow> (world \<Rightarrow> 'a \<times> world) \<Rightarrow> world \<Rightarrow> 'a \<times> world" where
  "in_dir d f w = (case f (w\<lparr>w_cwd := d\<rparr>) of (r, w') \<Rightarrow> (r, w'\<lparr>w_cwd := w_cwd w\<rparr>))"

definition posix_open :: "path \<Rightarrow> world \<Rightarrow> io_kind + path" where
  "posix_open p w = try_res (node_of True w p)
     (\<lambda>(q, n). if nd_kind n = KDir then Inr q else Inl NotADirectory)"

definition posix_entries :: "path \<Rightarrow> world \<Rightarrow> io_kind + (io_kind + (string \<times> bool)) list" where
  "posix_entries d w = Inr (map (\<lambda>m. Inr (m, case entry w (d @ [Normal m]) of
       None \<Rightarrow> False | Some n \<Rightarrow> nd_kind n = KDir)) (children w d))"

definition posix_ext :: "path ext" where
  "posix_ext =
     \<lparr>cap_open = posix_open,
      cap_create_dir_all = (\<lambda>d rel. in_dir d (create_dir_all rel)),
      cap_set_permissions = (\<lambda>d rel m w. posix_update (posix_node True d rel w) (\<lambda>n. n\<lparr>nd_mode := m\<rparr>) w),
      cap_dir_metadata = (\<lambda>d w. case entry_at w d of None \<Rightarrow> Inl NotFound | Some n \<Rightarrow> Inr n),
      cap_metadata = (\<lambda>d rel w. try_res (posix_node True d rel w) (\<lambda>(_, n). Inr n)),
      cap_entries = posix_entries,
      cap_read_dir = (\<lambda>d rel w. read_dir rel (w\<lparr>w_cwd := d\<rparr>)),
      cap_exists = (\<lambda>d rel w. path_exists (w\<lparr>w_cwd := d\<rparr>) rel),
      cap_remove_dir_all = (\<lambda>d rel. in_dir d (remove_dir_all rel)),
      cap_read = (\<lambda>d rel w. read_to_string rel (w\<lparr>w_cwd := d\<rparr>)),
      cap_open_nofollow = (\<lambda>d rel w. try_res (posix_node False d rel w)
        (\<lambda>(q, n). if is_link_kind (nd_kind n) then Inl OtherIo else Inr q)),
      cap_file_metadata = (\<lambda>d w. case entry_at w d of None \<Rightarrow> Inl NotFound | Some n \<Rightarrow> Inr n),
      nix_chown = (\<lambda>p u g w. posix_update (node_of True w p) (\<lambda>n. n\<lparr>nd_uid := u, nd_gid := g\<rparr>) w),
      nix_fchown = (\<lambda>d u g w. posix_update (posix_node True d [] w) (\<lambda>n. n\<lparr>nd_uid := u, nd_gid := g\<rparr>) w),
      nix_fchmod = (\<lambda>d m w. posix_update (posix_node True d [] w) (\<lambda>n. n\<lparr>nd_mode := m\<rparr>) w),
      nix_user_from_name = (\<lambda>s w. Inr (if s = ''nobody'' then
          Some \<lparr>us_name = s, us_uid = 65534, us_gid = 65534\<rparr> else None))\<rparr>"

lemma posix_chown_spec: "chown_spec posix_ext"
  by (auto simp: chown_spec_def posix_ext_def posix_update_def leads_to_def split: sum.splits)

lemma posix_open_spec: "open_spec posix_ext"
proof -
  have "dir_at w p" if "posix_open p w = Inr d" for p w d
    using that by (auto simp: posix_open_def dir_at_def leads_to_def try_res_Inr split: if_splits)
  moreover have "\<not> dir_at w p" if "posix_open p w = Inl NotFound" for p w
    using that by (auto simp: posix_open_def dir_at_def leads_to_def)
  ultimately show ?thesis by (simp add: open_spec_def posix_ext_def)
qed

lemma posix_open_is: "posix_open p w = Inr d \<Longrightarrow> leads_to w p q n \<Longrightarrow> d = q"
  by (auto simp: posix_open_def leads_to_def try_res_Inr split: if_splits)

lemma posix_node_is: "posix_node True d rel w = Inr (q, n) \<longleftrightarrow> leads_from w d rel q n"
  by (auto simp: posix_node_def leads_from_def try_res_Inr split: option.splits)

lemma posix_chmod_spec: "chmod_spec posix_ext"
  unfolding chmod_spec_def
proof (intro allI impI)
  fix p w d q0 n0 rel m w'
  assume o: "cap_open posix_ext p w = Inr d" "leads_to w p q0 n0" and
    s: "cap_set_permissions posix_ext d rel m w = (Inr (), w')"
  from o have "d = q0" by (auto simp: posix_ext_def dest: posix_open_is)
  with s show "\<exists>q n. leads_from w q0 rel q n \<and> w' = put_entry q (n\<lparr>nd_mode := m\<rparr>) w"
    by (force simp: posix_ext_def posix_update_def posix_node_is split: sum.splits)
qed

definition child_name :: "path \<Rightarrow> path \<Rightarrow> string option" where
  "child_name q r =
     (if r \<noteq> [] \<and> butlast r = q then (case last r of Normal n \<Rightarrow> Some n | _ \<Rightarrow> None) else None)"

lemma child_name_Some: "child_name q r = Some m \<longleftrightarrow> r = q @ [Normal m]"
  by (cases r rule: rev_cases) (auto simp: child_name_def split: component.splits)

lemma children_set: "set (children w d) = {m. \<exists>nd. entry w (d @ [Normal m]) = Some nd}"
proof -
  have "children w d = remdups (List.map_filter (child_name d \<circ> fst) (w_fs w))"
    unfolding children_def by (rule arg_cong [where f = remdups], rule arg_cong2 [where f = List.map_filter])
      (auto simp: child_name_def)
  then have "set (children w d) = {m. \<exists>kv\<in>set (w_fs w). child_name d (fst kv) = Some m}"
    by (force simp: List.map_filter_def)
  also have "\<dots> = {m. \<exists>nd. map_of (w_fs w) (d @ [Normal m]) = Some nd}"
    unfolding child_name_Some by (metis (no_types, lifting) fst_conv map_of_SomeD not_None_eq
        map_of_eq_None_iff image_eqI)
  finally show ?thesis by (simp add: entry_def)
qed

lemma posix_entries_spec: "entries_spec posix_ext"
  unfolding entries_spec_def
proof (intro allI impI)
  fix p w d es q n
  assume o: "cap_open posix_ext p w = Inr d" "leads_to w p q n" and e: "cap_entries posix_ext d w = Inr es"
  let ?names = "map (\<lambda>m. (m, case entry w (q @ [Normal m]) of
       None \<Rightarrow> False | Some n \<Rightarrow> nd_kind n = KDir)) (children w q)"
  from o have "d = q" by (auto simp: posix_ext_def dest: posix_open_is)
  with e have es: "es = map Inr ?names" by (auto simp: posix_ext_def posix_entries_def)
  have di: "distinct (map fst ?names)" by (simp add: comp_def children_def)
  have "(m, b) \<in> set ?names \<longleftrightarrow>
      (\<exists>nd. entry w (q @ [Normal m]) = Some nd \<and> (b \<longleftrightarrow> nd_kind nd = KDir))" for m b
    by (auto simp: children_set)
  with es di show "\<exists>names. es = map Inr names \<and> distinct (map fst names) \<and>
           (\<forall>m b. (m, b) \<in> set names \<longleftrightarrow>
              (\<exists>nd. entry w (q @ [Normal m]) = Some nd \<and> (b \<longleftrightarrow> nd_kind nd = KDir)))" by blast
qed

section \<open>Lemmas\<close>

lemma strip_prefix_parent: "path_parent p = Some q \<Longrightarrow> \<exists>c. p = q @ [c] \<and> strip_prefix p q = Some [c]"
  using path_parent_butlast [of p q]
  by (cases p rule: rev_cases) (auto simp: strip_prefix_def)

lemma strip_prefix_ancestor:
  assumes "a \<in> set (ancestors p)" shows "\<exists>rel. p = a @ rel \<and> strip_prefix p a = Some rel"
  using ancestors_prefix [OF assms] by (auto simp: strip_prefix_def prefix_def)

text \<open>What \<open>ambient_dir_and_path\<close> gives: a handle and a path below it that together are the path.\<close>

lemma ambient_dir_and_path_ok:
  assumes "ambient_dir_and_path X p w = Inr (d, rel)"
  shows "\<exists>a. cap_open X (ancestor_fs_path a) w = Inr d \<and> p = a @ rel \<and>
    (rel = [] \<longleftrightarrow> p = [] \<or> (is_absolute p \<and> path_parent p = None))"
proof (cases "is_absolute p")
  case abs: True
  show ?thesis
  proof (cases "path_parent p")
    case None
    with abs assms show ?thesis
      by (auto simp: ambient_dir_and_path_def try_res_Inr ancestor_fs_path_def is_absolute_def
          intro!: exI [of _ p] split: list.splits)
  next
    case (Some q)
    with strip_prefix_parent [OF Some] obtain c where c: "p = q @ [c]" "strip_prefix p q = Some [c]" by blast
    have "q \<noteq> []"
      using abs c Some path_parent_None [of p] by (cases q) (auto simp: is_absolute_def path_parent_def split: component.splits)
    with abs Some c assms show ?thesis
      by (auto simp: ambient_dir_and_path_def try_res_Inr ancestor_fs_path_def intro!: exI [of _ q])
  qed
next
  case False
  with assms show ?thesis
    by (auto simp: ambient_dir_and_path_def try_res_Inr ancestor_fs_path_def intro!: exI [of _ "[]"])
qed

text \<open>The error branch of \<open>strip_prefix\<close> is never taken.\<close>

lemma ancestor_loop_ok:
  "ancestor_loop X p as e w = Inr (d, rel) \<Longrightarrow>
     \<exists>pre a post. as = pre @ a # post \<and> cap_open X (ancestor_fs_path a) w = Inr d \<and>
       strip_prefix p a = Some rel \<and>
       (\<forall>b\<in>set pre. cap_open X (ancestor_fs_path b) w \<in> {Inl NotFound, Inl NotADirectory})"
proof (induction X p as e w rule: ancestor_loop.induct)
  case (2 X p a rest e w)
  show ?case
  proof (cases "cap_open X (ancestor_fs_path a) w")
    case (Inl k)
    with "2.prems" have k: "k = NotFound \<or> k = NotADirectory" and
      r: "ancestor_loop X p rest (Some k) w = Inr (d, rel)" by (auto split: if_splits)
    from "2.IH" [OF Inl k r] obtain pre b post where
      "rest = pre @ b # post" "cap_open X (ancestor_fs_path b) w = Inr d" "strip_prefix p b = Some rel"
      "\<forall>c\<in>set pre. cap_open X (ancestor_fs_path c) w \<in> {Inl NotFound, Inl NotADirectory}" by blast
    with Inl k show ?thesis by (intro exI [of _ "a # pre"] exI [of _ b] exI [of _ post]) auto
  next
    case (Inr d')
    with "2.prems" show ?thesis
      by (intro exI [of _ "[]"] exI [of _ a] exI [of _ rest]) (auto split: option.splits)
  qed
qed simp

text \<open>Path resolution sees only the kinds of the nodes on the way.\<close>

lemma walk_kinds:
  assumes "\<And>q. map_option nd_kind (look' q) = map_option nd_kind (look q)"
  shows "walk look' follow links cur rest = walk look follow links cur rest"
  using assms
proof (induction look follow links cur rest rule: walk.induct)
  case (5 look follow links cur n rest)
  let ?here = "cur @ [Normal n]"
  from "5.prems" [of ?here] consider "look ?here = None" "look' ?here = None"
    | nd nd' where "look ?here = Some nd" "look' ?here = Some nd'" "nd_kind nd' = nd_kind nd"
    by (cases "look ?here"; cases "look' ?here") auto
  then show ?case
  proof cases
    case 1
    then show ?thesis by simp
  next
    case 2
    show ?thesis
    proof (cases "nd_kind nd")
      case KDir
      with 2 "5.IH"(1) [OF refl 2(1) KDir "5.prems"] show ?thesis by simp
    next
      case (KFile s)
      with 2 show ?thesis by simp
    next
      case (KLink target)
      show ?thesis
      proof (cases "rest = [] \<and> \<not> follow")
        case False
        then show ?thesis
        proof (cases links)
          case (Suc k)
          with 2 KLink False "5.IH"(2) [OF refl 2(1) KLink False Suc "5.prems"] show ?thesis by auto
        qed (use 2 KLink in auto)
      qed (use 2 KLink in auto)
    qed
  qed
qed simp_all

lemma leads_to_entry:
  "leads_to w p q n \<Longrightarrow> q \<noteq> [RootDir] \<Longrightarrow> entry w q = Some n"
  by (auto simp: leads_to_def node_of_def try_res_Inr entry_at_def split: option.splits if_splits)

lemma leads_to_entry_at: "leads_to w p q n \<Longrightarrow> entry_at w q = Some n"
  by (auto simp: leads_to_def node_of_def try_res_Inr split: option.splits)

lemma leads_to_fun: "leads_to w p q n \<Longrightarrow> leads_to w p q' n' \<Longrightarrow> q' = q \<and> n' = n"
  by (simp add: leads_to_def)

text \<open>The root directory is never looked up, so recording it changes no resolution.\<close>

lemma walk_root:
  assumes "\<And>q. q \<noteq> [RootDir] \<Longrightarrow> map_option nd_kind (look' q) = map_option nd_kind (look q)"
  shows "walk look' follow links cur rest = walk look follow links cur rest"
proof -
  let ?hide = "\<lambda>look q. if q = [RootDir] then None else look q"
  have hide: "walk (?hide l) follow links cur rest = walk l follow links cur rest" for l
  proof (induction l follow links cur rest rule: walk.induct)
    case (5 l follow links cur n rest)
    have "cur @ [Normal n] \<noteq> [RootDir]" by (cases cur) auto
    with 5 show ?case by (auto simp: Let_def split: option.splits node_kind.splits nat.splits)
  qed simp_all
  have "walk (?hide look') follow links cur rest = walk (?hide look) follow links cur rest"
    by (rule walk_kinds) (simp add: assms)
  then show ?thesis by (simp add: hide)
qed

text \<open>Changing the owner or mode of a node keeps every path leading where it led.\<close>

lemma resolve_put_same_kind:
  assumes "entry_at w q = Some n" and "nd_kind n' = nd_kind n"
  shows "resolve f (put_entry q n' w) p = resolve f w p"
proof -
  have "walk (entry (put_entry q n' w)) f 40 (w_cwd w) p = walk (entry w) f 40 (w_cwd w) p"
    using assms by (intro walk_root) (auto simp: entry_at_def)
  then show ?thesis by (simp add: resolve_def)
qed

lemma entry_at_put [simp]: "entry_at (put_entry q n w) r = (if r = q then Some n else entry_at w r)"
  by (simp add: entry_at_def)

lemma leads_to_iff: "leads_to w p q n \<longleftrightarrow> resolve True w p = Inr q \<and> entry_at w q = Some n"
  by (auto simp: leads_to_def node_of_def try_res_Inr split: option.splits)

lemma leads_to_put:
  assumes "entry_at w q = Some n" and "nd_kind n' = nd_kind n"
  shows "leads_to (put_entry q n' w) p r m \<longleftrightarrow>
    (if r = q then m = n' \<and> leads_to w p q n else leads_to w p r m)"
  unfolding leads_to_iff resolve_put_same_kind [OF assms] entry_at_put
  using assms(1) by (simp split: if_split) blast

section \<open>Creating directories disturbs nothing\<close>

text \<open>Whatever a path led to, from any directory, it still leads to.\<close>

definition settled :: "world \<Rightarrow> world \<Rightarrow> bool" where
  "settled w w' \<longleftrightarrow>
     (\<forall>f links cur p r n. walk (entry w) f links cur p = Inr r \<longrightarrow> entry_at w r = Some n \<longrightarrow>
        walk (entry w') f links cur p = Inr r \<and> entry_at w' r = Some n) \<and> w_cwd w' = w_cwd w"

lemma settled_refl: "settled w w"
  by (simp add: settled_def)

lemma settled_trans: "settled a b \<Longrightarrow> settled b c \<Longrightarrow> settled a c"
  unfolding settled_def by (metis (no_types, lifting))

lemma settled_leads_to: "settled w w' \<Longrightarrow> leads_to w p q n \<Longrightarrow> leads_to w' p q n"
  by (auto simp: settled_def leads_to_iff resolve_def split: if_splits)

lemma walk_put_keeps:
  assumes "look q = None"
  shows "walk look f links cur p = Inr r \<Longrightarrow> r \<noteq> q \<Longrightarrow> walk (look(q \<mapsto> nd)) f links cur p = Inr r"
  using assms
proof (induction look f links cur p rule: walk.induct)
  case (5 look f links cur n rest)
  then show ?case
    by (auto simp: Let_def split: option.splits node_kind.splits nat.splits if_splits)
qed simp_all

lemma walk_put_new:
  assumes "look q = None" and "nd_kind nd = KDir"
  shows "walk look False links cur p = Inr q \<Longrightarrow> walk (look(q \<mapsto> nd)) True links cur p = Inr q"
  using assms
proof (induction look "False" links cur p rule: walk.induct)
  case (5 look links cur n rest)
  then show ?case
    by (auto simp: Let_def split: option.splits node_kind.splits nat.splits if_splits)
qed simp_all

lemma entry_put_fun: "entry (put_entry q n w) = (entry w)(q \<mapsto> n)"
  by (rule ext) simp

lemma sys_mkdir_cases:
  obtains (made) q n where "resolve False w p = Inr q" "entry_at w q = None" "nd_kind n = KDir"
    "sys_mkdir p w = (Inr (), put_entry q n w)"
  | (failed) k where "sys_mkdir p w = (Inl k, w)"
proof (cases "sys_mkdir p w")
  case (Pair r w1)
  show ?thesis
  proof (cases r)
    case (Inl k)
    with Pair failed show ?thesis by (auto simp: sys_mkdir_def split: sum.splits if_splits)
  next
    case (Inr u)
    with Pair have "\<exists>q. resolve False w p = Inr q \<and> entry_at w q = None \<and>
        w1 = put_entry q (new_node w KDir 493) w"
      by (auto simp: sys_mkdir_def guarded_def split: sum.splits if_splits option.splits)
    with Pair Inr made [of _ "new_node w KDir 493"] show ?thesis by (auto simp: new_node_def)
  qed
qed

lemma put_new_settled: "entry_at w q = None \<Longrightarrow> settled w (put_entry q n w)"
  using walk_put_keeps [of "entry w" q]
  by (auto simp: settled_def entry_put_fun) (auto simp: entry_at_def split: if_splits)

lemma sys_mkdir_settled: "settled w (snd (sys_mkdir p w))"
  by (cases p w rule: sys_mkdir_cases) (auto simp: put_new_settled settled_refl)

lemma sys_mkdir_dir:
  assumes "sys_mkdir p w = (Inr (), w')"
  shows "dir_at w' p"
proof (cases p w rule: sys_mkdir_cases)
  case (made q n)
  then have "entry w q = None" by (auto simp: entry_at_def split: if_splits)
  with made have "walk (entry w') True 40 (w_cwd w') p = Inr q" and p: "p \<noteq> []"
    using assms walk_put_new [of "entry w" q n 40 "w_cwd w" p]
    by (auto simp: resolve_def entry_put_fun split: if_splits)
  moreover have "entry_at w' q = Some n" using made assms by simp
  ultimately show ?thesis using made(3) by (auto simp: dir_at_def leads_to_iff resolve_def)
next
  case failed
  with assms show ?thesis by simp
qed

lemma path_is_dir_at: "path_is_dir w p \<Longrightarrow> dir_at w p"
  by (auto simp: path_is_dir_def metadata_def guarded_def dir_at_def leads_to_def try_res_def
      split: sum.splits option.splits)

lemma create_dir_all_ok:
  "settled w (snd (create_dir_all p w)) \<and>
   (fst (create_dir_all p w) = Inr () \<longrightarrow> p \<noteq> [] \<longrightarrow> dir_at (snd (create_dir_all p w)) p)"
proof (induction p w rule: create_dir_all.induct)
  case (1 p w)
  obtain r w1 where m: "sys_mkdir p w = (r, w1)" by (cases "sys_mkdir p w")
  then have s1: "settled w w1" using sys_mkdir_settled [of w p] by simp
  show ?case
  proof (cases "p = []")
    case True
    then show ?thesis by (simp add: create_dir_all.simps settled_refl)
  next
    case False
    show ?thesis
    proof (cases "\<exists>parent. r = Inl NotFound \<and> path_parent p = Some parent")
      case True
      then obtain parent where r: "r = Inl NotFound" and pp: "path_parent p = Some parent" by blast
      from m r have m': "sys_mkdir p w = (Inl NotFound, w1)" by simp
      have ih: "settled w1 (snd (create_dir_all parent w1))"
        using "1.IH" [OF False m' [symmetric] refl _ pp] by simp
      obtain r2 w2 where c: "create_dir_all parent w1 = (r2, w2)" by (cases "create_dir_all parent w1")
      obtain r3 w3 where m3: "sys_mkdir p w2 = (r3, w3)" by (cases "sys_mkdir p w2")
      have s2: "settled w w2" using settled_trans [OF s1] ih c by simp
      then have s3: "settled w w3" using settled_trans [OF s2] sys_mkdir_settled [of w2 p] m3 by simp
      have d3: "dir_at w3 p" if "r3 = Inr ()" using sys_mkdir_dir [of p w2 w3] m3 that by simp
      show ?thesis using False m r pp c s2 s3 d3 m3 path_is_dir_at [of w3 p]
        by (auto simp: create_dir_all.simps [of p w] split: sum.splits if_splits)
    next
      case no: False
      have d1: "dir_at w1 p" if "r = Inr ()" using sys_mkdir_dir [of p w w1] m that by simp
      show ?thesis using False m no s1 d1 path_is_dir_at [of w1 p]
        by (auto simp: create_dir_all.simps [of p w] split: sum.splits option.splits if_splits)
    qed
  qed
qed

lemma entry_cwd [simp]: "entry (w\<lparr>w_cwd := d\<rparr>) = entry w"
  by (rule ext) (simp add: entry_def)

lemma entry_at_cwd [simp]: "entry_at (w\<lparr>w_cwd := d\<rparr>) = entry_at w"
  by (rule ext) (simp add: entry_at_def)

lemma leads_to_in_dir: "leads_to (w\<lparr>w_cwd := d\<rparr>) rel q n \<longleftrightarrow> rel \<noteq> [] \<and> leads_from w d rel q n"
  by (simp add: leads_to_iff leads_from_def resolve_def)

lemma posix_create_spec: "create_spec posix_ext"
proof -
  let ?mk = "\<lambda>d rel. in_dir d (create_dir_all rel)"
  have dir: "\<exists>q n. leads_from w' d rel q n \<and> nd_kind n = KDir"
    if c: "?mk d rel w = (Inr (), w')" and rel: "rel \<noteq> []" for w w' d rel
  proof -
    obtain w1 where w1: "create_dir_all rel (w\<lparr>w_cwd := d\<rparr>) = (Inr (), w1)" "w' = w1\<lparr>w_cwd := w_cwd w\<rparr>"
      using c by (auto simp: in_dir_def split: prod.splits)
    with create_dir_all_ok [of "w\<lparr>w_cwd := d\<rparr>" rel] rel
    have "dir_at w1 rel" and "w_cwd w1 = d" by (auto simp: settled_def)
    then have "\<exists>q n. leads_from w1 d rel q n \<and> nd_kind n = KDir"
      using leads_to_in_dir [of d w1 rel] unfolding dir_at_def by force
    then show ?thesis using w1(2) by (simp add: leads_from_def)
  qed
  have keep: "leads_to (snd (?mk d rel w)) p q n" if "leads_to w p q n" for w d rel p q n
  proof -
    let ?w = "w\<lparr>w_cwd := d\<rparr>"
    have s: "settled ?w (snd (create_dir_all rel ?w))" using create_dir_all_ok [of ?w rel] by simp
    from that have p: "p \<noteq> []" "walk (entry w) True 40 (w_cwd w) p = Inr q" "entry_at w q = Some n"
      by (auto simp: leads_to_iff resolve_def split: if_splits)
    then have "walk (entry (snd (create_dir_all rel ?w))) True 40 (w_cwd w) p = Inr q \<and>
        entry_at (snd (create_dir_all rel ?w)) q = Some n"
      using s by (auto simp: settled_def)
    with p show ?thesis
      by (auto simp: leads_to_iff resolve_def in_dir_def split: prod.splits)
  qed
  show ?thesis
    unfolding create_spec_def
  proof (intro conjI allI impI)
    fix p w d q0 n0 rel w'
    assume o: "cap_open posix_ext p w = Inr d" "leads_to w p q0 n0" and r: "rel \<noteq> []" and
      c: "cap_create_dir_all posix_ext d rel w = (Inr (), w')"
    from o have "d = q0" by (auto simp: posix_ext_def dest: posix_open_is)
    with dir c r show "\<exists>q n. leads_from w' q0 rel q n \<and> nd_kind n = KDir" by (simp add: posix_ext_def)
  next
    fix d rel w p q n
    assume "leads_to w p q n"
    with keep show "leads_to (snd (cap_create_dir_all posix_ext d rel w)) p q n" by (simp add: posix_ext_def)
  next
    fix p w d q0 n0 rel n
    assume o: "cap_open posix_ext p w = Inr d" "leads_to w p q0 n0" and
      c: "cap_metadata posix_ext d rel w = Inr n"
    from o have "d = q0" by (auto simp: posix_ext_def dest: posix_open_is)
    with c show "\<exists>q. leads_from w q0 rel q n" by (auto simp: posix_ext_def try_res_Inr posix_node_is)
  next
    fix p w d q0 n0 n
    assume o: "cap_open posix_ext p w = Inr d" "leads_to w p q0 n0" and
      c: "cap_dir_metadata posix_ext d w = Inr n"
    from o have "d = q0" by (auto simp: posix_ext_def dest: posix_open_is)
    with c leads_to_entry_at [OF o(2)] show "n = n0" by (simp add: posix_ext_def)
  qed
qed

section \<open>Properties\<close>

lemma found_ancestor:
  assumes "find_existing_ancestor X p w = Inr (d, rel)"
  shows "\<exists>pre a post. ancestors p = pre @ a # post \<and> p = a @ rel \<and>
         cap_open X (ancestor_fs_path a) w = Inr d \<and>
         (\<forall>b\<in>set pre. cap_open X (ancestor_fs_path b) w \<in> {Inl NotFound, Inl NotADirectory})"
proof -
  from assms have "ancestor_loop X p (ancestors p) None w = Inr (d, rel)"
    by (simp add: find_existing_ancestor_def)
  from ancestor_loop_ok [OF this] obtain pre a post where
    a: "ancestors p = pre @ a # post" "cap_open X (ancestor_fs_path a) w = Inr d" "strip_prefix p a = Some rel"
      "\<forall>b\<in>set pre. cap_open X (ancestor_fs_path b) w \<in> {Inl NotFound, Inl NotADirectory}" by blast
  moreover from a(3) have "p = a @ rel"
    by (auto simp: strip_prefix_def prefix_def split: if_splits)
  ultimately show ?thesis by blast
qed

text \<open>
  \<open>find_existing_ancestor\<close> opens the nearest ancestor that is a directory: every longer ancestor
  was missing or not a directory, the relative rest completes the path, and the \<open>strip_prefix\<close>
  error is impossible. Any other error of an ancestor is reported and stops the search.
\<close>

theorem find_existing_ancestor_nearest:
  assumes "find_existing_ancestor X p w = r"
  shows "(\<forall>d rel. r = Inr (d, rel) \<longrightarrow>
      (\<exists>pre a post. ancestors p = pre @ a # post \<and> p = a @ rel \<and>
         cap_open X (ancestor_fs_path a) w = Inr d \<and>
         (\<forall>b\<in>set pre. cap_open X (ancestor_fs_path b) w \<in> {Inl NotFound, Inl NotADirectory}))) \<and>
    (\<forall>e. r = Inl e \<longrightarrow> (\<exists>k. report_root e = IoErr k) \<and>
      ((\<exists>a\<in>set (ancestors p). \<exists>k. cap_open X (ancestor_fs_path a) w = Inl k \<and>
          k \<noteq> NotFound \<and> k \<noteq> NotADirectory \<and> chain_has_io k e) \<or>
       (\<forall>a\<in>set (ancestors p). cap_open X (ancestor_fs_path a) w \<in> {Inl NotFound, Inl NotADirectory})))"
proof (intro conjI allI impI)
  fix d rel assume "r = Inr (d, rel)"
  with assms have "find_existing_ancestor X p w = Inr (d, rel)" by simp
  from found_ancestor [OF this]
  show "\<exists>pre a post. ancestors p = pre @ a # post \<and> p = a @ rel \<and>
         cap_open X (ancestor_fs_path a) w = Inr d \<and>
         (\<forall>b\<in>set pre. cap_open X (ancestor_fs_path b) w \<in> {Inl NotFound, Inl NotADirectory})" .
next
  have err: "(\<exists>k. report_root e = IoErr k) \<and>
      ((\<exists>a\<in>set as. \<exists>k. cap_open X (ancestor_fs_path a) w = Inl k \<and>
          k \<noteq> NotFound \<and> k \<noteq> NotADirectory \<and> chain_has_io k e) \<or>
       (\<forall>a\<in>set as. cap_open X (ancestor_fs_path a) w \<in> {Inl NotFound, Inl NotADirectory}))"
    if "ancestor_loop X p as l w = Inl e" "set as \<subseteq> set (ancestors p)" for as l e
    using that
  proof (induction X p as l w rule: ancestor_loop.induct)
    case (2 X p a rest l w)
    from "2.prems"(2) obtain rel where rel: "strip_prefix p a = Some rel"
      using strip_prefix_ancestor [of a p] by auto
    show ?case
    proof (cases "cap_open X (ancestor_fs_path a) w")
      case (Inl k)
      show ?thesis
      proof (cases "k = NotFound \<or> k = NotADirectory")
        case True
        with 2 Inl show ?thesis by auto
      next
        case False
        with 2 Inl show ?thesis by auto
      qed
    qed (use 2 rel in simp)
  qed auto
  fix e assume "r = Inl e"
  with assms have "ancestor_loop X p (ancestors p) None w = Inl e" by (simp add: find_existing_ancestor_def)
  from err [OF this] show "\<exists>k. report_root e = IoErr k" and
    "(\<exists>a\<in>set (ancestors p). \<exists>k. cap_open X (ancestor_fs_path a) w = Inl k \<and>
          k \<noteq> NotFound \<and> k \<noteq> NotADirectory \<and> chain_has_io k e) \<or>
       (\<forall>a\<in>set (ancestors p). cap_open X (ancestor_fs_path a) w \<in> {Inl NotFound, Inl NotADirectory})"
    by simp_all
qed

definition fs_demo :: world where
  "fs_demo =
     \<lparr>w_fs = [([RootDir, Normal ''v''], \<lparr>nd_kind = KDir, nd_mode = 493, nd_uid = 0, nd_gid = 0\<rparr>)],
      w_cwd = [RootDir], w_env = Map.empty, w_euid = 0, w_faults = (\<lambda>_. None), w_residue = (\<lambda>_. [])\<rparr>"

lemma fs_demo_ancestor:
  "find_existing_ancestor posix_ext [RootDir, Normal ''v'', Normal ''a'', Normal ''b''] fs_demo
     = Inr ([RootDir, Normal ''v''], [Normal ''a'', Normal ''b''])"
  by (simp add: find_existing_ancestor_def ancestors.simps path_parent_def ancestor_fs_path_def posix_ext_def
      posix_open_def node_of_def resolve_def entry_def entry_at_def strip_prefix_def fs_demo_def)

theorem find_existing_ancestor_nearest_witness:
  "\<exists>a. [RootDir, Normal ''v'', Normal ''a'', Normal ''b''] = a @ [Normal ''a'', Normal ''b''] \<and>
     cap_open posix_ext (ancestor_fs_path a) fs_demo = Inr [RootDir, Normal ''v'']"
  using find_existing_ancestor_nearest [OF fs_demo_ancestor] by blast

definition is_dir_now :: "world \<Rightarrow> path \<Rightarrow> bool" where
  "is_dir_now w p \<longleftrightarrow> (\<exists>a rel q0 n0 q n. p = a @ rel \<and> leads_to w (ancestor_fs_path a) q0 n0 \<and>
     leads_from w q0 rel q n \<and> nd_kind n = KDir)"

lemma is_dir_nowI:
  "p = a @ rel \<Longrightarrow> leads_to w (ancestor_fs_path a) q0 n0 \<Longrightarrow> leads_from w q0 rel q n \<Longrightarrow> nd_kind n = KDir \<Longrightarrow>
     is_dir_now w p"
  unfolding is_dir_now_def by blast

lemma opened_dir:
  assumes "open_spec X" and "cap_open X p w = Inr d"
  obtains q n where "leads_to w p q n" "nd_kind n = KDir"
  using assms unfolding open_spec_def dir_at_def by blast

lemma create_spec_dir:
  "create_spec X \<Longrightarrow> cap_open X p w = Inr d \<Longrightarrow> leads_to w p q0 n0 \<Longrightarrow> rel \<noteq> [] \<Longrightarrow>
     cap_create_dir_all X d rel w = (Inr (), w') \<Longrightarrow> \<exists>q n. leads_from w' q0 rel q n \<and> nd_kind n = KDir"
  by (drule create_spec_def [THEN iffD1, THEN conjunct1]) metis

lemma create_spec_keeps:
  "create_spec X \<Longrightarrow> leads_to w r q n \<Longrightarrow> leads_to (snd (cap_create_dir_all X d rel w)) r q n"
  by (drule create_spec_def [THEN iffD1, THEN conjunct2, THEN conjunct1]) metis

lemma create_spec_metadata:
  "create_spec X \<Longrightarrow> cap_open X p w = Inr d \<Longrightarrow> leads_to w p q0 n0 \<Longrightarrow> cap_metadata X d rel w = Inr n \<Longrightarrow>
     \<exists>q. leads_from w q0 rel q n"
  by (drule create_spec_def [THEN iffD1, THEN conjunct2, THEN conjunct2, THEN conjunct1]) metis

lemma create_spec_dir_metadata:
  "create_spec X \<Longrightarrow> cap_open X p w = Inr d \<Longrightarrow> leads_to w p q0 n0 \<Longrightarrow> cap_dir_metadata X d w = Inr n \<Longrightarrow>
     n = n0"
  by (drule create_spec_def [THEN iffD1, THEN conjunct2, THEN conjunct2, THEN conjunct2]) metis

lemma snd_ensure_inner:
  "snd (ensure_dir_exists_inner X p d rel w) = (if rel = [] then w else snd (cap_create_dir_all X d rel w))"
  by (cases "cap_create_dir_all X d rel w"; cases "fst (cap_create_dir_all X d rel w)")
     (simp_all add: ensure_dir_exists_inner_def)

lemma ensure_dir_exists_found:
  "find_existing_ancestor X p w = Inr (d, rel) \<Longrightarrow>
     ensure_dir_exists X p w = ensure_dir_exists_inner X p d rel w"
  by (simp add: ensure_dir_exists_def)

lemma existing_path_is_dir_now:
  assumes X: "open_spec X" "create_spec X" and r: "ensure_existing_path_is_dir X p w = Inr ()"
  shows "is_dir_now w p"
proof -
  obtain d rel where a: "ambient_dir_and_path X p w = Inr (d, rel)"
    using r by (auto simp: ensure_existing_path_is_dir_def try_res_Inr)
  obtain n where k: "nd_kind n = KDir" and
    m: "(if rel = [] then cap_dir_metadata X d w else cap_metadata X d rel w) = Inr n"
    using r a by (cases "if rel = [] then cap_dir_metadata X d w else cap_metadata X d rel w")
      (auto simp: ensure_existing_path_is_dir_def handle_existing_metadata_def split: if_splits)
  obtain a where o: "cap_open X (ancestor_fs_path a) w = Inr d" and p: "p = a @ rel"
    using ambient_dir_and_path_ok [OF a] by blast
  obtain q0 n0 where l: "leads_to w (ancestor_fs_path a) q0 n0" "nd_kind n0 = KDir"
    using opened_dir [OF X(1) o] .
  have "\<exists>q. leads_from w q0 rel q n"
  proof (cases "rel = []")
    case True
    with m have "cap_dir_metadata X d w = Inr n" by simp
    then have "n = n0" by (rule create_spec_dir_metadata [OF X(2) o l(1)])
    with True leads_to_entry_at [OF l(1)] show ?thesis by (simp add: leads_from_def)
  next
    case False
    with m have "cap_metadata X d rel w = Inr n" by simp
    then show ?thesis by (rule create_spec_metadata [OF X(2) o l(1)])
  qed
  with p l(1) k show ?thesis unfolding is_dir_now_def by blast
qed

text \<open>
  When \<open>ensure_dir_exists\<close> succeeds there is a directory at the path: it was opened, created
  below the nearest existing ancestor, or found by the check after \<open>AlreadyExists\<close>. Whatever any
  other path led to before, it still leads to.
\<close>

theorem ensure_dir_exists_makes_dir:
  assumes X: "open_spec X" "create_spec X"
  shows "(fst (ensure_dir_exists X p w) = Inr () \<longrightarrow> is_dir_now (snd (ensure_dir_exists X p w)) p) \<and>
    (leads_to w r q n \<longrightarrow> leads_to (snd (ensure_dir_exists X p w)) r q n)"
proof -
  have keep: "leads_to w r q n \<Longrightarrow> leads_to (snd (cap_create_dir_all X d rel w)) r q n" for d rel r q n
    by (rule create_spec_keeps [OF X(2)])
  have "leads_to (snd (ensure_dir_exists X p w)) r q n" if "leads_to w r q n"
  proof (cases "find_existing_ancestor X p w")
    case (Inl e)
    with that show ?thesis by (simp add: ensure_dir_exists_def)
  next
    case (Inr dr)
    obtain d rel where "dr = (d, rel)" by (cases dr)
    with Inr have "ensure_dir_exists X p w = ensure_dir_exists_inner X p d rel w"
      by (simp add: ensure_dir_exists_found)
    with that keep [OF that, of d rel] show ?thesis by (simp add: snd_ensure_inner)
  qed
  moreover have "is_dir_now (snd (ensure_dir_exists X p w)) p" if ok: "fst (ensure_dir_exists X p w) = Inr ()"
  proof -
    obtain d rel where f: "find_existing_ancestor X p w = Inr (d, rel)"
      using ok by (cases "find_existing_ancestor X p w") (auto simp only: ensure_dir_exists_def try_st_simps fst_conv)
    from f obtain a where o: "cap_open X (ancestor_fs_path a) w = Inr d" and p: "p = a @ rel"
      using found_ancestor [OF f] by blast
    obtain q0 n0 where l: "leads_to w (ancestor_fs_path a) q0 n0" "nd_kind n0 = KDir"
      using opened_dir [OF X(1) o] .
    show ?thesis
    proof (cases "rel = []")
      case True
      with f have "snd (ensure_dir_exists X p w) = w"
        by (simp add: ensure_dir_exists_def ensure_dir_exists_inner_def)
      moreover have "leads_from w q0 [] q0 n0" using leads_to_entry_at [OF l(1)] by (simp add: leads_from_def)
      ultimately show ?thesis using is_dir_nowI [OF p l(1) _ l(2), of q0] True by simp
    next
      case False
      obtain cr w1 where c: "cap_create_dir_all X d rel w = (cr, w1)" by (cases "cap_create_dir_all X d rel w")
      have s: "snd (ensure_dir_exists X p w) = w1"
        using c False by (simp add: ensure_dir_exists_found [OF f] snd_ensure_inner)
      show ?thesis
      proof (cases cr)
        case (Inr u)
        with c have "cap_create_dir_all X d rel w = (Inr (), w1)" by simp
        then obtain q n where "leads_from w1 q0 rel q n" "nd_kind n = KDir"
          using create_spec_dir [OF X(2) o l(1) False] by blast
        moreover have "leads_to w1 (ancestor_fs_path a) q0 n0" using keep [OF l(1), of d rel] c by simp
        ultimately show ?thesis using is_dir_nowI [OF p, of w1 q0 n0 q n] s by simp
      next
        case (Inl k)
        with ok c False have "handle_dir_creation_error X p k w1 = Inr ()"
          by (simp add: ensure_dir_exists_found [OF f] ensure_dir_exists_inner_def)
        then have "ensure_existing_path_is_dir X p w1 = Inr ()"
          by (simp add: handle_dir_creation_error_def split: if_splits)
        with existing_path_is_dir_now [OF X] s show ?thesis by simp
      qed
    qed
  qed
  ultimately show ?thesis by blast
qed

theorem ensure_dir_exists_makes_dir_witness:
  "is_dir_now (snd (ensure_dir_exists posix_ext [RootDir, Normal ''v'', Normal ''a'', Normal ''b''] fs_demo))
     [RootDir, Normal ''v'', Normal ''a'', Normal ''b'']"
proof -
  have "fst (ensure_dir_exists posix_ext [RootDir, Normal ''v'', Normal ''a'', Normal ''b''] fs_demo) = Inr ()"
    unfolding ensure_dir_exists_def fs_demo_ancestor
    by (simp add: ensure_dir_exists_inner_def posix_ext_def in_dir_def create_dir_all.simps
        sys_mkdir_def guarded_def resolve_def path_parent_def entry_at_def entry_def put_entry_def new_node_def
        fs_demo_def)
  then show ?thesis
    using ensure_dir_exists_makes_dir [OF posix_open_spec posix_create_spec] by blast
qed

end
