(* ===== verification/Privileges.thy ===== *)
theory Privileges
  imports Fs_Helpers
begin

text \<open>
  Handing directories to the unprivileged user, \<open>src/src/privileges.rs\<close>: creating a directory with
  an owner and a mode, the recursive change of owner of a tree (a worklist; the model takes fuel and
  a lemma gives enough of it), the uid of \<open>nobody\<close> and the default directories of a uid. The
  \<open>chown\<close>, \<open>cap_std\<close> and account calls are those of \<open>ext\<close>.

  The lemmas show that a directory made for a user ends up with that owner and mode, that the walk
  over a tree ends and leaves every file and directory in it to the user, and that, because \<open>chown\<close>
  follows links, it also gives away whatever the links of the tree point to.
\<close>

section \<open>Operations\<close>

type_synonym 'a priv_step = "(privilege_error + 'a) \<times> world"

definition chown_entry :: "'h ext \<Rightarrow> path \<Rightarrow> user \<Rightarrow> world \<Rightarrow> unit step" where
  "chown_entry X p u w = context_io_st ''chown'' (nix_chown X p (us_uid u) (us_gid u) w)"

definition ensure_dir_for_user_inner :: "'h ext \<Rightarrow> path \<Rightarrow> user \<Rightarrow> nat \<Rightarrow> world \<Rightarrow> unit step" where
  "ensure_dir_for_user_inner X p u mode w =
     try_st (ensure_dir_exists X p w) (\<lambda>_ w1.
     try_st (chown_entry X p u w1) (\<lambda>_ w2.
     set_permissions X p mode w2))"

definition ensure_dir_for_user :: "'h ext \<Rightarrow> path \<Rightarrow> user \<Rightarrow> nat \<Rightarrow> world \<Rightarrow> unit priv_step" where
  "ensure_dir_for_user X p u mode w = map_err_st PrivilegeError (ensure_dir_for_user_inner X p u mode w)"

text \<open>Modes 0755 and 0700.\<close>

definition make_dir_accessible :: "'h ext \<Rightarrow> path \<Rightarrow> user \<Rightarrow> world \<Rightarrow> unit priv_step" where
  "make_dir_accessible X p u = ensure_dir_for_user X p u 493"

definition make_data_dir_private :: "'h ext \<Rightarrow> path \<Rightarrow> user \<Rightarrow> world \<Rightarrow> unit priv_step" where
  "make_data_dir_private X p u = ensure_dir_for_user X p u 448"

definition open_directory_if_exists :: "'h ext \<Rightarrow> path \<Rightarrow> world \<Rightarrow> (privilege_error + 'h) option" where
  "open_directory_if_exists X p w =
     (case cap_open X p w of
        Inr d \<Rightarrow> Some (Inr d)
      | Inl k \<Rightarrow> if k = NotFound then None else Some (Inl (PrivilegeError (Ctx ''open directory'' (IoErr k)))))"

definition resolve_entry_path :: "path \<Rightarrow> string \<Rightarrow> report + path" where
  "resolve_entry_path p name =
     (if utf8_valid name then Inr (p @ [Normal name]) else Inl (Msg ''non-UTF-8 path''))"

text \<open>The loop over the entries of one directory; the head of \<open>stack\<close> is the top of the \<open>Vec\<close>.\<close>

fun own_entries ::
  "'h ext \<Rightarrow> user \<Rightarrow> path \<Rightarrow> (io_kind + (string \<times> bool)) list \<Rightarrow> path list \<Rightarrow> nat \<Rightarrow> world \<Rightarrow>
     (path list \<times> nat) step" where
  "own_entries X u p [] stack updated w = (Inr (stack, updated), w)"
| "own_entries X u p (e # es) stack updated w =
     try_st (context_io ''iterate'' e, w) (\<lambda>(name, is_directory) w.
     try_st (resolve_entry_path p name, w) (\<lambda>entry_path w.
     try_st (chown_entry X entry_path u w) (\<lambda>_ w.
       own_entries X u p es (if is_directory then entry_path # stack else stack) (updated + 1) w)))"

fun own_tree_loop :: "'h ext \<Rightarrow> user \<Rightarrow> nat \<Rightarrow> path list \<Rightarrow> nat \<Rightarrow> world \<Rightarrow> (nat priv_step) option" where
  "own_tree_loop X u fuel [] updated w = Some (Inr updated, w)"
| "own_tree_loop X u 0 (p # stack) updated w = None"
| "own_tree_loop X u (Suc fuel) (p # stack) updated w =
     (case open_directory_if_exists X p w of
        None \<Rightarrow> own_tree_loop X u fuel stack updated w
      | Some (Inl e) \<Rightarrow> Some (Inl e, w)
      | Some (Inr dir) \<Rightarrow>
          (case cap_entries X dir w of
             Inl k \<Rightarrow> Some (Inl (PrivilegeError (Ctx ''read_dir'' (IoErr k))), w)
           | Inr es \<Rightarrow>
               (case own_entries X u p es stack updated w of
                  (Inl e, w1) \<Rightarrow> Some (Inl (PrivilegeError e), w1)
                | (Inr (stack', updated'), w1) \<Rightarrow> own_tree_loop X u fuel stack' updated' w1)))"

definition ensure_tree_owned_by_user :: "'h ext \<Rightarrow> nat \<Rightarrow> path \<Rightarrow> user \<Rightarrow> world \<Rightarrow> (nat priv_step) option" where
  "ensure_tree_owned_by_user X fuel root u w = own_tree_loop X u fuel [root] 0 w"

definition nobody_uid :: "'h ext \<Rightarrow> world \<Rightarrow> nat" where
  "nobody_uid X w =
     (case nix_user_from_name X ''nobody'' w of
        Inl _ \<Rightarrow> 65534
      | Inr None \<Rightarrow> 65534
      | Inr (Some user) \<Rightarrow> us_uid user)"

definition default_paths_for :: "nat \<Rightarrow> pathbuf \<times> pathbuf" where
  "default_paths_for uid =
     (let base = ''/var/tmp/pg-embed-'' @ show_nat uid
      in (join_path base ''install'', join_path base ''data''))"

section \<open>A directory made for a user\<close>

lemma walk_split:
  "walk look True links cur a = Inr q0 \<Longrightarrow> r \<noteq> [] \<Longrightarrow>
     (\<And>nd. look q0 = Some nd \<Longrightarrow> nd_kind nd = KDir) \<Longrightarrow> (look q0 = None \<Longrightarrow> q0 = [RootDir]) \<Longrightarrow>
     \<exists>links' \<le> links. walk look f links cur (a @ r) = walk look f links' q0 r"
proof (induction look "True" links cur a rule: walk.induct)
  case (5 look links cur n rest)
  let ?here = "cur @ [Normal n]"
  have root: "?here \<noteq> [RootDir]" by (cases cur) auto
  show ?case
  proof (cases "look ?here")
    case None
    with 5 root show ?thesis by (auto split: if_splits)
  next
    case (Some nd)
    show ?thesis
    proof (cases "nd_kind nd")
      case KDir
      with Some "5.prems" "5.hyps"(1) [OF refl Some KDir] show ?thesis by simp
    next
      case (KFile s)
      with Some "5.prems" show ?thesis by (auto split: if_splits)
    next
      case (KLink target)
      with Some "5.prems"(1) obtain k where k: "links = Suc k" "walk look True k cur (target @ rest) = Inr q0"
        by (auto split: nat.splits)
      with "5.hyps"(2) [OF refl Some KLink _ k(1)] "5.prems" obtain links' where
        "links' \<le> k" "walk look f k cur ((target @ rest) @ r) = walk look f links' q0 r" by auto
      with Some KLink k(1) "5.prems"(2) show ?thesis
        by (intro exI [of _ links']) auto
    qed
  qed
qed auto

lemma walk_more_links:
  "walk look f links cur p = Inr q \<Longrightarrow> links \<le> links' \<Longrightarrow> walk look f links' cur p = Inr q"
proof (induction look f links cur p arbitrary: links' rule: walk.induct)
  case (5 look f links cur n rest)
  let ?here = "cur @ [Normal n]"
  show ?case
  proof (cases "look ?here")
    case (Some nd)
    show ?thesis
    proof (cases "nd_kind nd")
      case KDir
      with Some 5 show ?thesis by simp
    next
      case (KLink target)
      show ?thesis
      proof (cases "rest = [] \<and> \<not> f")
        case False
        with Some KLink "5.prems"(1) obtain k where k: "links = Suc k" "walk look f k cur (target @ rest) = Inr q"
          by (auto split: nat.splits)
        with "5.prems"(2) obtain k' where k': "links' = Suc k'" "k \<le> k'" by (cases links') auto
        from "5.IH"(2) [OF refl Some KLink False k(1) k(2) k'(2)] Some KLink False k'(1)
        show ?thesis by auto
      qed (use Some KLink "5.prems" in auto)
    qed (use Some "5.prems" in auto)
  qed (use "5.prems" in auto)
qed simp_all

text \<open>From the directory its parent leads to, the rest of a path leads where the whole path leads.\<close>

lemma leads_from_unique:
  assumes whole: "leads_to w (a @ rel) q n" and dir: "leads_to w (ancestor_fs_path a) q0 n0" "nd_kind n0 = KDir"
    and rest: "leads_from w q0 rel q' n'" "rel \<noteq> []"
  shows "q' = q \<and> n' = n"
proof -
  have q: "walk (entry w) True 40 (w_cwd w) (a @ rel) = Inr q" "entry_at w q = Some n"
    using whole by (auto simp: leads_to_iff resolve_def split: if_splits)
  have q': "walk (entry w) True 40 q0 rel = Inr q'" "entry_at w q' = Some n'"
    using rest by (simp_all add: leads_from_def)
  have "walk (entry w) True 40 q0 rel = Inr q"
  proof (cases "a = []")
    case True
    with dir have "q0 = w_cwd w" by (simp add: ancestor_fs_path_def leads_to_iff resolve_def)
    with q True show ?thesis by simp
  next
    case False
    with dir have q0: "walk (entry w) True 40 (w_cwd w) a = Inr q0" "entry_at w q0 = Some n0"
      by (simp_all add: ancestor_fs_path_def leads_to_iff resolve_def)
    then have k: "\<And>nd. entry w q0 = Some nd \<Longrightarrow> nd_kind nd = KDir" "entry w q0 = None \<Longrightarrow> q0 = [RootDir]"
      using dir(2) by (auto simp: entry_at_def split: if_splits)
    from walk_split [OF q0(1) rest(2) k, of True] q(1) obtain l where
      "l \<le> 40" "walk (entry w) True l q0 rel = Inr q" by auto
    then show ?thesis using walk_more_links by blast
  qed
  with q q' show ?thesis by simp
qed

lemma set_permissions_effect:
  assumes X: "open_spec X" "chmod_spec X" and l: "leads_to w p q n" and p: "p \<noteq> []" "p \<noteq> [RootDir]" "wf_path p"
    and ok: "set_permissions X p m w = (Inr (), w')"
  shows "w' = put_entry q (n\<lparr>nd_mode := m\<rparr>) w"
proof -
  from ok obtain d rel where a: "ambient_dir_and_path X p w = Inr (d, rel)" and
    i: "set_permissions_inner X m d rel w = (Inr (), w')"
    by (auto simp: set_permissions_def try_st_Inr)
  obtain a where o: "cap_open X (ancestor_fs_path a) w = Inr d" and pa: "p = a @ rel" and
    e: "rel = [] \<longleftrightarrow> p = [] \<or> (is_absolute p \<and> path_parent p = None)"
    using ambient_dir_and_path_ok [OF a] by blast
  have "rel \<noteq> []"
  proof
    assume "rel = []"
    with e p(1) have "is_absolute p" "path_parent p = None" by auto
    then have "is_dangerous_cleanup_path p" by (simp add: is_dangerous_cleanup_path_def)
    then have "is_empty_or_root p" using dangerous_imp_empty_or_root [OF p(3)] by simp
    with \<open>is_absolute p\<close> p show False by (auto simp: is_empty_or_root_iff is_absolute_def)
  qed
  with i have c: "cap_set_permissions X d rel m w = (Inr (), w')" by (simp add: set_permissions_inner_def)
  obtain q0 n0 where q0: "leads_to w (ancestor_fs_path a) q0 n0" "nd_kind n0 = KDir"
    using opened_dir [OF X(1) o] .
  from X(2) o q0(1) c obtain q' n' where "leads_from w q0 rel q' n'" "w' = put_entry q' (n'\<lparr>nd_mode := m\<rparr>) w"
    unfolding chmod_spec_def by metis
  with leads_from_unique [OF l [unfolded pa] q0 _ \<open>rel \<noteq> []\<close>] show ?thesis by blast
qed

section \<open>Changing owners keeps the tree\<close>

text \<open>Two worlds with the same entries of the same kinds: every path leads to the same place.\<close>

definition same_tree :: "world \<Rightarrow> world \<Rightarrow> bool" where
  "same_tree w w' \<longleftrightarrow> w_cwd w' = w_cwd w \<and>
     (\<forall>r. map_option nd_kind (entry_at w' r) = map_option nd_kind (entry_at w r))"

lemma same_tree_refl: "same_tree w w"
  by (simp add: same_tree_def)

lemma same_tree_trans: "same_tree a b \<Longrightarrow> same_tree b c \<Longrightarrow> same_tree a c"
  by (simp add: same_tree_def)

lemma same_tree_put: "entry_at w q = Some n \<Longrightarrow> nd_kind n' = nd_kind n \<Longrightarrow> same_tree w (put_entry q n' w)"
  by (simp add: same_tree_def)

lemma same_tree_leads:
  assumes s: "same_tree w w'" and l: "leads_to w p q n"
  obtains n' where "leads_to w' p q n'" "nd_kind n' = nd_kind n"
proof -
  have k: "map_option nd_kind (entry_at w' r) = map_option nd_kind (entry_at w r)" for r
    using s by (simp add: same_tree_def)
  have "walk (entry w') True 40 (w_cwd w) p = walk (entry w) True 40 (w_cwd w) p"
    by (rule walk_root) (metis entry_at_def k)
  with l s have r: "resolve True w' p = Inr q" by (simp add: leads_to_iff resolve_def same_tree_def split: if_splits)
  from l k [of q] obtain n' where "entry_at w' q = Some n'" "nd_kind n' = nd_kind n"
    by (auto simp: leads_to_iff)
  with r that show ?thesis by (simp add: leads_to_iff)
qed

definition owned :: "user \<Rightarrow> world \<Rightarrow> path \<Rightarrow> bool" where
  "owned u w r \<longleftrightarrow> (\<exists>n. entry_at w r = Some n \<and> nd_uid n = us_uid u \<and> nd_gid n = us_gid u)"

lemma chown_entry_ok:
  assumes "chown_spec X" and "chown_entry X p u w = (Inr (), w')"
  obtains q n where "leads_to w p q n"
    "w' = put_entry q (n\<lparr>nd_uid := us_uid u, nd_gid := us_gid u\<rparr>) w"
    "same_tree w w'" "owned u w' q" "\<And>r. owned u w r \<Longrightarrow> owned u w' r"
proof -
  from assms(2) have "nix_chown X p (us_uid u) (us_gid u) w = (Inr (), w')" by (simp add: chown_entry_def)
  with assms(1) obtain q n where l: "leads_to w p q n" and
    w': "w' = put_entry q (n\<lparr>nd_uid := us_uid u, nd_gid := us_gid u\<rparr>) w"
    unfolding chown_spec_def by blast
  note e = leads_to_entry_at [OF l]
  show ?thesis
  proof (rule that [OF l w'])
    show "same_tree w w'" unfolding w' using e by (rule same_tree_put) simp
    show "owned u w' q" by (simp add: owned_def w')
    show "owned u w r \<Longrightarrow> owned u w' r" for r by (auto simp: owned_def w')
  qed
qed

text \<open>
  A directory made for a user exists, belongs to the user and has the mode asked for:
  \<open>make_data_dir_private\<close> leaves a data directory that only its owner can enter.
\<close>

theorem ensure_dir_for_user_owns:
  assumes X: "open_spec X" "chown_spec X" "chmod_spec X"
    and p: "p \<noteq> []" "p \<noteq> [RootDir]" "wf_path p"
    and ok: "ensure_dir_for_user X p u mode w = (Inr (), w')"
  shows "\<exists>q n. leads_to w' p q n \<and> nd_uid n = us_uid u \<and> nd_gid n = us_gid u \<and> nd_mode n = mode"
proof -
  from ok obtain w1 w2 where 1: "ensure_dir_exists X p w = (Inr (), w1)" and
    2: "chown_entry X p u w1 = (Inr (), w2)" and 3: "set_permissions X p mode w2 = (Inr (), w')"
    by (auto simp: ensure_dir_for_user_def ensure_dir_for_user_inner_def try_st_Inr)
  from chown_entry_ok [OF X(2) 2] obtain q n where l: "leads_to w1 p q n" and
    w2: "w2 = put_entry q (n\<lparr>nd_uid := us_uid u, nd_gid := us_gid u\<rparr>) w1" by metis
  let ?n = "n\<lparr>nd_uid := us_uid u, nd_gid := us_gid u\<rparr>"
  have l2: "leads_to w2 p q ?n"
    unfolding w2 using l leads_to_put [OF leads_to_entry_at [OF l], of ?n p q ?n] by simp
  then have w': "w' = put_entry q (?n\<lparr>nd_mode := mode\<rparr>) w2"
    by (rule set_permissions_effect [OF X(1,3) _ p 3])
  have "leads_to w' p q (?n\<lparr>nd_mode := mode\<rparr>)"
    unfolding w' using l2 leads_to_put [OF leads_to_entry_at [OF l2], of "?n\<lparr>nd_mode := mode\<rparr>"] by simp
  then show ?thesis by (intro exI conjI) auto
qed

definition nobody :: user where
  "nobody = \<lparr>us_name = ''nobody'', us_uid = 65534, us_gid = 65534\<rparr>"

theorem ensure_dir_for_user_owns_witness:
  "\<exists>w' q n. make_data_dir_private posix_ext [RootDir, Normal ''v'', Normal ''d''] nobody fs_demo = (Inr (), w') \<and>
     leads_to w' [RootDir, Normal ''v'', Normal ''d''] q n \<and> nd_uid n = 65534 \<and> nd_mode n = 448"
proof -
  let ?p = "[RootDir, Normal ''v'', Normal ''d'']"
  have f: "find_existing_ancestor posix_ext ?p fs_demo = Inr ([RootDir, Normal ''v''], [Normal ''d''])"
    by (simp add: find_existing_ancestor_def ancestors.simps path_parent_def ancestor_fs_path_def posix_ext_def
        posix_open_def node_of_def resolve_def entry_def entry_at_def strip_prefix_def fs_demo_def)
  have "fst (ensure_dir_for_user posix_ext ?p nobody 448 fs_demo) = Inr ()"
    unfolding ensure_dir_for_user_def ensure_dir_for_user_inner_def ensure_dir_exists_def f
    by (simp add: ensure_dir_exists_inner_def posix_ext_def in_dir_def create_dir_all.simps
        sys_mkdir_def guarded_def resolve_def path_parent_def entry_at_def entry_def put_entry_def new_node_def
        fs_demo_def chown_entry_def posix_update_def node_of_def set_permissions_def ambient_dir_and_path_def
        is_absolute_def strip_prefix_def posix_open_def set_permissions_inner_def posix_node_def)
  then obtain w' where w': "ensure_dir_for_user posix_ext ?p nobody 448 fs_demo = (Inr (), w')"
    by (metis prod.collapse)
  have "wf_path ?p" by (simp add: wf_path_def)
  from ensure_dir_for_user_owns [OF posix_open_spec posix_chown_spec posix_chmod_spec _ _ this w'] w'
  show ?thesis by (simp add: make_data_dir_private_def nobody_def) blast
qed

section \<open>The tree of a directory\<close>

text \<open>Every entry has its parents, and they are directories.\<close>

definition fs_wf :: "world \<Rightarrow> bool" where
  "fs_wf w \<longleftrightarrow> entry_at w [] = None \<and> (\<forall>q c n. entry_at w (q @ [c]) = Some n \<longrightarrow> q @ [c] \<noteq> [RootDir] \<longrightarrow>
     (\<exists>m. c = Normal m) \<and> (\<exists>d. entry_at w q = Some d \<and> nd_kind d = KDir))"

lemma fs_wfD:
  "fs_wf w \<Longrightarrow> entry_at w (q @ [c]) = Some n \<Longrightarrow> q @ [c] \<noteq> [RootDir] \<Longrightarrow>
     (\<exists>m. c = Normal m) \<and> (\<exists>d. entry_at w q = Some d \<and> nd_kind d = KDir)"
  unfolding fs_wf_def by blast

lemma fs_wf_same_tree:
  assumes wf: "fs_wf w" and s: "same_tree w w'"
  shows "fs_wf w'"
  unfolding fs_wf_def
proof (intro conjI allI impI)
  show "entry_at w' [] = None"
    using wf s [unfolded same_tree_def, THEN conjunct2, rule_format, of "[]"] by (simp add: fs_wf_def)
next
  fix q c n
  assume e: "entry_at w' (q @ [c]) = Some n" and r: "q @ [c] \<noteq> [RootDir]"
  have k: "map_option nd_kind (entry_at w' r) = map_option nd_kind (entry_at w r)" for r
    using s by (simp add: same_tree_def)
  from k [of "q @ [c]"] e obtain n0 where "entry_at w (q @ [c]) = Some n0"
    by (cases "entry_at w (q @ [c])") simp_all
  from fs_wfD [OF wf this r] obtain m d where "c = Normal m" "entry_at w q = Some d" "nd_kind d = KDir"
    by blast
  with k [of q] show "\<exists>m. c = Normal m" "\<exists>d. entry_at w' q = Some d \<and> nd_kind d = KDir" by auto
qed

lemma fs_wf_below:
  assumes wf: "fs_wf w" and e: "entry_at w (q @ c # rest) = Some n" and q: "q \<noteq> []"
  shows "\<exists>m nd. c = Normal m \<and> entry_at w (q @ [c]) = Some nd \<and> (rest \<noteq> [] \<longrightarrow> nd_kind nd = KDir)"
  using e
proof (induction rest arbitrary: n rule: rev_induct)
  case Nil
  have "q @ [c] \<noteq> [RootDir]" using q by (cases q) auto
  from fs_wfD [OF wf Nil this] Nil show ?case by auto
next
  case (snoc x rest)
  have "(q @ c # rest) @ [x] \<noteq> [RootDir]" by (cases q) auto
  from fs_wfD [OF wf _ this, of n] snoc.prems
  obtain d where d: "entry_at w (q @ c # rest) = Some d" "nd_kind d = KDir" by auto
  from snoc.IH [OF d(1)] d show ?case by (cases "rest = []") auto
qed

text \<open>Below a directory a path leads to, an entry that is not a link is reached by its name.\<close>

lemma leads_to_child:
  assumes l: "leads_to w p q d" "nd_kind d = KDir" and e: "entry w (q @ [Normal m]) = Some n"
    and k: "\<not> is_link_kind (nd_kind n)"
  shows "leads_to w (p @ [Normal m]) (q @ [Normal m]) n"
proof -
  have p: "p \<noteq> []" "walk (entry w) True 40 (w_cwd w) p = Inr q" "entry_at w q = Some d"
    using l(1) by (auto simp: leads_to_iff resolve_def split: if_splits)
  have kd: "\<And>nd. entry w q = Some nd \<Longrightarrow> nd_kind nd = KDir" "entry w q = None \<Longrightarrow> q = [RootDir]"
    using p(3) l(2) by (auto simp: entry_at_def split: if_splits)
  have "walk (entry w) True links q [Normal m] = Inr (q @ [Normal m])" for links
    using e k by (cases "nd_kind n") simp_all
  with walk_split [OF p(2) _ kd, of "[Normal m]" True]
  have "walk (entry w) True 40 (w_cwd w) (p @ [Normal m]) = Inr (q @ [Normal m])" by auto
  moreover have "entry_at w (q @ [Normal m]) = Some n"
    using e by (cases q) (auto simp: entry_at_def)
  ultimately show ?thesis using p(1) by (simp add: leads_to_iff resolve_def)
qed

section \<open>The walk leaves the tree to the user\<close>

lemma own_entries_ok:
  assumes X: "chown_spec X"
  shows "own_entries X u p (map Inr names) stack upd w = (Inr (stack', upd'), w') \<Longrightarrow>
     same_tree w w' \<and> (\<forall>r. owned u w r \<longrightarrow> owned u w' r) \<and>
     stack' = rev (map (\<lambda>(m, b). p @ [Normal m]) (filter snd names)) @ stack \<and>
     upd' = upd + length names \<and>
     (\<forall>(m, b)\<in>set names. \<exists>t n. leads_to w (p @ [Normal m]) t n \<and> owned u w' t)"
proof (induction names arbitrary: stack upd w)
  case Nil
  then show ?case by (simp add: same_tree_refl)
next
  case (Cons mb names)
  obtain m b where mb: "mb = (m, b)" by (cases mb)
  from Cons.prems obtain w1 where c: "chown_entry X (p @ [Normal m]) u w = (Inr (), w1)" and
    r: "own_entries X u p (map Inr names) (if b then (p @ [Normal m]) # stack else stack) (upd + 1) w1
        = (Inr (stack', upd'), w')"
    by (auto simp: mb try_st_Inr resolve_entry_path_def split: if_splits)
  from chown_entry_ok [OF X c] obtain t n where t: "leads_to w (p @ [Normal m]) t n" "same_tree w w1"
    "owned u w1 t" "\<And>r. owned u w r \<Longrightarrow> owned u w1 r" by metis
  note ih = Cons.IH [OF r]
  have before: "\<exists>s n. leads_to w (p @ [Normal m']) s n \<and> owned u w' s" if "(m', b') \<in> set names" for m' b'
  proof -
    from ih that obtain s n' where s: "leads_to w1 (p @ [Normal m']) s n'" "owned u w' s" by blast
    have "same_tree w1 w" using t(2) by (simp add: same_tree_def)
    from same_tree_leads [OF this s(1)] s(2) show ?thesis by blast
  qed
  show ?case using ih t before mb by (auto intro: same_tree_trans simp: mb)
qed

lemma entries_specD:
  "entries_spec X \<Longrightarrow> cap_open X p w = Inr d \<Longrightarrow> leads_to w p q n \<Longrightarrow> cap_entries X d w = Inr es \<Longrightarrow>
     \<exists>names. es = map Inr names \<and> distinct (map fst names) \<and>
       (\<forall>m b. (m, b) \<in> set names \<longleftrightarrow>
          (\<exists>nd. entry w (q @ [Normal m]) = Some nd \<and> (b \<longleftrightarrow> nd_kind nd = KDir)))"
  unfolding entries_spec_def by blast

text \<open>One round of the loop on a directory: what it lists, owns and pushes.\<close>

lemma own_tree_step:
  assumes X: "open_spec X" "entries_spec X" "chown_spec X"
    and run: "own_tree_loop X u (Suc fuel) (p # stack) upd w = R" and nofail: "\<And>e w'. R \<noteq> Some (Inl e, w')"
  obtains (missing) "\<not> dir_at w p" "own_tree_loop X u fuel stack upd w = R"
  | (listed) q n names w1 where "leads_to w p q n" "nd_kind n = KDir" "distinct (map fst names)"
      "\<And>m b. (m, b) \<in> set names \<longleftrightarrow>
          (\<exists>nd. entry w (q @ [Normal m]) = Some nd \<and> (b \<longleftrightarrow> nd_kind nd = KDir))"
      "same_tree w w1" "\<And>r. owned u w r \<Longrightarrow> owned u w1 r"
      "\<And>m b. (m, b) \<in> set names \<Longrightarrow> \<exists>t n. leads_to w (p @ [Normal m]) t n \<and> owned u w1 t"
      "own_tree_loop X u fuel (rev (map (\<lambda>(m, b). p @ [Normal m]) (filter snd names)) @ stack)
         (upd + length names) w1 = R"
proof (cases "cap_open X p w")
  case (Inl e)
  with run nofail have "e = NotFound" "own_tree_loop X u fuel stack upd w = R"
    by (auto simp: open_directory_if_exists_def split: if_splits)
  with Inl X(1) missing show ?thesis by (simp add: open_spec_def)
next
  case (Inr d)
  from opened_dir [OF X(1) Inr] obtain q n where l: "leads_to w p q n" "nd_kind n = KDir" .
  from run nofail Inr obtain es where es: "cap_entries X d w = Inr es"
    by (cases "cap_entries X d w") (auto simp: open_directory_if_exists_def)
  from entries_specD [OF X(2) Inr l(1) es] obtain names where names: "es = map Inr names"
    "distinct (map fst names)" "\<And>m b. (m, b) \<in> set names \<longleftrightarrow>
          (\<exists>nd. entry w (q @ [Normal m]) = Some nd \<and> (b \<longleftrightarrow> nd_kind nd = KDir))" by metis
  from run nofail Inr es names(1) obtain stack' upd' w1 where
    o: "own_entries X u p (map Inr names) stack upd w = (Inr (stack', upd'), w1)" and
    r: "own_tree_loop X u fuel stack' upd' w1 = R"
    by (cases "own_entries X u p (map Inr names) stack upd w"; cases "fst (own_entries X u p (map Inr names) stack upd w)")
       (auto simp: open_directory_if_exists_def)
  note ok = own_entries_ok [OF X(3) o]
  show ?thesis
  proof (rule listed [OF l names(2,3)])
    show "same_tree w w1" using ok by blast
    show "owned u w r \<Longrightarrow> owned u w1 r" for r using ok by blast
    show "\<exists>t n. leads_to w (p @ [Normal m]) t n \<and> owned u w1 t" if "(m, b) \<in> set names" for m b
      using ok that by blast
    show "own_tree_loop X u fuel (rev (map (\<lambda>(m, b). p @ [Normal m]) (filter snd names)) @ stack)
         (upd + length names) w1 = R"
      using ok r by simp
  qed
qed

lemma own_tree_loop_owned:
  assumes X: "open_spec X" "entries_spec X" "chown_spec X"
  shows "own_tree_loop X u fuel stack upd w = Some (Inr k, w') \<Longrightarrow> fs_wf w \<Longrightarrow>
     same_tree w w' \<and> (\<forall>r. owned u w r \<longrightarrow> owned u w' r) \<and>
     (\<forall>s\<in>set stack. \<forall>q n r nd. leads_to w s q n \<longrightarrow> nd_kind n = KDir \<longrightarrow> strict_prefix q r \<longrightarrow>
        entry_at w r = Some nd \<longrightarrow> \<not> is_link_kind (nd_kind nd) \<longrightarrow> owned u w' r)"
proof (induction fuel arbitrary: stack upd w)
  case 0
  then show ?case by (cases stack) (auto simp: same_tree_refl)
next
  case (Suc fuel)
  show ?case
  proof (cases stack)
    case Nil
    with Suc.prems show ?thesis by (auto simp: same_tree_refl)
  next
    case (Cons p rest)
    from Suc.prems(1) have run: "own_tree_loop X u (Suc fuel) (p # rest) upd w = Some (Inr k, w')"
      using Cons by simp
    have nofail: "\<And>e v. Some (Inr k, w') \<noteq> Some (Inl e, v :: world)" by simp
    from X run nofail show ?thesis
    proof (cases rule: own_tree_step)
      case missing
      from Suc.IH [OF missing(2) Suc.prems(2)] missing(1) show ?thesis
        unfolding Cons by (auto simp: dir_at_def)
    next
      case (listed q n names w1)
      note ih = Suc.IH [OF listed(8) fs_wf_same_tree [OF Suc.prems(2) listed(5)]]
      have below: "owned u w' r"
        if l: "leads_to w p q' n'" and s: "strict_prefix q' r" and e: "entry_at w r = Some nd" and
          nl: "\<not> is_link_kind (nd_kind nd)" for q' n' r nd
      proof -
        have "q' = q" using leads_to_fun [OF l listed(1)] by simp
        with s obtain c xs where r: "r = q @ c # xs" by (auto elim: strict_prefixE')
        have q: "q \<noteq> []"
          using leads_to_entry_at [OF listed(1)] Suc.prems(2) by (auto simp: fs_wf_def)
        from fs_wf_below [OF Suc.prems(2) e [unfolded r] q] obtain m cn where
          c: "c = Normal m" "entry_at w (q @ [c]) = Some cn" "xs \<noteq> [] \<longrightarrow> nd_kind cn = KDir" by blast
        then have cn: "entry w (q @ [Normal m]) = Some cn" using q by (cases q) (auto simp: entry_at_def)
        show ?thesis
        proof (cases "xs = []")
          case True
          with r c e have "cn = nd" by simp
          with listed(4) cn obtain b where b: "(m, b) \<in> set names" by blast
          from leads_to_child [OF listed(1,2) cn] nl \<open>cn = nd\<close>
          have "leads_to w (p @ [Normal m]) (q @ [Normal m]) nd" by simp
          with listed(7) [OF b] have "owned u w1 (q @ [Normal m])" by (auto dest: leads_to_fun)
          with ih r c True show ?thesis by simp
        next
          case False
          then have kd: "nd_kind cn = KDir" using c by simp
          with listed(4) cn have "(m, True) \<in> set names" by auto
          then have st: "p @ [Normal m] \<in> set (rev (map (\<lambda>(m, b). p @ [Normal m]) (filter snd names)) @ rest)"
            by force
          have "leads_to w (p @ [Normal m]) (q @ [Normal m]) cn"
            using leads_to_child [OF listed(1,2) cn] kd by simp
          from same_tree_leads [OF listed(5) this] obtain cn' where
            l1: "leads_to w1 (p @ [Normal m]) (q @ [Normal m]) cn'" "nd_kind cn' = KDir" using kd by metis
          from listed(5) e have "map_option nd_kind (entry_at w1 r) = Some (nd_kind nd)"
            by (simp add: same_tree_def)
          then obtain nd1 where e1: "entry_at w1 r = Some nd1" "nd_kind nd1 = nd_kind nd" by auto
          have "strict_prefix (q @ [Normal m]) r" using r c False by (auto simp: strict_prefix_def prefix_def)
          with ih st l1 e1 nl show ?thesis by metis
        qed
      qed
      have others: "owned u w' r"
        if s: "s \<in> set rest" and l: "leads_to w s q' n'" "nd_kind n' = KDir" and sp: "strict_prefix q' r" and
          e: "entry_at w r = Some nd" and nl: "\<not> is_link_kind (nd_kind nd)" for s q' n' r nd
      proof -
        from same_tree_leads [OF listed(5) l(1)] obtain n1 where
          l1: "leads_to w1 s q' n1" "nd_kind n1 = KDir" using l(2) by metis
        from listed(5) e have "map_option nd_kind (entry_at w1 r) = Some (nd_kind nd)"
          by (simp add: same_tree_def)
        then obtain nd1 where e1: "entry_at w1 r = Some nd1" "nd_kind nd1 = nd_kind nd" by auto
        have "s \<in> set (rev (map (\<lambda>(m, b). p @ [Normal m]) (filter snd names)) @ rest)" using s by simp
        with ih l1 sp e1 nl show ?thesis by metis
      qed
      have "same_tree w w'" using same_tree_trans [OF listed(5)] ih by blast
      moreover have "\<forall>r. owned u w r \<longrightarrow> owned u w' r" using listed(6) ih by blast
      ultimately show ?thesis using below others unfolding Cons by (metis set_ConsD)
    qed
  qed
qed

section \<open>The walk ends\<close>

definition dirs_below :: "world \<Rightarrow> path \<Rightarrow> path set" where
  "dirs_below w q = {r. prefix q r \<and> (\<exists>n. entry_at w r = Some n \<and> nd_kind n = KDir)}"

definition cost :: "world \<Rightarrow> path \<Rightarrow> nat" where
  "cost w s = (case node_of True w s of
     Inr (q, n) \<Rightarrow> if nd_kind n = KDir then card (dirs_below w q) else 1
   | Inl _ \<Rightarrow> 1)"

lemma finite_dirs: "finite (dirs_below w q)"
proof (rule finite_subset)
  show "dirs_below w q \<subseteq> insert [RootDir] (fst ` set (w_fs w))"
    by (auto simp: dirs_below_def entry_at_def entry_def split: if_splits dest: map_of_SomeD intro: rev_image_eqI)
qed simp

lemma cost_dir: "leads_to w s q n \<Longrightarrow> nd_kind n = KDir \<Longrightarrow> cost w s = card (dirs_below w q)"
  by (simp add: cost_def leads_to_def)

lemma cost_pos: "0 < cost w s"
proof (cases "node_of True w s")
  case (Inr qn)
  obtain q n where qn: "qn = (q, n)" by (cases qn)
  show ?thesis
  proof (cases "nd_kind n = KDir")
    case True
    have "q \<in> dirs_below w q"
      using Inr qn True leads_to_entry_at [of w s q n] by (auto simp: dirs_below_def leads_to_def)
    then have "0 < card (dirs_below w q)" using finite_dirs card_gt_0_iff by blast
    with Inr qn True show ?thesis by (simp add: cost_def)
  qed (use Inr qn in \<open>simp add: cost_def\<close>)
qed (simp add: cost_def)

lemma same_tree_sym: "same_tree w w' \<Longrightarrow> same_tree w' w"
  by (simp add: same_tree_def)

lemma dirs_same_tree: "same_tree w w' \<Longrightarrow> dirs_below w' q = dirs_below w q"
proof -
  have k: "(\<exists>n. entry_at w r = Some n \<and> nd_kind n = KDir) \<longleftrightarrow> map_option nd_kind (entry_at w r) = Some KDir"
    for w r by (cases "entry_at w r") auto
  assume "same_tree w w'"
  then have e: "map_option nd_kind (entry_at w' r) = map_option nd_kind (entry_at w r)" for r
    by (simp add: same_tree_def)
  show ?thesis unfolding dirs_below_def k e ..
qed

lemma cost_same_tree:
  assumes "same_tree w w'" shows "cost w' s = cost w s"
proof (cases "\<exists>q n. leads_to w s q n \<and> nd_kind n = KDir")
  case True
  then obtain q n where l: "leads_to w s q n" "nd_kind n = KDir" by blast
  from same_tree_leads [OF assms l(1)] obtain n' where "leads_to w' s q n'" "nd_kind n' = nd_kind n" .
  with l dirs_same_tree [OF assms] show ?thesis by (simp add: cost_dir)
next
  case False
  have n: "\<not> (\<exists>q n. leads_to w' s q n \<and> nd_kind n = KDir)"
    using False same_tree_leads [OF same_tree_sym [OF assms]] by metis
  have one: "cost v s = 1" if "\<not> (\<exists>q n. leads_to v s q n \<and> nd_kind n = KDir)" for v
    using that by (auto simp: cost_def leads_to_def split: sum.splits)
  show ?thesis using one [OF False] one [OF n] by (rule trans [OF _ sym, rotated])
qed

lemma children_cost:
  assumes l: "leads_to w p q n" "nd_kind n = KDir" and d: "distinct (map fst names)"
    and names: "\<And>m b. (m, b) \<in> set names \<longleftrightarrow>
          (\<exists>nd. entry w (q @ [Normal m]) = Some nd \<and> (b \<longleftrightarrow> nd_kind nd = KDir))"
  shows "sum_list (map (\<lambda>(m, b). cost w (p @ [Normal m])) (filter snd names)) < cost w p"
proof -
  let ?ms = "map fst (filter snd names)"
  have ent: "\<exists>nd. entry w (q @ [Normal m]) = Some nd \<and> nd_kind nd = KDir" if "m \<in> set ?ms" for m
  proof -
    from that obtain b where "(m, b) \<in> set names" "b" by auto
    with names [of m b] show ?thesis by blast
  qed
  have c: "cost w (p @ [Normal m]) = card (dirs_below w (q @ [Normal m]))" if m: "m \<in> set ?ms" for m
  proof -
    from ent [OF m] obtain nd where nd: "entry w (q @ [Normal m]) = Some nd" "nd_kind nd = KDir" by blast
    then have "leads_to w (p @ [Normal m]) (q @ [Normal m]) nd" by (intro leads_to_child [OF l]) simp_all
    from cost_dir [OF this nd(2)] show ?thesis .
  qed
  have sub: "\<exists>zs. r = q @ Normal m # zs" if "r \<in> dirs_below w (q @ [Normal m])" for r m
    using that by (auto simp: dirs_below_def prefix_def)
  have "map (\<lambda>(m, b). cost w (p @ [Normal m])) (filter snd names) = map (\<lambda>m. cost w (p @ [Normal m])) ?ms"
    by auto
  also have "\<dots> = map (\<lambda>m. card (dirs_below w (q @ [Normal m]))) ?ms"
    using c by (intro map_cong) auto
  also have "sum_list \<dots> = (\<Sum>m\<in>set ?ms. card (dirs_below w (q @ [Normal m])))"
  proof (rule sum_list_distinct_conv_sum_set)
    show "distinct ?ms" using d by (simp add: distinct_map_filter)
  qed
  also have "\<dots> = card (\<Union>m\<in>set ?ms. dirs_below w (q @ [Normal m]))"
  proof (rule card_UN_disjoint [symmetric])
    show "\<forall>i\<in>set ?ms. \<forall>j\<in>set ?ms. i \<noteq> j \<longrightarrow>
        dirs_below w (q @ [Normal i]) \<inter> dirs_below w (q @ [Normal j]) = {}"
    proof (intro ballI impI)
      fix i j :: string assume "i \<noteq> j"
      then show "dirs_below w (q @ [Normal i]) \<inter> dirs_below w (q @ [Normal j]) = {}"
        using sub by (metis (no_types, lifting) component.inject disjoint_iff list.inject same_append_eq)
    qed
  qed (simp_all add: finite_dirs)
  also have "\<dots> < card (dirs_below w q)"
  proof (rule psubset_card_mono [OF finite_dirs psubsetI])
    show "(\<Union>m\<in>set ?ms. dirs_below w (q @ [Normal m])) \<subseteq> dirs_below w q"
      using append_prefixD by (fastforce simp: dirs_below_def)
    have "q \<in> dirs_below w q" using leads_to_entry_at [OF l(1)] l(2) by (auto simp: dirs_below_def)
    moreover have "q \<notin> (\<Union>m\<in>set ?ms. dirs_below w (q @ [Normal m]))"
      using sub by fastforce
    ultimately show "(\<Union>m\<in>set ?ms. dirs_below w (q @ [Normal m])) \<noteq> dirs_below w q" by blast
  qed
  finally show ?thesis using l by (simp add: cost_dir)
qed

lemma own_tree_loop_ends:
  assumes X: "open_spec X" "entries_spec X" "chown_spec X"
  shows "sum_list (map (cost w) stack) \<le> fuel \<Longrightarrow> own_tree_loop X u fuel stack upd w \<noteq> None"
proof (induction fuel arbitrary: stack upd w)
  case 0
  show ?case
  proof (cases stack)
    case (Cons p rest)
    with 0 cost_pos [of w p] show ?thesis by simp
  qed simp
next
  case (Suc fuel)
  show ?case
  proof (cases stack)
    case (Cons p rest)
    show ?thesis
    proof
      assume none: "own_tree_loop X u (Suc fuel) stack upd w = None"
      then have run: "own_tree_loop X u (Suc fuel) (p # rest) upd w = None" using Cons by simp
      have nofail: "\<And>e v. None \<noteq> Some (Inl e, v :: world)" by simp
      from X run nofail show False
      proof (cases rule: own_tree_step)
        case missing
        have "sum_list (map (cost w) rest) \<le> fuel" using Suc.prems Cons cost_pos [of w p] by simp
        with Suc.IH missing(2) show False by blast
      next
        case (listed q n names w1)
        have "sum_list (map (cost w) (rev (map (\<lambda>(m, b). p @ [Normal m]) (filter snd names)) @ rest)) \<le> fuel"
          using children_cost [OF listed(1-4)] Suc.prems Cons
          by (simp add: sum_list_rev comp_def case_prod_unfold flip: rev_map)
        then have "sum_list (map (cost w1) (rev (map (\<lambda>(m, b). p @ [Normal m]) (filter snd names)) @ rest)) \<le> fuel"
          using cost_same_tree [OF listed(5)] by (metis (no_types, lifting) map_cong)
        from Suc.IH [OF this] listed(8) show False by blast
      qed
    qed
  qed simp
qed

lemma cost_bound: "cost w s \<le> length (w_fs w) + 1"
proof (cases "\<exists>q n. leads_to w s q n \<and> nd_kind n = KDir")
  case True
  then obtain q n where l: "leads_to w s q n" "nd_kind n = KDir" by blast
  have "card (dirs_below w q) \<le> card (insert [RootDir] (fst ` set (w_fs w)))"
    by (rule card_mono) (auto simp: dirs_below_def entry_at_def entry_def split: if_splits
        dest: map_of_SomeD intro: rev_image_eqI)
  also have "\<dots> \<le> Suc (card (fst ` set (w_fs w)))" by (rule card_insert_le_m1) simp_all
  also have "card (fst ` set (w_fs w)) \<le> length (w_fs w)"
    using card_image_le [of "set (w_fs w)" fst] card_length [of "w_fs w"] by simp
  finally show ?thesis using l by (simp add: cost_dir)
next
  case False
  then show ?thesis by (auto simp: cost_def leads_to_def split: sum.splits)
qed

section \<open>Properties of the walk\<close>

text \<open>
  C29. The recursive change of owner terminates: as many rounds as the file system has entries, and
  one more for the root directory, are enough, whatever the outcome.
\<close>

theorem ensure_tree_owned_by_user_ends:
  assumes "open_spec X" "entries_spec X" "chown_spec X" and "length (w_fs w) + 1 \<le> fuel"
  shows "\<exists>r w'. ensure_tree_owned_by_user X fuel root u w = Some (r, w')"
proof -
  have "own_tree_loop X u fuel [root] 0 w \<noteq> None"
    using cost_bound [of w root] assms(4) by (intro own_tree_loop_ends [OF assms(1-3)]) simp
  then show ?thesis by (auto simp: ensure_tree_owned_by_user_def)
qed

definition tree_demo :: world where
  "tree_demo =
     \<lparr>w_fs = map (\<lambda>(p, k). (p, \<lparr>nd_kind = k, nd_mode = 420, nd_uid = 0, nd_gid = 0\<rparr>))
        [([RootDir, Normal ''i''], KDir),
         ([RootDir, Normal ''i'', Normal ''pg''], KFile ''x''),
         ([RootDir, Normal ''i'', Normal ''l''], KLink [RootDir, Normal ''s'']),
         ([RootDir, Normal ''s''], KFile ''secret'')],
      w_cwd = [RootDir], w_env = Map.empty, w_euid = 0, w_faults = (\<lambda>_. None), w_residue = (\<lambda>_. [])\<rparr>"

theorem ensure_tree_owned_by_user_ends_witness:
  "\<exists>r w'. ensure_tree_owned_by_user posix_ext 6 [RootDir, Normal ''i''] nobody tree_demo = Some (r, w')"
proof (rule ensure_tree_owned_by_user_ends [OF posix_open_spec posix_entries_spec posix_chown_spec])
  show "length (w_fs tree_demo) + 1 \<le> 6" by (simp add: tree_demo_def)
qed

text \<open>
  When it succeeds, every file and directory below the root belongs to the user, and the tree
  is otherwise what it was: same entries, same kinds.
\<close>

theorem ensure_tree_owned_by_user_owns:
  assumes X: "open_spec X" "entries_spec X" "chown_spec X" and wf: "fs_wf w"
    and root: "leads_to w root q n" "nd_kind n = KDir"
    and run: "ensure_tree_owned_by_user X fuel root u w = Some (Inr k, w')"
  shows "same_tree w w' \<and>
    (\<forall>r nd. strict_prefix q r \<longrightarrow> entry_at w r = Some nd \<longrightarrow> \<not> is_link_kind (nd_kind nd) \<longrightarrow> owned u w' r)"
proof -
  from run have "own_tree_loop X u fuel [root] 0 w = Some (Inr k, w')"
    by (simp add: ensure_tree_owned_by_user_def)
  from own_tree_loop_owned [OF X this wf] root show ?thesis by (metis list.set_intros(1))
qed

definition fs_check :: "world \<Rightarrow> bool" where
  "fs_check w \<longleftrightarrow> list_all (\<lambda>(p, n). p = [RootDir] \<or>
     (p \<noteq> [] \<and> (case last p of Normal _ \<Rightarrow> True | _ \<Rightarrow> False) \<and>
      (case entry_at w (butlast p) of Some d \<Rightarrow> nd_kind d = KDir | None \<Rightarrow> False))) (w_fs w)"

lemma fs_check_wf:
  assumes "fs_check w" shows "fs_wf w"
  unfolding fs_wf_def
proof (intro conjI allI impI)
  show "entry_at w [] = None"
    using assms by (cases "map_of (w_fs w) []")
      (auto simp: entry_at_def entry_def fs_check_def list_all_iff dest!: map_of_SomeD)
next
  fix q c n
  assume e: "entry_at w (q @ [c]) = Some n" and r: "q @ [c] \<noteq> [RootDir]"
  then have "(q @ [c], n) \<in> set (w_fs w)" by (simp add: entry_at_def entry_def map_of_SomeD)
  with assms r show "\<exists>m. c = Normal m" "\<exists>d. entry_at w q = Some d \<and> nd_kind d = KDir"
    by (auto simp: fs_check_def list_all_iff split: component.splits option.splits)
qed

lemma tree_demo_wf: "fs_wf tree_demo"
  by (rule fs_check_wf) code_simp

lemma tree_demo_run:
  "\<exists>w'. ensure_tree_owned_by_user posix_ext 6 [RootDir, Normal ''i''] nobody tree_demo = Some (Inr 2, w')"
proof -
  have o: "open_directory_if_exists posix_ext [RootDir, Normal ''i''] tree_demo = Some (Inr [RootDir, Normal ''i''])"
    by (simp add: open_directory_if_exists_def posix_ext_def posix_open_def node_of_def resolve_def entry_at_def
        entry_def tree_demo_def)
  have e: "cap_entries posix_ext [RootDir, Normal ''i''] tree_demo = Inr [Inr (''pg'', False), Inr (''l'', False)]"
    unfolding posix_ext_def ext.simps by code_simp
  have "fst (own_entries posix_ext nobody [RootDir, Normal ''i''] [Inr (''pg'', False), Inr (''l'', False)] [] 0
      tree_demo) = Inr ([], 2)"
    by (simp add: resolve_entry_path_def byte_def chown_entry_def context_io_def posix_ext_def posix_update_def
        node_of_def resolve_def entry_at_def entry_def tree_demo_def put_entry_def nobody_def)
  then obtain w' where "own_entries posix_ext nobody [RootDir, Normal ''i''] [Inr (''pg'', False), Inr (''l'', False)]
      [] 0 tree_demo = (Inr ([], 2), w')"
    by (metis prod.collapse)
  with o e show ?thesis by (simp add: ensure_tree_owned_by_user_def eval_nat_numeral)
qed

lemma tree_demo_root: "leads_to tree_demo [RootDir, Normal ''i''] [RootDir, Normal ''i'']
    \<lparr>nd_kind = KDir, nd_mode = 420, nd_uid = 0, nd_gid = 0\<rparr>"
  by (simp add: leads_to_iff resolve_def entry_at_def entry_def tree_demo_def)

theorem ensure_tree_owned_by_user_owns_witness:
  "\<exists>w'. ensure_tree_owned_by_user posix_ext 6 [RootDir, Normal ''i''] nobody tree_demo = Some (Inr 2, w') \<and>
     owned nobody w' [RootDir, Normal ''i'', Normal ''pg'']"
proof -
  from tree_demo_run obtain w' where
    w': "ensure_tree_owned_by_user posix_ext 6 [RootDir, Normal ''i''] nobody tree_demo = Some (Inr 2, w')" by blast
  from ensure_tree_owned_by_user_owns [OF posix_open_spec posix_entries_spec posix_chown_spec tree_demo_wf
      tree_demo_root _ w']
  have "owned nobody w' [RootDir, Normal ''i'', Normal ''pg'']"
    by (simp add: tree_demo_def entry_at_def entry_def)
  with w' show ?thesis by blast
qed

text \<open>
  \<open>chown\<close> follows links, so the walk also gives the user whatever a link in the directory leads
  to, inside or outside the tree: run as root over a directory the user can write to, it can hand
  over any file of the system.
\<close>

theorem ensure_tree_owned_by_user_follows_links:
  assumes X: "open_spec X" "entries_spec X" "chown_spec X" and wf: "fs_wf w"
    and root: "leads_to w root q n" "nd_kind n = KDir"
    and link: "entry w (q @ [Normal m]) = Some l" "nd_kind l = KLink target"
    and leads: "leads_to w (root @ [Normal m]) t nt"
    and run: "ensure_tree_owned_by_user X fuel root u w = Some (Inr k, w')"
  shows "owned u w' t"
proof (cases fuel)
  case 0
  with run show ?thesis by (simp add: ensure_tree_owned_by_user_def)
next
  case (Suc f)
  with run have "own_tree_loop X u (Suc f) [root] 0 w = Some (Inr k, w')"
    by (simp add: ensure_tree_owned_by_user_def)
  note run' = this
  have nofail: "\<And>e v. Some (Inr k, w') \<noteq> Some (Inl e, v :: world)" by simp
  from X run' nofail show ?thesis
  proof (cases rule: own_tree_step)
    case missing
    with root show ?thesis by (auto simp: dir_at_def)
  next
    case (listed q' n' names w1)
    have "q' = q" using leads_to_fun [OF root(1) listed(1)] by simp
    with listed(4) link obtain b where "(m, b) \<in> set names" by blast
    with listed(7) leads have "owned u w1 t" by (auto dest: leads_to_fun)
    with own_tree_loop_owned [OF X listed(8) fs_wf_same_tree [OF wf listed(5)]] show ?thesis by blast
  qed
qed

theorem ensure_tree_owned_by_user_follows_links_witness:
  "\<exists>w'. ensure_tree_owned_by_user posix_ext 6 [RootDir, Normal ''i''] nobody tree_demo = Some (Inr 2, w') \<and>
     owned nobody w' [RootDir, Normal ''s'']"
proof -
  from tree_demo_run obtain w' where
    w': "ensure_tree_owned_by_user posix_ext 6 [RootDir, Normal ''i''] nobody tree_demo = Some (Inr 2, w')" by blast
  have l: "entry tree_demo ([RootDir, Normal ''i''] @ [Normal ''l'']) = Some
      \<lparr>nd_kind = KLink [RootDir, Normal ''s''], nd_mode = 420, nd_uid = 0, nd_gid = 0\<rparr>"
    by (simp add: tree_demo_def entry_def)
  have t: "leads_to tree_demo ([RootDir, Normal ''i''] @ [Normal ''l'']) [RootDir, Normal ''s'']
      \<lparr>nd_kind = KFile ''secret'', nd_mode = 420, nd_uid = 0, nd_gid = 0\<rparr>"
    by (simp add: leads_to_iff resolve_def entry_at_def entry_def tree_demo_def)
  from ensure_tree_owned_by_user_follows_links [OF posix_open_spec posix_entries_spec posix_chown_spec
      tree_demo_wf tree_demo_root _ l _ t w'] w'
  show ?thesis by auto
qed

end
