(* ===== verification/Bootstrap_Env.thy ===== *)
theory Bootstrap_Env
  imports Privileges
begin

text \<open>
  Reading the configuration: the conversion of \<open>PgEnvCfg\<close> into server settings
  (\<open>src/src/lib.rs\<close>), the environment variables of \<open>src/src/bootstrap/env.rs\<close> (shutdown timeout,
  worker binary, time zone) and the choice of execution mode of \<open>src/src/bootstrap/mode.rs\<close>.
  \<open>Settings::default\<close> and the parser of version requirements are not part of the repository and are
  arguments. Everything here only reads the world.
\<close>

unbundle bit_operations_syntax

section \<open>Settings from the configuration\<close>

definition worker_limit_defaults :: "(string \<times> string) list" where
  "worker_limit_defaults =
     [(''max_connections'', ''20''),
      (''max_worker_processes'', ''2''),
      (''max_parallel_workers'', ''0''),
      (''max_parallel_workers_per_gather'', ''0''),
      (''max_parallel_maintenance_workers'', ''0''),
      (''autovacuum'', ''off''),
      (''max_wal_senders'', ''0''),
      (''max_replication_slots'', ''0'')]"

definition apply_version :: "(string \<Rightarrow> string option) \<Rightarrow> pg_env_cfg \<Rightarrow> settings \<Rightarrow> config_error + settings" where
  "apply_version parse_req cfg s =
     (case pc_version_req cfg of
        None \<Rightarrow> Inr s
      | Some vr \<Rightarrow>
          (case parse_req vr of
             None \<Rightarrow> Inl (ConfigError (Ctx ''PG_VERSION_REQ invalid semver spec'' (Msg vr)))
           | Some v \<Rightarrow> Inr (s\<lparr>st_version := v\<rparr>)))"

definition apply_connection :: "pg_env_cfg \<Rightarrow> settings \<Rightarrow> settings" where
  "apply_connection cfg s =
     (let s1 = (case pc_port cfg of Some p \<Rightarrow> s\<lparr>st_port := p\<rparr> | None \<Rightarrow> s);
          s2 = (case pc_superuser cfg of Some u \<Rightarrow> s1\<lparr>st_username := u\<rparr> | None \<Rightarrow> s1)
      in case pc_password cfg of Some pw \<Rightarrow> s2\<lparr>st_password := pw\<rparr> | None \<Rightarrow> s2)"

definition apply_paths :: "pg_env_cfg \<Rightarrow> settings \<Rightarrow> settings" where
  "apply_paths cfg s =
     (let s1 = (case pc_data_dir cfg of Some d \<Rightarrow> s\<lparr>st_data_dir := d\<rparr> | None \<Rightarrow> s)
      in case pc_runtime_dir cfg of Some d \<Rightarrow> s1\<lparr>st_installation_dir := d\<rparr> | None \<Rightarrow> s1)"

definition insert_config :: "string \<Rightarrow> string \<Rightarrow> settings \<Rightarrow> settings" where
  "insert_config k v s = s\<lparr>st_configuration := (st_configuration s)(k \<mapsto> v)\<rparr>"

definition apply_locale :: "pg_env_cfg \<Rightarrow> settings \<Rightarrow> settings" where
  "apply_locale cfg s =
     (let s1 = (case pc_locale cfg of Some l \<Rightarrow> insert_config ''locale'' l s | None \<Rightarrow> s)
      in case pc_encoding cfg of Some e \<Rightarrow> insert_config ''encoding'' e s1 | None \<Rightarrow> s1)"

text \<open>\<open>entry(key).or_insert_with(value)\<close> for each default.\<close>

definition or_insert :: "string \<times> string \<Rightarrow> settings \<Rightarrow> settings" where
  "or_insert kv s = (if st_configuration s (fst kv) = None then insert_config (fst kv) (snd kv) s else s)"

definition apply_worker_limits :: "settings \<Rightarrow> settings" where
  "apply_worker_limits s = fold or_insert worker_limit_defaults s"

definition to_settings_with_context ::
  "(string \<Rightarrow> string option) \<Rightarrow> settings \<Rightarrow> pg_env_cfg \<Rightarrow> bool \<Rightarrow> pg_embedded_error + settings" where
  "to_settings_with_context parse_req default_settings cfg for_tests =
     try_res (map_err Config (apply_version parse_req cfg (default_settings\<lparr>st_timeout := None\<rparr>)))
       (\<lambda>s. let s' = apply_locale cfg (apply_paths cfg (apply_connection cfg s))
            in Inr (if for_tests then apply_worker_limits s' else s'))"

definition to_settings where
  "to_settings parse_req default_settings cfg = to_settings_with_context parse_req default_settings cfg False"

definition to_settings_for_tests where
  "to_settings_for_tests parse_req default_settings cfg = to_settings_with_context parse_req default_settings cfg True"

section \<open>Environment variables\<close>

datatype var_error = NotPresent | NotUnicode string

text \<open>\<open>env::var_os\<close> and \<open>env::var\<close>.\<close>

definition var_os :: "string \<Rightarrow> world \<Rightarrow> string option" where
  "var_os name w = w_env w name"

definition env_var :: "string \<Rightarrow> world \<Rightarrow> var_error + string" where
  "env_var name w =
     (case var_os name w of
        None \<Rightarrow> Inl NotPresent
      | Some v \<Rightarrow> if utf8_valid v then Inr v else Inl (NotUnicode v))"

definition bootstrap_msg :: "string \<Rightarrow> bootstrap_error" where
  "bootstrap_msg m = bootstrap_from_report (Msg m)"

definition default_shutdown_timeout :: duration where
  "default_shutdown_timeout = from_secs 15"

definition max_shutdown_timeout_secs :: nat where
  "max_shutdown_timeout_secs = 600"

definition shutdown_timeout_from_env :: "world \<Rightarrow> bootstrap_error + duration" where
  "shutdown_timeout_from_env w =
     (case env_var ''PG_SHUTDOWN_TIMEOUT_SECS'' w of
        Inr raw \<Rightarrow>
          let trimmed = trim raw in
          if trimmed = [] then Inl (bootstrap_msg ''PG_SHUTDOWN_TIMEOUT_SECS is present but empty'')
          else (case parse_unsigned (2 ^ 64 - 1) trimmed of
              None \<Rightarrow> Inl (bootstrap_msg ''failed to parse PG_SHUTDOWN_TIMEOUT_SECS'')
            | Some seconds \<Rightarrow>
                if seconds = 0 then Inl (bootstrap_msg ''PG_SHUTDOWN_TIMEOUT_SECS must be at least 1 second'')
                else if seconds > max_shutdown_timeout_secs then
                  Inl (bootstrap_msg ''PG_SHUTDOWN_TIMEOUT_SECS must be 600 seconds or less'')
                else Inr (from_secs seconds))
      | Inl NotPresent \<Rightarrow> Inr default_shutdown_timeout
      | Inl (NotUnicode _) \<Rightarrow> Inl (bootstrap_msg ''PG_SHUTDOWN_TIMEOUT_SECS must contain a valid UTF-8 value''))"

section \<open>The worker binary\<close>

text \<open>0o111.\<close>

definition is_executable :: "world \<Rightarrow> path \<Rightarrow> bool" where
  "is_executable w p = (case metadata w p of Inl _ \<Rightarrow> False | Inr n \<Rightarrow> nd_mode n AND 73 \<noteq> 0)"

fun discover_in :: "string list \<Rightarrow> world \<Rightarrow> bootstrap_error + pathbuf option" where
  "discover_in [] w = Inr None"
| "discover_in (dir # rest) w =
     (if \<not> utf8_valid dir then
        Inl (bootstrap_new WorkerBinaryPathNonUtf8 (Msg ''PATH contains a non-UTF-8 entry''))
      else if dir = [] \<or> dir = ''.'' then discover_in rest w
      else let worker_path = join_path dir ''pg_worker'' in
           if path_is_file w (components worker_path) \<and> is_executable w (components worker_path)
           then Inr (Some worker_path) else discover_in rest w)"

text \<open>\<open>env::split_paths\<close> splits at colons.\<close>

definition discover_worker_from_path_value :: "string option \<Rightarrow> world \<Rightarrow> bootstrap_error + pathbuf option" where
  "discover_worker_from_path_value path_var w =
     (case path_var of None \<Rightarrow> Inr None | Some v \<Rightarrow> discover_in (split_on (CHR '':'') v) w)"

definition discover_worker_from_path :: "world \<Rightarrow> bootstrap_error + pathbuf option" where
  "discover_worker_from_path w = discover_worker_from_path_value (var_os ''PATH'' w) w"

definition worker_binary_error :: "report \<Rightarrow> bootstrap_error" where
  "worker_binary_error err =
     (let report = Ctx ''failed to access PG_EMBEDDED_WORKER'' err in
      if chain_has_io NotFound err then bootstrap_new WorkerBinaryMissing report
      else bootstrap_from_report report)"

definition validate_worker_binary :: "'h ext \<Rightarrow> pathbuf \<Rightarrow> world \<Rightarrow> bootstrap_error + unit" where
  "validate_worker_binary X p w =
     try_res (map_err worker_binary_error (ambient_dir_and_path X (components p) w))
       (\<lambda>(dir, relative).
          try_res (map_err (\<lambda>k. worker_binary_error (IoErr k)) (cap_metadata X dir relative w))
            (\<lambda>n. if \<not> is_file_kind (nd_kind n) then
                    Inl (bootstrap_msg ''PG_EMBEDDED_WORKER must reference a regular file'')
                 else if nd_mode n AND 73 = 0 then
                    Inl (bootstrap_msg ''PG_EMBEDDED_WORKER must be executable'')
                 else Inr ()))"

definition validate_worker_path :: "'h ext \<Rightarrow> pathbuf \<Rightarrow> world \<Rightarrow> bootstrap_error + unit" where
  "validate_worker_path X p w =
     (if p = [] then Inl (bootstrap_msg ''Worker binary path must not be empty'')
      else if p = ''/'' then Inl (bootstrap_msg ''Worker binary path must not point at filesystem root'')
      else validate_worker_binary X p w)"

definition worker_binary_from_env ::
  "'h ext \<Rightarrow> execution_privileges \<Rightarrow> world \<Rightarrow> bootstrap_error + pathbuf option" where
  "worker_binary_from_env X privileges w =
     (case var_os ''PG_EMBEDDED_WORKER'' w of
        Some raw \<Rightarrow>
          if \<not> utf8_valid raw then Inl (bootstrap_msg ''PG_EMBEDDED_WORKER contains a non-UTF-8 value'')
          else try_res (validate_worker_path X raw w) (\<lambda>_. Inr (Some raw))
      | None \<Rightarrow>
          if privileges = Root then
            try_res (discover_worker_from_path w)
              (\<lambda>found. case found of
                 Some worker \<Rightarrow> try_res (validate_worker_path X worker w) (\<lambda>_. Inr (Some worker))
               | None \<Rightarrow> Inr None)
          else Inr None)"

section \<open>Time zone\<close>

definition tzdir_candidates :: "string list" where
  "tzdir_candidates =
     [''/usr/share/zoneinfo'', ''/usr/lib/zoneinfo'', ''/etc/zoneinfo'', ''/share/zoneinfo'']"

definition find_timezone_dir :: "world \<Rightarrow> pathbuf option" where
  "find_timezone_dir w = find (\<lambda>p. path_exists w (components p)) tzdir_candidates"

definition discover_timezone_dir :: "world \<Rightarrow> bootstrap_error + pathbuf option" where
  "discover_timezone_dir w =
     (case find_timezone_dir w of
        None \<Rightarrow> Inl (bootstrap_msg ''time zone database not found. Set TZDIR or install tzdata.'')
      | Some c \<Rightarrow> Inr (Some c))"

definition prepare_timezone_env :: "world \<Rightarrow> bootstrap_error + timezone_env" where
  "prepare_timezone_env w =
     try_res
       (case var_os ''TZDIR'' w of
          Some dir \<Rightarrow>
            if \<not> utf8_valid dir then Inl (bootstrap_msg ''TZDIR must be valid UTF-8'')
            else if \<not> path_exists w (components dir) then Inl (bootstrap_msg ''time zone database not found'')
            else Inr (Some dir)
        | None \<Rightarrow> discover_timezone_dir w)
       (\<lambda>dir.
          try_res
            (case env_var ''TZ'' w of
               Inr value \<Rightarrow> Inr (if trim value \<noteq> [] then value else ''UTC'')
             | Inl NotPresent \<Rightarrow> Inr ''UTC''
             | Inl (NotUnicode _) \<Rightarrow> Inl (bootstrap_msg ''TZ must be valid UTF-8''))
            (\<lambda>zone. Inr \<lparr>tz_dir = dir, tz_zone = zone\<rparr>))"

section \<open>Execution mode\<close>

definition detect_execution_privileges :: "world \<Rightarrow> execution_privileges" where
  "detect_execution_privileges w = (if w_euid w = 0 then Root else Unprivileged)"

definition determine_execution_mode ::
  "execution_privileges \<Rightarrow> pathbuf option \<Rightarrow> bootstrap_error + execution_mode" where
  "determine_execution_mode privileges worker_binary =
     (case privileges of
        Root \<Rightarrow> if worker_binary = None then
                  Inl (bootstrap_msg ''PG_EMBEDDED_WORKER must be set when running with root privileges'')
                else Inr Subprocess
      | Unprivileged \<Rightarrow> Inr InProcess)"

section \<open>Properties\<close>

lemma insert_config_same [simp]: "st_configuration (insert_config k v s) = (st_configuration s)(k \<mapsto> v)"
  by (simp add: insert_config_def)

lemma insert_config_frame [simp]:
  "st_data_dir (insert_config k v s) = st_data_dir s" "st_installation_dir (insert_config k v s) = st_installation_dir s"
  "st_port (insert_config k v s) = st_port s" "st_timeout (insert_config k v s) = st_timeout s"
  by (simp_all add: insert_config_def)

lemma or_insert_fold:
  "distinct (map fst kvs) \<Longrightarrow>
   st_configuration (fold or_insert kvs s) key
     = (case st_configuration s key of Some v \<Rightarrow> Some v | None \<Rightarrow> map_of kvs key)"
proof (induction kvs arbitrary: s)
  case (Cons kv kvs)
  obtain k v where kv: "kv = (k, v)" by (cases kv)
  with Cons.prems have "k \<notin> fst ` set kvs" by simp
  then have "map_of kvs k = None" by (simp add: map_of_eq_None_iff)
  with Cons kv show ?case by (auto simp: or_insert_def split: option.splits)
qed (simp split: option.split)

lemma or_insert_frame:
  "fold or_insert kvs s = s\<lparr>st_configuration := st_configuration (fold or_insert kvs s)\<rparr>"
proof (induction kvs arbitrary: s)
  case (Cons kv kvs)
  have "fold or_insert (kv # kvs) s = fold or_insert kvs (or_insert kv s)" by simp
  also have "\<dots> = (or_insert kv s)\<lparr>st_configuration := st_configuration (fold or_insert kvs (or_insert kv s))\<rparr>"
    by (rule Cons.IH)
  also have "\<dots> = s\<lparr>st_configuration := st_configuration (fold or_insert (kv # kvs) s)\<rparr>"
    by (simp add: or_insert_def insert_config_def)
  finally show ?case .
qed simp

text \<open>
  The limits for test clusters only fill gaps: a configuration key that is set keeps its value,
  a default appears exactly where nothing is set, and nothing but the configuration changes. Apart
  from them, the settings for tests are the ordinary settings, and both disable the library's own
  timeout.
\<close>

theorem worker_limits_fill_gaps:
  shows "st_configuration (apply_worker_limits s) key =
      (case st_configuration s key of Some v \<Rightarrow> Some v | None \<Rightarrow> map_of worker_limit_defaults key) \<and>
    apply_worker_limits s = s\<lparr>st_configuration := st_configuration (apply_worker_limits s)\<rparr> \<and>
    to_settings_for_tests parse_req d cfg =
      try_res (to_settings parse_req d cfg) (\<lambda>s. Inr (apply_worker_limits s)) \<and>
    (case to_settings parse_req d cfg of Inl _ \<Rightarrow> True | Inr s \<Rightarrow> st_timeout s = None)"
proof -
  have "distinct (map fst worker_limit_defaults)" by (simp add: worker_limit_defaults_def)
  moreover have "to_settings_for_tests parse_req d cfg =
      try_res (to_settings parse_req d cfg) (\<lambda>s. Inr (apply_worker_limits s))"
    by (simp add: to_settings_for_tests_def to_settings_def to_settings_with_context_def try_res_def Let_def
        split: sum.split)
  moreover have "case to_settings parse_req d cfg of Inl _ \<Rightarrow> True | Inr s \<Rightarrow> st_timeout s = None"
    by (simp add: to_settings_def to_settings_with_context_def apply_version_def apply_connection_def
        apply_paths_def apply_locale_def Let_def split: option.split)
  moreover have "apply_worker_limits s = s\<lparr>st_configuration := st_configuration (apply_worker_limits s)\<rparr>"
    unfolding apply_worker_limits_def by (rule or_insert_frame)
  ultimately show ?thesis by (simp add: apply_worker_limits_def or_insert_fold)
qed

text \<open>
  The shutdown timeout lies between one second and ten minutes whenever it is accepted; it is
  fifteen seconds when the variable is not set, and a decimal number of seconds in range is taken as
  it is. Anything else is an error.
\<close>

theorem shutdown_timeout_bounds:
  shows "(case shutdown_timeout_from_env w of
       Inr d \<Rightarrow> from_secs 1 \<le> d \<and> d \<le> from_secs 600 \<and>
         (w_env w ''PG_SHUTDOWN_TIMEOUT_SECS'' = None \<longrightarrow> d = from_secs 15)
     | Inl e \<Rightarrow> be_kind e = Other \<and> w_env w ''PG_SHUTDOWN_TIMEOUT_SECS'' \<noteq> None) \<and>
    (\<forall>n. 1 \<le> n \<longrightarrow> n \<le> 600 \<longrightarrow> w_env w ''PG_SHUTDOWN_TIMEOUT_SECS'' = Some (show_nat n) \<longrightarrow>
       shutdown_timeout_from_env w = Inr (from_secs n))"
proof
  show "case shutdown_timeout_from_env w of
       Inr d \<Rightarrow> from_secs 1 \<le> d \<and> d \<le> from_secs 600 \<and>
         (w_env w ''PG_SHUTDOWN_TIMEOUT_SECS'' = None \<longrightarrow> d = from_secs 15)
     | Inl e \<Rightarrow> be_kind e = Other \<and> w_env w ''PG_SHUTDOWN_TIMEOUT_SECS'' \<noteq> None"
    by (auto simp: shutdown_timeout_from_env_def env_var_def var_os_def bootstrap_msg_def Let_def from_secs_def
        default_shutdown_timeout_def max_shutdown_timeout_secs_def split: option.split)
  show "\<forall>n. 1 \<le> n \<longrightarrow> n \<le> 600 \<longrightarrow> w_env w ''PG_SHUTDOWN_TIMEOUT_SECS'' = Some (show_nat n) \<longrightarrow>
       shutdown_timeout_from_env w = Inr (from_secs n)"
    by (auto simp: shutdown_timeout_from_env_def env_var_def var_os_def Let_def parse_unsigned_show
        max_shutdown_timeout_secs_def)
qed

definition env_demo :: "(string \<times> string) list \<Rightarrow> world" where
  "env_demo vars = fs_demo\<lparr>w_env := map_of vars\<rparr>"

theorem shutdown_timeout_bounds_witness:
  "shutdown_timeout_from_env (env_demo [(''PG_SHUTDOWN_TIMEOUT_SECS'', show_nat 30)]) = Inr (from_secs 30)"
proof -
  have "w_env (env_demo [(''PG_SHUTDOWN_TIMEOUT_SECS'', show_nat 30)]) ''PG_SHUTDOWN_TIMEOUT_SECS'' = Some (show_nat 30)"
    by (simp add: env_demo_def)
  with shutdown_timeout_bounds [of "env_demo [(''PG_SHUTDOWN_TIMEOUT_SECS'', show_nat 30)]"]
  show ?thesis by simp
qed

definition usable_worker :: "world \<Rightarrow> string \<Rightarrow> bool" where
  "usable_worker w dir \<longleftrightarrow> dir \<noteq> [] \<and> dir \<noteq> ''.'' \<and>
     path_is_file w (components (join_path dir ''pg_worker'')) \<and>
     is_executable w (components (join_path dir ''pg_worker''))"

text \<open>
  A worker is found on \<open>PATH\<close> only as an executable regular file, in the first directory that
  has one: no earlier entry other than the empty one and \<open>.\<close> holds an executable worker. An entry
  that is not UTF-8 before that is an error of its own kind.
\<close>

theorem worker_discovery_first_match:
  "case discover_in dirs w of
     Inr (Some p) \<Rightarrow> \<exists>pre dir post. dirs = pre @ dir # post \<and> p = join_path dir ''pg_worker'' \<and>
       usable_worker w dir \<and> list_all (\<lambda>d. utf8_valid d \<and> \<not> usable_worker w d) pre
   | Inr None \<Rightarrow> list_all (\<lambda>d. utf8_valid d \<and> \<not> usable_worker w d) dirs
   | Inl e \<Rightarrow> be_kind e = WorkerBinaryPathNonUtf8 \<and> (\<exists>pre dir post. dirs = pre @ dir # post \<and>
       \<not> utf8_valid dir \<and> list_all (\<lambda>d. utf8_valid d \<and> \<not> usable_worker w d) pre)"
proof (induction dirs)
  case (Cons d dirs)
  consider (bad) "\<not> utf8_valid d" | (hit) "utf8_valid d" "usable_worker w d"
    | (skip) "utf8_valid d" "\<not> usable_worker w d" by blast
  then show ?case
  proof cases
    case bad
    then have "discover_in (d # dirs) w = Inl (bootstrap_new WorkerBinaryPathNonUtf8 (Msg ''PATH contains a non-UTF-8 entry''))"
      by simp
    moreover have "\<exists>pre dir post. d # dirs = pre @ dir # post \<and> \<not> utf8_valid dir \<and>
        list_all (\<lambda>d. utf8_valid d \<and> \<not> usable_worker w d) pre"
      using bad by (intro exI [of _ "[]"] exI [of _ d] exI [of _ dirs]) simp
    ultimately show ?thesis by (simp add: bootstrap_new_def)
  next
    case hit
    then have "discover_in (d # dirs) w = Inr (Some (join_path d ''pg_worker''))"
      by (simp add: usable_worker_def)
    moreover have "\<exists>pre dir post. d # dirs = pre @ dir # post \<and> join_path d ''pg_worker'' = join_path dir ''pg_worker'' \<and>
       usable_worker w dir \<and> list_all (\<lambda>d. utf8_valid d \<and> \<not> usable_worker w d) pre"
      using hit by (intro exI [of _ "[]"] exI [of _ d] exI [of _ dirs]) simp
    ultimately show ?thesis by simp
  next
    case skip
    then have eq: "discover_in (d # dirs) w = discover_in dirs w"
      by (auto simp: usable_worker_def Let_def)
    have ext: "\<exists>pre dir post. d # dirs = pre @ dir # post \<and> Q dir \<and>
        list_all (\<lambda>d. utf8_valid d \<and> \<not> usable_worker w d) pre"
      if "\<exists>pre dir post. dirs = pre @ dir # post \<and> Q dir \<and>
        list_all (\<lambda>d. utf8_valid d \<and> \<not> usable_worker w d) pre" for Q
    proof -
      from that obtain pre dir post where "dirs = pre @ dir # post" "Q dir"
        "list_all (\<lambda>d. utf8_valid d \<and> \<not> usable_worker w d) pre" by blast
      with skip show ?thesis by (intro exI [of _ "d # pre"] exI [of _ dir] exI [of _ post]) simp
    qed
    show ?thesis
    proof (cases "discover_in dirs w")
      case (Inl e)
      with Cons ext [of "\<lambda>dir. \<not> utf8_valid dir"] show ?thesis unfolding eq by simp
    next
      case (Inr found)
      show ?thesis
      proof (cases found)
        case None
        with Inr Cons skip show ?thesis unfolding eq by simp
      next
        case (Some p)
        with Inr Cons ext [of "\<lambda>dir. p = join_path dir ''pg_worker'' \<and> usable_worker w dir"]
        show ?thesis unfolding eq by simp
      qed
    qed
  qed
qed simp

end
