(* ===== verification/Worker_Process.thy ===== *)
theory Worker_Process
  imports Bootstrap_Env
begin

text \<open>
  Running the worker as a subprocess: the payload it is given (\<open>src/src/worker.rs\<close>), the command, its
  timeout and its output (\<open>src/src/worker_process/mod.rs\<close>, \<open>output.rs\<close>), and giving up the
  privileges before it is executed (\<open>privileges.rs\<close>). The serialisation is that of \<open>serde\<close>, the
  temporary file that of \<open>tempfile\<close>, and what the child process does is not the sources' doing: all
  three are parameters.
\<close>

section \<open>The payload\<close>

record settings_snapshot =
  sn_releases_url :: string
  sn_version :: string
  sn_installation_dir :: pathbuf
  sn_password_file :: pathbuf
  sn_data_dir :: pathbuf
  sn_host :: string
  sn_port :: nat
  sn_username :: string
  sn_password :: string
  sn_temporary :: bool
  sn_timeout_secs :: "duration option"
  sn_configuration :: "string \<rightharpoonup> string"
  sn_trust_installation_dir :: bool
  sn_socket_dir :: "pathbuf option"

record worker_payload =
  wp_settings :: settings_snapshot
  wp_environment :: env_vars

definition utf8_path :: "string \<Rightarrow> pathbuf \<Rightarrow> bootstrap_error + pathbuf" where
  "utf8_path message p = (if utf8_valid p then Inr p else Inl (bootstrap_msg message))"

definition snapshot_from :: "settings \<Rightarrow> bootstrap_error + settings_snapshot" where
  "snapshot_from s =
     try_res (utf8_path ''installation_dir must be valid UTF-8'' (st_installation_dir s)) (\<lambda>installation_dir.
     try_res (utf8_path ''password_file must be valid UTF-8'' (st_password_file s)) (\<lambda>password_file.
     try_res (utf8_path ''data_dir must be valid UTF-8'' (st_data_dir s)) (\<lambda>data_dir.
     try_res (case st_socket_dir s of
         None \<Rightarrow> Inr None
       | Some d \<Rightarrow> map_sum id Some (utf8_path ''socket_dir must be valid UTF-8'' d)) (\<lambda>socket_dir.
     Inr \<lparr>sn_releases_url = st_releases_url s, sn_version = st_version s,
          sn_installation_dir = installation_dir, sn_password_file = password_file, sn_data_dir = data_dir,
          sn_host = st_host s, sn_port = st_port s, sn_username = st_username s, sn_password = st_password s,
          sn_temporary = st_temporary s, sn_timeout_secs = st_timeout s,
          sn_configuration = st_configuration s, sn_trust_installation_dir = st_trust_installation_dir s,
          sn_socket_dir = socket_dir\<rparr>))))"

definition into_settings :: "settings_snapshot \<Rightarrow> settings" where
  "into_settings sn =
     \<lparr>st_releases_url = sn_releases_url sn, st_version = sn_version sn,
      st_installation_dir = sn_installation_dir sn, st_password_file = sn_password_file sn,
      st_data_dir = sn_data_dir sn, st_host = sn_host sn, st_port = sn_port sn,
      st_username = sn_username sn, st_password = sn_password sn, st_temporary = sn_temporary sn,
      st_timeout = sn_timeout_secs sn, st_configuration = sn_configuration sn,
      st_trust_installation_dir = sn_trust_installation_dir sn, st_socket_dir = sn_socket_dir sn\<rparr>"

definition payload_new :: "settings \<Rightarrow> env_vars \<Rightarrow> bootstrap_error + worker_payload" where
  "payload_new s environment =
     try_res (snapshot_from s) (\<lambda>sn. Inr \<lparr>wp_settings = sn, wp_environment = environment\<rparr>)"

section \<open>Output\<close>

record proc_output =
  out_success :: bool
  out_stdout :: string
  out_stderr :: string

definition output_char_limit :: nat where "output_char_limit = 2048"

text \<open>An ellipsis (U+2026) and a note.\<close>

definition truncation_suffix :: string where
  "truncation_suffix = bytes [226, 128, 166] @ '' [truncated]''"

definition truncate_output :: "string \<Rightarrow> string" where
  "truncate_output text =
     (let chars = utf8_chars text in
      if length chars \<le> output_char_limit then text
      else concat (take output_char_limit chars) @ truncation_suffix)"

definition newline :: string where "newline = [CHR 0x0A]"

definition render_failure :: "(string \<Rightarrow> string) \<Rightarrow> string \<Rightarrow> proc_output \<Rightarrow> bootstrap_error" where
  "render_failure lossy context_text out =
     bootstrap_msg (context_text @ newline @ ''stdout: '' @ truncate_output (lossy (out_stdout out))
       @ newline @ ''stderr: '' @ truncate_output (lossy (out_stderr out)))"

text \<open>Both reports in one; \<open>show_report\<close> is how a report prints.\<close>

definition combine_errors :: "(report \<Rightarrow> string) \<Rightarrow> bootstrap_error \<Rightarrow> bootstrap_error \<Rightarrow> bootstrap_error" where
  "combine_errors show_report primary cleanup =
     bootstrap_msg (show_report (be_report primary) @ newline
       @ ''Secondary failure whilst removing worker payload: '' @ show_report (be_report cleanup))"

definition append_error_context :: "string \<Rightarrow> string \<Rightarrow> string \<Rightarrow> string" where
  "append_error_context message detail err = message @ ''; '' @ detail @ '': '' @ err"

section \<open>Giving up privileges\<close>

text \<open>The identity the child will run with. The kernel lets only the superuser change it freely.\<close>

record credentials =
  cr_uid :: nat
  cr_gid :: nat
  cr_groups :: "nat list"

definition setgroups :: "nat list \<Rightarrow> credentials \<Rightarrow> io_kind + credentials" where
  "setgroups gs c = (if cr_uid c = 0 then Inr (c\<lparr>cr_groups := gs\<rparr>) else Inl PermissionDenied)"

definition setgid :: "nat \<Rightarrow> credentials \<Rightarrow> io_kind + credentials" where
  "setgid g c = (if cr_uid c = 0 \<or> cr_gid c = g then Inr (c\<lparr>cr_gid := g\<rparr>) else Inl PermissionDenied)"

definition setuid :: "nat \<Rightarrow> credentials \<Rightarrow> io_kind + credentials" where
  "setuid u c = (if cr_uid c = 0 \<or> cr_uid c = u then Inr (c\<lparr>cr_uid := u\<rparr>) else Inl PermissionDenied)"

text \<open>The closure of \<open>configure_pre_exec\<close>.\<close>

definition pre_exec :: "nat \<Rightarrow> nat \<Rightarrow> credentials \<Rightarrow> io_kind + credentials" where
  "pre_exec uid gid c =
     try_res (setgroups [] c) (\<lambda>c. try_res (setgid gid c) (\<lambda>c. setuid uid c))"

record command =
  cmd_program :: pathbuf
  cmd_args :: "pathbuf list"
  cmd_pre_exec :: "(nat \<times> nat) option"

definition resolve_nobody_ids :: "'h ext \<Rightarrow> world \<Rightarrow> bootstrap_error + (nat \<times> nat)" where
  "resolve_nobody_ids X w =
     (case nix_user_from_name X ''nobody'' w of
        Inl k \<Rightarrow> Inl (bootstrap_from_report (Ctx ''failed to resolve user 'nobody' '' (Msg ''errno'')))
      | Inr None \<Rightarrow> Inl (bootstrap_msg ''user 'nobody' not found'')
      | Inr (Some u) \<Rightarrow> Inr (us_uid u, us_gid u))"

definition chown_payload :: "'h ext \<Rightarrow> path \<Rightarrow> nat \<Rightarrow> nat \<Rightarrow> world \<Rightarrow> (bootstrap_error + unit) \<times> world" where
  "chown_payload X p uid gid w =
     map_err_st (\<lambda>k. bootstrap_from_report (Ctx ''failed to chown worker payload to nobody'' (IoErr k)))
       (nix_chown X p uid gid w)"

definition apply_privilege_drop ::
  "'h ext \<Rightarrow> path \<Rightarrow> command \<Rightarrow> world \<Rightarrow> (bootstrap_error + command) \<times> world" where
  "apply_privilege_drop X payload_path command w =
     try_st (resolve_nobody_ids X w, w) (\<lambda>(uid, gid) w.
     try_st (chown_payload X payload_path uid gid w) (\<lambda>_ w.
     (Inr (command\<lparr>cmd_pre_exec := Some (uid, gid)\<rparr>), w)))"

text \<open>\<open>apply\<close>: the counter of the guards that disable the drop, read when the command is built.\<close>

definition apply_privileges ::
  "'h ext \<Rightarrow> nat \<Rightarrow> path \<Rightarrow> command \<Rightarrow> world \<Rightarrow> (bootstrap_error + command) \<times> world" where
  "apply_privileges X skip_privilege_drop payload_path command w =
     (if skip_privilege_drop > 0 then (Inr command, w)
      else apply_privilege_drop X payload_path command w)"

definition disable_privilege_drop :: "nat \<Rightarrow> nat" where "disable_privilege_drop n = n + 1"

text \<open>\<open>saturating_sub\<close>.\<close>

definition decrement_skip_privilege_drop :: "nat \<Rightarrow> nat" where "decrement_skip_privilege_drop n = n - 1"

section \<open>The process\<close>

record worker_request =
  wr_worker :: pathbuf
  wr_settings :: settings
  wr_env_vars :: env_vars
  wr_operation :: worker_operation
  wr_timeout :: duration

text \<open>
  The calls on the payload file and the child: a temporary file with the encoded payload, its removal,
  \<open>spawn\<close>, \<open>wait_timeout\<close> (\<open>None\<close> when the time is over), \<open>kill\<close>, and collecting the output, which waits
  for the end of the child. All may change the world.
\<close>

record 'c process_api =
  pa_lossy :: "string \<Rightarrow> string"
  pa_show_report :: "report \<Rightarrow> string"
  pa_show_io :: "io_kind \<Rightarrow> string"
  pa_write_temp :: "worker_payload \<Rightarrow> world \<Rightarrow> (report + path) \<times> world"
  pa_remove_temp :: "path \<Rightarrow> world \<Rightarrow> (io_kind + unit) \<times> world"
  pa_path_text :: "path \<Rightarrow> pathbuf"
  pa_spawn :: "command \<Rightarrow> world \<Rightarrow> (io_kind + 'c) \<times> world"
  pa_wait_timeout :: "'c \<Rightarrow> duration \<Rightarrow> world \<Rightarrow> (io_kind + bool option) \<times> world"
  pa_kill :: "'c \<Rightarrow> world \<Rightarrow> (io_kind + unit) \<times> world"
  pa_wait_output :: "'c \<Rightarrow> world \<Rightarrow> (io_kind + proc_output) \<times> world"

type_synonym 'a boot_run = "(bootstrap_error + 'a) \<times> world"

definition write_payload :: "'c process_api \<Rightarrow> worker_request \<Rightarrow> world \<Rightarrow> path boot_run" where
  "write_payload P rq w =
     try_st (payload_new (wr_settings rq) (wr_env_vars rq), w) (\<lambda>payload w.
       map_err_st bootstrap_from_report (pa_write_temp P payload w))"

definition configure_command ::
  "'h ext \<Rightarrow> nat \<Rightarrow> 'c process_api \<Rightarrow> worker_request \<Rightarrow> path \<Rightarrow> world \<Rightarrow> command boot_run" where
  "configure_command X skip P rq payload_path w =
     apply_privileges X skip payload_path
       \<lparr>cmd_program = wr_worker rq, cmd_args = [op_as_str (wr_operation rq), pa_path_text P payload_path],
        cmd_pre_exec = None\<rparr> w"

definition handle_wait_error :: "'c process_api \<Rightarrow> 'c \<Rightarrow> io_kind \<Rightarrow> world \<Rightarrow> proc_output boot_run" where
  "handle_wait_error P child err w =
     (case pa_kill P child w of
        (kill_result, w1) \<Rightarrow>
          (case pa_wait_output P child w1 of
             (wait_result, w2) \<Rightarrow>
               let m0 = ''failed to wait for worker command: '' @ pa_show_io P err;
                   m1 = (case kill_result of Inr _ \<Rightarrow> m0
                         | Inl k \<Rightarrow> append_error_context m0 ''additionally failed to terminate worker'' (pa_show_io P k));
                   m2 = (case wait_result of Inr _ \<Rightarrow> m1
                         | Inl k \<Rightarrow> append_error_context m1 ''additionally failed to reap worker output'' (pa_show_io P k))
               in (Inl (bootstrap_msg m2), w2)))"

definition as_secs :: "duration \<Rightarrow> nat" where "as_secs d = d div 1000000000"

definition handle_timeout :: "'c process_api \<Rightarrow> duration \<Rightarrow> 'c \<Rightarrow> world \<Rightarrow> unit boot_run" where
  "handle_timeout P timeout child w =
     (case pa_kill P child w of
        (Inr _, w1) \<Rightarrow> (Inr (), w1)
      | (Inl k, w1) \<Rightarrow> if k = InvalidInput then (Inr (), w1)
                       else (Inl (bootstrap_msg (''failed to terminate worker after '' @ show_nat (as_secs timeout) @ ''s: '' @
                                pa_show_io P k)), w1))"

definition run_command_with_timeout ::
  "'c process_api \<Rightarrow> worker_request \<Rightarrow> command \<Rightarrow> world \<Rightarrow> proc_output boot_run" where
  "run_command_with_timeout P rq command w =
     (case pa_spawn P command w of
        (Inl k, w1) \<Rightarrow> (Inl (bootstrap_from_report (Ctx ''failed to spawn worker command'' (IoErr k))), w1)
      | (Inr child, w1) \<Rightarrow>
          (case pa_wait_timeout P child (wr_timeout rq) w1 of
             (Inl err, w2) \<Rightarrow> handle_wait_error P child err w2
           | (Inr wait_result, w2) \<Rightarrow>
               let timed_out = (wait_result = None) in
               try_st (if timed_out then handle_timeout P (wr_timeout rq) child w2 else (Inr (), w2)) (\<lambda>_ w3.
               try_st (map_err_st (\<lambda>k. bootstrap_from_report (Ctx ''failed to collect worker output'' (IoErr k)))
                        (pa_wait_output P child w3)) (\<lambda>out w4.
               if timed_out then
                 (Inl (render_failure (pa_lossy P)
                    (op_error_context (wr_operation rq) @ '' timed out after '' @ show_nat (as_secs (wr_timeout rq)) @ ''s'')
                    out), w4)
               else (Inr out, w4)))))"

definition close_payload :: "'c process_api \<Rightarrow> path \<Rightarrow> world \<Rightarrow> unit boot_run" where
  "close_payload P payload_path w =
     map_err_st (\<lambda>k. bootstrap_from_report (Ctx ''failed to clean up worker payload file'' (IoErr k)))
       (pa_remove_temp P payload_path w)"

definition run_worker_command ::
  "'c process_api \<Rightarrow> worker_request \<Rightarrow> path \<Rightarrow> command \<Rightarrow> world \<Rightarrow> proc_output boot_run" where
  "run_worker_command P rq payload_path command w =
     (case run_command_with_timeout P rq command w of
        (run_result, w1) \<Rightarrow>
          (case close_payload P payload_path w1 of
             (cleanup_result, w2) \<Rightarrow>
               (case (run_result, cleanup_result) of
                  (Inr out, Inr _) \<Rightarrow> Inr out
                | (Inl err, Inr _) \<Rightarrow> Inl err
                | (Inr _, Inl err) \<Rightarrow> Inl err
                | (Inl run_err, Inl cleanup_err) \<Rightarrow> Inl (combine_errors (pa_show_report P) run_err cleanup_err), w2)))"

definition handle_exit :: "(string \<Rightarrow> string) \<Rightarrow> worker_operation \<Rightarrow> proc_output \<Rightarrow> bootstrap_error + unit" where
  "handle_exit lossy operation out =
     (if out_success out then Inr () else Inl (render_failure lossy (op_error_context operation) out))"

text \<open>The whole run. When the command cannot be configured the path of the temporary file goes out of
  scope, which removes the file without a word if that fails.\<close>

definition run_process ::
  "'h ext \<Rightarrow> nat \<Rightarrow> 'c process_api \<Rightarrow> worker_request \<Rightarrow> world \<Rightarrow> unit boot_run" where
  "run_process X skip P rq w =
     try_st (write_payload P rq w) (\<lambda>payload_path w1.
       case configure_command X skip P rq payload_path w1 of
         (Inl e, w2) \<Rightarrow> (Inl e, snd (pa_remove_temp P payload_path w2))
       | (Inr command, w2) \<Rightarrow>
           try_st (run_worker_command P rq payload_path command w2) (\<lambda>out w3.
             (handle_exit (pa_lossy P) (wr_operation rq) out, w3)))"

section \<open>Properties\<close>

definition path_fields :: "settings \<Rightarrow> (string \<times> pathbuf) list" where
  "path_fields s =
     [(''installation_dir'', st_installation_dir s), (''password_file'', st_password_file s),
      (''data_dir'', st_data_dir s)] @
     (case st_socket_dir s of None \<Rightarrow> [] | Some d \<Rightarrow> [(''socket_dir'', d)])"

text \<open>
  Snapshotting the settings loses nothing, and it is refused exactly when a path is not UTF-8; the
  error names the first such field.
\<close>

theorem snapshot_round_trip:
  "case payload_new s environment of
     Inr payload \<Rightarrow> into_settings (wp_settings payload) = s \<and> wp_environment payload = environment \<and>
       find (\<lambda>(_, p). \<not> utf8_valid p) (path_fields s) = None
   | Inl err \<Rightarrow> (\<exists>field p. find (\<lambda>(_, p). \<not> utf8_valid p) (path_fields s) = Some (field, p) \<and>
       err = bootstrap_msg (field @ '' must be valid UTF-8''))"
  by (simp add: payload_new_def snapshot_from_def into_settings_def utf8_path_def path_fields_def
      split: option.split)

text \<open>
  C31. Output quoted in an error is bounded: up to 2,048 characters it is kept as it is, beyond that it is
  the first 2,048 characters and the note that it was cut. Valid UTF-8 stays valid: a character is
  never split.
\<close>

theorem truncate_output_bounded:
  assumes "utf8_valid text"
  shows "utf8_valid (truncate_output text) \<and>
    (if length (utf8_chars text) \<le> 2048 then truncate_output text = text
     else \<exists>kept cut. text = kept @ cut \<and> cut \<noteq> [] \<and> utf8_valid kept \<and>
       utf8_chars kept = take 2048 (utf8_chars text) \<and>
       truncate_output text = kept @ truncation_suffix)"
proof (cases "length (utf8_chars text) \<le> 2048")
  case True
  with assms show ?thesis by (simp add: truncate_output_def output_char_limit_def)
next
  case False
  let ?kept = "concat (take 2048 (utf8_chars text))"
  have t: "truncate_output text = ?kept @ truncation_suffix"
    using False by (simp add: truncate_output_def output_char_limit_def)
  have k: "utf8_valid ?kept \<and> utf8_chars ?kept = take 2048 (utf8_chars text)"
    by (rule utf8_take_chars [OF assms])
  have suffix: "utf8_valid truncation_suffix"
    by (simp add: truncation_suffix_def bytes_def is_cont_def byte_def)
  have split: "text = ?kept @ concat (drop 2048 (utf8_chars text))"
    by (metis append_take_drop_id concat_append concat_utf8_chars)
  have "drop 2048 (utf8_chars text) \<noteq> []" using False by simp
  then have "concat (drop 2048 (utf8_chars text)) \<noteq> []"
    using utf8_chars_nonempty by (metis concat_eq_Nil_conv in_set_dropD last_in_set)
  with k t split False suffix show ?thesis by (auto intro: utf8_valid_append simp del: utf8_valid.simps)
qed

theorem truncate_output_bounded_witness:
  "truncate_output (bytes [226, 130, 172]) = bytes [226, 130, 172]"
  using truncate_output_bounded [of "bytes [226, 130, 172]"]
  by (simp add: bytes_def is_cont_def byte_def)

lemma try_st_err: "try_st m k = (Inl e, w) \<Longrightarrow> fst m = Inl e \<and> snd m = w \<or> (\<exists>x w1. m = (Inr x, w1) \<and> k x w1 = (Inl e, w))"
  by (cases m; cases "fst m") auto

text \<open>
  C5. The worker of a root process runs as nobody. Unless a guard has disabled it, a command is only handed
  out once the payload belongs to nobody; before the program is executed the child has exactly
  nobody's uid and gid and no other group; the child of a process that is not root is not started at
  all; and there is no way back.
\<close>

theorem worker_runs_as_nobody:
  assumes "configure_command X 0 P rq payload_path w = (Inr command, w')"
  shows "\<exists>uid gid. resolve_nobody_ids X w = Inr (uid, gid) \<and>
    nix_chown X payload_path uid gid w = (Inr (), w') \<and>
    cmd_pre_exec command = Some (uid, gid) \<and>
    (\<forall>c. pre_exec uid gid c =
       (if cr_uid c = 0 then Inr \<lparr>cr_uid = uid, cr_gid = gid, cr_groups = []\<rparr> else Inl PermissionDenied)) \<and>
    (uid \<noteq> 0 \<longrightarrow> (\<forall>c c' u. pre_exec uid gid c = Inr c' \<longrightarrow>
       setuid u c' = (if u = uid then Inr c' else Inl PermissionDenied)))"
proof -
  obtain uid gid where ids: "resolve_nobody_ids X w = Inr (uid, gid)"
    and chown: "nix_chown X payload_path uid gid w = (Inr (), w')"
    and pre: "cmd_pre_exec command = Some (uid, gid)"
    using assms
    by (auto simp: configure_command_def apply_privileges_def apply_privilege_drop_def chown_payload_def try_st_Inr)
  have exec: "pre_exec uid gid c =
      (if cr_uid c = 0 then Inr \<lparr>cr_uid = uid, cr_gid = gid, cr_groups = []\<rparr> else Inl PermissionDenied)" for c
    by (simp add: pre_exec_def setgroups_def setgid_def setuid_def)
  from ids chown pre exec show ?thesis by (auto simp: setuid_def split: if_splits)
qed

text \<open>The payload is the last thing to go.\<close>

lemma run_worker_command_removes:
  "\<exists>w1. snd (run_worker_command P rq p c w) = snd (pa_remove_temp P p w1) \<and>
     (is_ok (fst (run_worker_command P rq p c w)) \<longrightarrow>
       fst (pa_remove_temp P p w1) = Inr () \<and>
       run_command_with_timeout P rq c w = (fst (run_worker_command P rq p c w), w1))"
proof -
  obtain rr w1 where 1: "run_command_with_timeout P rq c w = (rr, w1)" by fastforce
  obtain cr w2 where 2: "pa_remove_temp P p w1 = (cr, w2)" by fastforce
  show ?thesis
    by (rule exI [of _ w1]) (cases rr; cases cr; simp add: run_worker_command_def close_payload_def 1 2)
qed

text \<open>What is relied on: a removal that succeeds removes the file.\<close>

definition temp_removed :: "'c process_api \<Rightarrow> bool" where
  "temp_removed P \<longleftrightarrow> (\<forall>p w w'. pa_remove_temp P p w = (Inr (), w') \<longrightarrow> entry w' p = None)"


text \<open>A process that does as it is told: the payload is a file \<open>/payload\<close>, the child does nothing.\<close>

definition calm_process :: "bool option \<Rightarrow> unit process_api" where
  "calm_process status =
     \<lparr>pa_lossy = id, pa_show_report = (\<lambda>_. ''report''), pa_show_io = (\<lambda>_. ''error''),
      pa_write_temp = (\<lambda>_ w. (Inr [RootDir, Normal ''payload''],
        put_entry [RootDir, Normal ''payload''] \<lparr>nd_kind = KFile [], nd_mode = 384, nd_uid = 0, nd_gid = 0\<rparr> w)),
      pa_remove_temp = (\<lambda>p w. (Inr (), drop_entries (\<lambda>q. q = p) w)),
      pa_path_text = (\<lambda>_. ''/payload''),
      pa_spawn = (\<lambda>_ w. (Inr (), w)), pa_wait_timeout = (\<lambda>_ _ w. (Inr status, w)),
      pa_kill = (\<lambda>_ w. (Inr (), w)),
      pa_wait_output = (\<lambda>_ w. (Inr \<lparr>out_success = True, out_stdout = [], out_stderr = []\<rparr>, w))\<rparr>"

definition plain_settings :: settings where
  "plain_settings =
     \<lparr>st_releases_url = [], st_version = ''=17.4.0'', st_installation_dir = ''/i'', st_password_file = ''/i/.pgpass'',
      st_data_dir = ''/d'', st_host = ''localhost'', st_port = 5433, st_username = ''postgres'', st_password = ''secret'',
      st_temporary = True, st_timeout = None, st_configuration = Map.empty,
      st_trust_installation_dir = False, st_socket_dir = None\<rparr>"

definition plain_request :: worker_request where
  "plain_request = \<lparr>wr_worker = ''/bin/pg_worker'', wr_settings = plain_settings, wr_env_vars = [],
     wr_operation = OpSetup, wr_timeout = from_secs 180\<rparr>"

definition empty_world :: world where
  "empty_world = \<lparr>w_fs = [], w_cwd = [RootDir], w_env = Map.empty, w_euid = 0, w_faults = (\<lambda>_. None),
     w_residue = (\<lambda>_. [])\<rparr>"

lemma calm_temp_removed: "temp_removed (calm_process status)"
  by (simp add: temp_removed_def calm_process_def)

lemma plain_paths: "utf8_valid ''/i''" "utf8_valid ''/d''" "utf8_valid ''/i/.pgpass''"
  by (simp_all add: byte_def)

lemma plain_payload:
  "write_payload (calm_process status) plain_request w =
     (Inr [RootDir, Normal ''payload''],
      put_entry [RootDir, Normal ''payload''] \<lparr>nd_kind = KFile [], nd_mode = 384, nd_uid = 0, nd_gid = 0\<rparr> w)"
  by (simp add: write_payload_def payload_new_def snapshot_from_def utf8_path_def plain_request_def
      plain_settings_def calm_process_def plain_paths del: utf8_valid.simps)

lemma plain_command:
  "fst (configure_command posix_ext 0 (calm_process status) plain_request [RootDir, Normal ''payload'']
     (put_entry [RootDir, Normal ''payload''] \<lparr>nd_kind = KFile [], nd_mode = 384, nd_uid = 0, nd_gid = 0\<rparr> empty_world)) =
   Inr \<lparr>cmd_program = ''/bin/pg_worker'', cmd_args = [''setup'', ''/payload''], cmd_pre_exec = Some (65534, 65534)\<rparr>"
  by (simp add: configure_command_def apply_privileges_def apply_privilege_drop_def resolve_nobody_ids_def
      chown_payload_def posix_ext_def posix_update_def node_of_def resolve_def empty_world_def entry_at_def
      plain_request_def calm_process_def)

theorem worker_runs_as_nobody_witness:
  "\<exists>uid gid. pre_exec uid gid \<lparr>cr_uid = 0, cr_gid = 0, cr_groups = [0, 4]\<rparr> =
     Inr \<lparr>cr_uid = uid, cr_gid = gid, cr_groups = []\<rparr> \<and> resolve_nobody_ids posix_ext empty_world = Inr (uid, gid)"
proof -
  let ?w = "put_entry [RootDir, Normal ''payload''] \<lparr>nd_kind = KFile [], nd_mode = 384, nd_uid = 0, nd_gid = 0\<rparr> empty_world"
  obtain command w' where "configure_command posix_ext 0 (calm_process None) plain_request [RootDir, Normal ''payload''] ?w =
      (Inr command, w')"
    using plain_command by (metis prod.collapse)
  from worker_runs_as_nobody [OF this] show ?thesis by (auto simp: resolve_nobody_ids_def posix_ext_def)
qed


text \<open>
  A run succeeds exactly when everything does: the payload is written, the command configured, the
  worker started, over within its timeout and collected, the payload removed, and the exit status is
  that of a success. In every other case there is an error.
\<close>

theorem run_succeeds_iff:
  "run_process X skip P rq w = (Inr (), w') \<longleftrightarrow>
     (\<exists>p w1 command w2 child w3 status w4 out w5.
        write_payload P rq w = (Inr p, w1) \<and>
        configure_command X skip P rq p w1 = (Inr command, w2) \<and>
        pa_spawn P command w2 = (Inr child, w3) \<and>
        pa_wait_timeout P child (wr_timeout rq) w3 = (Inr (Some status), w4) \<and>
        pa_wait_output P child w4 = (Inr out, w5) \<and>
        pa_remove_temp P p w5 = (Inr (), w') \<and> out_success out)"
proof -
  have collected: "run_command_with_timeout P rq command w2 = (Inr out, w5) \<longleftrightarrow>
      (\<exists>child w3 status w4. pa_spawn P command w2 = (Inr child, w3) \<and>
        pa_wait_timeout P child (wr_timeout rq) w3 = (Inr (Some status), w4) \<and>
        pa_wait_output P child w4 = (Inr out, w5))" for command w2 out w5
    by (auto simp: run_command_with_timeout_def handle_wait_error_def try_st_Inr Let_def
        split: prod.splits sum.splits if_splits)
  have removed: "run_worker_command P rq p command w2 = (Inr out, v) \<longleftrightarrow>
      (\<exists>w5. run_command_with_timeout P rq command w2 = (Inr out, w5) \<and> pa_remove_temp P p w5 = (Inr (), v))"
    for p command w2 out v
    by (auto simp: run_worker_command_def close_payload_def split: prod.splits sum.splits)
  have configured: "(case configure_command X skip P rq p w1 of
        (Inl e, w2) \<Rightarrow> (Inl e, snd (pa_remove_temp P p w2)) | (Inr command, w2) \<Rightarrow> k command w2) = (Inr (), w') \<longleftrightarrow>
      (\<exists>command w2. configure_command X skip P rq p w1 = (Inr command, w2) \<and> k command w2 = (Inr (), w'))"
    for p w1 and k :: "command \<Rightarrow> world \<Rightarrow> unit boot_run"
    by (auto split: prod.split sum.split)
  have exit: "handle_exit lossy oper out = Inr () \<longleftrightarrow> out_success out" for lossy oper out
    by (simp add: handle_exit_def)
  show ?thesis
    unfolding run_process_def try_st_Inr configured removed collected prod.inject exit
    by (rule iffI; elim exE conjE; hypsubst?; intro exI conjI; assumption?; rule refl)
qed

end
