(* ===== verification/Cleanup.thy ===== *)
theory Cleanup
  imports Types
begin

text \<open>
  Removal of the directories of a cluster: the guarded \<open>try_remove_dir_all\<close> of
  \<open>src/src/cleanup_helpers.rs\<close> and its two users, the in-process cleanup of
  \<open>src/src/cluster/cleanup.rs\<close>, which only warns about a failure, and the cleanup operations of the
  worker in \<open>src/src/bin/pg_worker.rs\<close> and \<open>src/src/bin/pg_worker/removal.rs\<close>, which report it.

  Both users rely on the same promises about a removal, stated as the locale \<open>guarded_removal\<close>: an
  unsafe path is refused before anything is touched, only the tree the path leads to can change,
  and after a success nothing is there. The model of \<open>try_remove_dir_all\<close> provides them.
\<close>

section \<open>The guarded removal\<close>

datatype removal_outcome = Removed | Missing

definition guard_removal_path :: "path \<Rightarrow> io_kind + unit" where
  "guard_removal_path p =
     (if is_empty_or_root p \<or> has_parent_dir p then Inl InvalidInput else Inr ())"

definition try_remove_dir_all :: "path \<Rightarrow> removal_outcome io" where
  "try_remove_dir_all p w =
     (case guard_removal_path p of
        Inl k \<Rightarrow> (Inl k, w)
      | Inr _ \<Rightarrow>
          (case remove_dir_all p w of
             (Inr _, w') \<Rightarrow> (Inr Removed, w')
           | (Inl k, w') \<Rightarrow> if k = NotFound then (Inr Missing, w') else (Inl k, w')))"

text \<open>Whether a path leads to something, without following a last link.\<close>

definition there :: "world \<Rightarrow> path \<Rightarrow> bool" where
  "there w p \<longleftrightarrow> is_ok (node_of False w p)"

definition tree_of :: "world \<Rightarrow> path \<Rightarrow> path set" where
  "tree_of w p = (case resolve False w p of Inl _ \<Rightarrow> {} | Inr q \<Rightarrow> {r. prefix q r})"

locale guarded_removal =
  fixes remove :: "path \<Rightarrow> 'w \<Rightarrow> (io_kind + removal_outcome) \<times> 'w"
    and at :: "'w \<Rightarrow> path \<Rightarrow> 'n option"
    and reach :: "'w \<Rightarrow> path \<Rightarrow> bool"
    and scope :: "'w \<Rightarrow> path \<Rightarrow> path set"
  assumes refuses: "is_empty_or_root p \<or> has_parent_dir p \<Longrightarrow> remove p w = (Inl InvalidInput, w)"
    and confined: "at (snd (remove p w)) q = at w q \<or> (q \<in> scope w p \<and> at (snd (remove p w)) q = None)"
    and gone: "wf_path p \<Longrightarrow> remove p w = (Inr r, w') \<Longrightarrow> \<not> reach w' p"
    and missing_same: "\<not> reach w p \<Longrightarrow> snd (remove p w) = w"
    and scope_shrinks: "scope (snd (remove p w)) q \<subseteq> scope w q \<union> scope w p"
    and stays_gone: "\<not> reach w q \<Longrightarrow> \<not> reach (snd (remove p w)) q"
begin

lemma only_shrinks: "at (snd (remove p w)) q = None \<or> at (snd (remove p w)) q = at w q"
  using confined by metis

text \<open>Removing a list of paths in turn and ignoring errors, as both users do.\<close>

definition sweep :: "path list \<Rightarrow> 'w \<Rightarrow> 'w" where
  "sweep ps w = fold (\<lambda>p w. snd (remove p w)) ps w"

lemma sweep_simps: "sweep [] w = w" "sweep (p # ps) w = sweep ps (snd (remove p w))"
  by (simp_all add: sweep_def)

lemma sweep_shrinks: "at (sweep ps w) q = None \<or> at (sweep ps w) q = at w q"
proof (induction ps arbitrary: w)
  case (Cons p ps)
  from Cons.IH [of "snd (remove p w)"] only_shrinks [of p w q]
  show ?case unfolding sweep_simps by metis
qed (simp add: sweep_simps)

lemma sweep_confined: "at (sweep ps w) q \<noteq> at w q \<Longrightarrow> q \<in> (\<Union>p\<in>set ps. scope w p)"
proof (induction ps arbitrary: w)
  case (Cons p ps)
  let ?w = "snd (remove p w)"
  show ?case
  proof (cases "at ?w q = at w q")
    case True
    with Cons.prems have "at (sweep ps ?w) q \<noteq> at ?w q" by (simp add: sweep_simps)
    from Cons.IH [OF this] obtain r where "r \<in> set ps" "q \<in> scope ?w r" by blast
    with scope_shrinks [of p w r] show ?thesis by auto
  next
    case False
    with confined [of p w q] show ?thesis by auto
  qed
qed (simp add: sweep_simps)

lemma sweep_stays_gone: "\<not> reach w q \<Longrightarrow> \<not> reach (sweep ps w) q"
  by (induction ps arbitrary: w) (simp_all add: sweep_simps stays_gone)

lemma sweep_gone:
  "\<forall>p\<in>set ps. \<not> reach w p \<Longrightarrow> sweep ps w = w"
  by (induction ps) (simp_all add: sweep_simps missing_same)

lemma sweep_unsafe: "list_all (\<lambda>p. is_empty_or_root p \<or> has_parent_dir p) ps \<Longrightarrow> sweep ps w = w"
  by (induction ps) (auto simp: sweep_simps refuses)

end

subsection \<open>The model provides the contract\<close>

lemma resolve_drop:
  "resolve f (drop_entries P w) p = resolve f w p \<or> resolve f (drop_entries P w) p = Inl NotFound \<or>
     (\<exists>q. resolve f (drop_entries P w) p = Inr q \<and> P q \<and> q \<noteq> [RootDir])"
  using walk_drop [of "entry (drop_entries P w)" P "entry w" f 40 "w_cwd w" p] by (auto simp: resolve_def)

lemma drop_stays_gone:
  assumes "\<not> there w q"
  shows "\<not> there (drop_entries P w) q"
proof (cases "resolve False (drop_entries P w) q")
  case (Inl k)
  then show ?thesis by (simp add: there_def node_of_def)
next
  case (Inr r)
  from resolve_drop [of False P w q] Inr
  consider "resolve False w q = Inr r" | "P r" "r \<noteq> [RootDir]" by auto
  then have "entry_at (drop_entries P w) r = None"
  proof cases
    case 1
    with assms have "entry_at w r = None"
      by (auto simp: there_def node_of_def split: option.splits)
    then show ?thesis by (auto simp: entry_at_def split: if_splits)
  next
    case 2
    then show ?thesis by (simp add: entry_at_def)
  qed
  with Inr show ?thesis by (simp add: there_def node_of_def)
qed

lemma drop_not_there:
  assumes r: "resolve False w p = Inr t" and t: "t \<noteq> [RootDir]" and P: "P t"
  shows "\<not> there (drop_entries P w) p"
proof (cases "resolve False (drop_entries P w) p")
  case (Inl k)
  then show ?thesis by (simp add: there_def node_of_def)
next
  case (Inr q)
  with resolve_drop [of False P w p] r P t have "P q" "q \<noteq> [RootDir]" by auto
  with Inr show ?thesis by (simp add: there_def node_of_def entry_at_def)
qed

text \<open>What a removal does to the world is to drop some entries of the tree it was given.\<close>

lemma remove_dir_all_drops:
  "snd (remove_dir_all p w) = w \<or>
     (\<exists>t P. resolve False w p = Inr t \<and> snd (remove_dir_all p w) = drop_entries P w \<and>
        (\<forall>r. P r \<longrightarrow> prefix t r))"
proof (cases "node_of False w p")
  case (Inl k)
  then show ?thesis by (simp add: remove_dir_all_def)
next
  case (Inr qn)
  obtain t n where t: "qn = (t, n)" by (cases qn)
  from Inr t have r: "resolve False w p = Inr t"
    by (auto simp: node_of_def try_res_Inr split: option.splits)
  have "\<forall>r. snd (remove_effect w p t n) r \<longrightarrow> prefix t r"
    by (auto simp: remove_effect_def strict_prefix_def split: option.splits node_kind.splits)
  with r Inr t show ?thesis
    by (auto simp: remove_dir_all_def split: prod.splits)
qed

lemma snd_try_remove: "snd (try_remove_dir_all p w) = w \<or> snd (try_remove_dir_all p w) = snd (remove_dir_all p w)"
  by (auto simp: try_remove_dir_all_def split: sum.splits prod.splits)

lemma remove_dir_all_confined:
  "entry (snd (remove_dir_all p w)) q = entry w q \<or>
     (q \<in> tree_of w p \<and> entry (snd (remove_dir_all p w)) q = None)"
  using remove_dir_all_drops [of p w]
proof
  assume "\<exists>t P. resolve False w p = Inr t \<and> snd (remove_dir_all p w) = drop_entries P w \<and>
      (\<forall>r. P r \<longrightarrow> prefix t r)"
  then obtain t P where t: "resolve False w p = Inr t" "snd (remove_dir_all p w) = drop_entries P w"
    "\<forall>r. P r \<longrightarrow> prefix t r" by blast
  then show ?thesis by (cases "P q") (simp_all add: tree_of_def)
qed simp

lemma remove_dir_all_scope: "tree_of (snd (remove_dir_all p w)) q \<subseteq> tree_of w q \<union> tree_of w p"
  using remove_dir_all_drops [of p w]
proof
  assume "\<exists>t P. resolve False w p = Inr t \<and> snd (remove_dir_all p w) = drop_entries P w \<and>
      (\<forall>r. P r \<longrightarrow> prefix t r)"
  then obtain t P where t: "resolve False w p = Inr t" "snd (remove_dir_all p w) = drop_entries P w"
    "\<forall>r. P r \<longrightarrow> prefix t r" by blast
  from resolve_drop [of False P w q] t show ?thesis
    by (auto simp: tree_of_def dest: prefix_order.trans)
qed simp

lemma remove_dir_all_missing: "\<not> there w p \<Longrightarrow> \<exists>k. remove_dir_all p w = (Inl k, w)"
  by (auto simp: there_def remove_dir_all_def is_ok_def split: sum.splits)

lemma try_remove_missing: "\<not> there w p \<Longrightarrow> snd (try_remove_dir_all p w) = w"
  using remove_dir_all_missing [of w p]
  by (auto simp: try_remove_dir_all_def split: sum.splits)

lemma try_remove_gone:
  assumes "wf_path p" and "try_remove_dir_all p w = (Inr r, w')"
  shows "\<not> there w' p"
proof (cases "there w p")
  case False
  with try_remove_missing [of w p] assms(2) show ?thesis by simp
next
  case True
  from assms(2) have safe: "\<not> is_empty_or_root p" "\<not> has_parent_dir p"
    by (auto simp: try_remove_dir_all_def guard_removal_path_def split: if_splits)
  from guarded_path_last [OF assms(1) safe] obtain c m where p: "p = c @ [Normal m]" by blast
  from True obtain t n where tn: "node_of False w p = Inr (t, n)"
    by (cases "node_of False w p") (auto simp: there_def)
  then have r: "resolve False w p = Inr t" by (auto simp: node_of_def try_res_Inr split: option.splits)
  then have "walk (entry w) False 40 (w_cwd w) p = Inr t" using p by (simp add: resolve_def)
  then have "t \<noteq> [] \<and> last t = Normal m" by (rule walk_last) (simp_all add: p)
  then have t: "t \<noteq> [RootDir]" by auto
  have below: "\<not> there (drop_entries (\<lambda>r. prefix t r) w) p"
    by (rule drop_not_there [OF r t]) simp
  have alone: "\<not> there (drop_entries (\<lambda>r. r = t) w) p"
    by (rule drop_not_there [OF r t]) simp
  from assms(2) tn safe have
    "w' = drop_entries (\<lambda>r. prefix t r) w \<or> w' = drop_entries (\<lambda>r. r = t) w"
    by (auto simp: try_remove_dir_all_def guard_removal_path_def remove_dir_all_def remove_effect_def
        split: option.splits node_kind.splits if_splits)
  with below alone show ?thesis by blast
qed

interpretation removal: guarded_removal try_remove_dir_all entry there tree_of
proof
  fix p w q
  show "is_empty_or_root p \<or> has_parent_dir p \<Longrightarrow> try_remove_dir_all p w = (Inl InvalidInput, w)"
    by (auto simp: try_remove_dir_all_def guard_removal_path_def)
  show "entry (snd (try_remove_dir_all p w)) q = entry w q \<or>
      q \<in> tree_of w p \<and> entry (snd (try_remove_dir_all p w)) q = None"
    using remove_dir_all_confined [of p w q]
    by (auto simp: try_remove_dir_all_def split: sum.splits prod.splits)
  show "wf_path p \<Longrightarrow> try_remove_dir_all p w = (Inr r, w') \<Longrightarrow> \<not> there w' p" for r w'
    by (rule try_remove_gone)
  show "\<not> there w p \<Longrightarrow> snd (try_remove_dir_all p w) = w" by (rule try_remove_missing)
  show "tree_of (snd (try_remove_dir_all p w)) q \<subseteq> tree_of w q \<union> tree_of w p"
    using remove_dir_all_scope [of p w q] snd_try_remove [of p w] by fastforce
  show "\<not> there w q \<Longrightarrow> \<not> there (snd (try_remove_dir_all p w)) q"
    using remove_dir_all_drops [of p w] snd_try_remove [of p w] drop_stays_gone [of w q] by metis
qed

section \<open>In-process cleanup\<close>

datatype directory_label = DataLabel | InstallationLabel | InstallationRootLabel

fun label_as_str :: "directory_label \<Rightarrow> string" where
  "label_as_str DataLabel = ''data''"
| "label_as_str InstallationLabel = ''installation''"
| "label_as_str InstallationRootLabel = ''installation-root''"

text \<open>What the cleanup logs: a removal, a directory that was not there, or a failure it only warns
  about.\<close>

datatype cleanup_event =
  DirRemoved directory_label path | DirMissing directory_label path
| RemovalWarning directory_label path io_kind

definition remove_dir_all_if_exists :: "path \<Rightarrow> directory_label \<Rightarrow> world \<Rightarrow> cleanup_event \<times> world" where
  "remove_dir_all_if_exists p label w =
     (if is_dangerous_cleanup_path p then (RemovalWarning label p InvalidInput, w)
      else case try_remove_dir_all p w of
        (Inr Removed, w') \<Rightarrow> (DirRemoved label p, w')
      | (Inr Missing, w') \<Rightarrow> (DirMissing label p, w')
      | (Inl k, w') \<Rightarrow> (RemovalWarning label p k, w'))"

definition should_remove_data :: "cleanup_mode \<Rightarrow> bool" where
  "should_remove_data m \<longleftrightarrow> m = DataOnly \<or> m = Full"

definition should_remove_install :: "cleanup_mode \<Rightarrow> bool" where
  "should_remove_install m \<longleftrightarrow> m = Full"

fun cleanup_operation :: "cleanup_mode \<Rightarrow> worker_operation option" where
  "cleanup_operation DataOnly = Some OpCleanup"
| "cleanup_operation Full = Some OpCleanupFull"
| "cleanup_operation NoCleanup = None"

definition should_remove_install_root :: "path \<Rightarrow> settings \<Rightarrow> bool" where
  "should_remove_install_root parent s \<longleftrightarrow>
     parent \<noteq> components (st_installation_dir s) \<and> \<not> has_parent_dir parent \<and>
     starts_with parent (components (st_installation_dir s))"

definition cleanup_data_dir :: "cleanup_mode \<Rightarrow> settings \<Rightarrow> world \<Rightarrow> cleanup_event list \<times> world" where
  "cleanup_data_dir m s w =
     (if should_remove_data m then
        (case remove_dir_all_if_exists (components (st_data_dir s)) DataLabel w of (e, w') \<Rightarrow> ([e], w'))
      else ([], w))"

definition cleanup_install_dir :: "cleanup_mode \<Rightarrow> settings \<Rightarrow> world \<Rightarrow> cleanup_event list \<times> world" where
  "cleanup_install_dir m s w =
     (if \<not> should_remove_install m then ([], w)
      else case remove_dir_all_if_exists (components (st_installation_dir s)) InstallationLabel w of
        (e, w1) \<Rightarrow>
          (case path_parent (components (st_password_file s)) of
             None \<Rightarrow> ([e], w1)
           | Some parent \<Rightarrow>
               if should_remove_install_root parent s then
                 (case remove_dir_all_if_exists parent InstallationRootLabel w1 of (e', w2) \<Rightarrow> ([e, e'], w2))
               else ([e], w1)))"

definition cleanup_in_process :: "cleanup_mode \<Rightarrow> settings \<Rightarrow> world \<Rightarrow> cleanup_event list \<times> world" where
  "cleanup_in_process m s w =
     (if m = NoCleanup then ([], w)
      else case cleanup_data_dir m s w of
        (es, w1) \<Rightarrow> (case cleanup_install_dir m s w1 of (es', w2) \<Rightarrow> (es @ es', w2)))"

section \<open>Cleanup in the worker\<close>

text \<open>A failure the worker collects: the label and the path of its message, and the error.\<close>

type_synonym removal_failure = "string \<times> path \<times> io_kind"

definition worker_remove_dir_all_if_exists :: "path \<Rightarrow> string \<Rightarrow> world \<Rightarrow> (removal_failure + unit) \<times> world" where
  "worker_remove_dir_all_if_exists p label w =
     (case try_remove_dir_all p w of
        (Inr _, w') \<Rightarrow> (Inr (), w')
      | (Inl k, w') \<Rightarrow> (Inl (label, p, k), w'))"

definition collect_removal_error ::
  "path \<Rightarrow> string \<Rightarrow> removal_failure list \<times> world \<Rightarrow> removal_failure list \<times> world" where
  "collect_removal_error p label s =
     (case worker_remove_dir_all_if_exists p label (snd s) of
        (Inl err, w') \<Rightarrow> (fst s @ [err], w')
      | (Inr _, w') \<Rightarrow> (fst s, w'))"

definition execute_cleanup ::
  "path \<Rightarrow> path option \<Rightarrow> path option \<Rightarrow> world \<Rightarrow> (removal_failure list + unit) \<times> world" where
  "execute_cleanup data_dir install_dir install_root w =
     (let s1 = collect_removal_error data_dir ''data'' ([], w);
          s2 = (case install_dir of None \<Rightarrow> s1 | Some p \<Rightarrow> collect_removal_error p ''installation'' s1);
          s3 = (case install_root of None \<Rightarrow> s2
                | Some p \<Rightarrow> if install_dir = Some p then s2
                            else collect_removal_error p ''installation-root'' s2)
      in if fst s3 = [] then (Inr (), snd s3) else (Inl (fst s3), snd s3))"

text \<open>\<open>extract_install_root\<close>; \<open>None\<close> in the outer option is the settings-conversion error.\<close>

definition extract_install_root :: "settings \<Rightarrow> path \<Rightarrow> path option option" where
  "extract_install_root s install_dir =
     (if \<not> utf8_valid (st_password_file s) then None
      else case path_parent (components (st_password_file s)) of
        None \<Rightarrow> Some None
      | Some parent \<Rightarrow>
          if parent = [] \<or> parent = [RootDir] then Some None
          else if parent = install_dir then Some None
          else if has_parent_dir parent then Some None
          else if \<not> starts_with parent install_dir then Some None
          else Some (Some parent))"

section \<open>Lemmas\<close>

lemma remove_if_exists_world:
  "wf_path p \<Longrightarrow> snd (remove_dir_all_if_exists p label w) = snd (try_remove_dir_all p w)"
  using dangerous_imp_empty_or_root [of p] removal.refuses [of p w]
  by (auto simp: remove_dir_all_if_exists_def split: sum.splits removal_outcome.splits prod.splits)

lemma collect_world: "snd (collect_removal_error p label s) = snd (try_remove_dir_all p (snd s))"
  by (auto simp: collect_removal_error_def worker_remove_dir_all_if_exists_def
      split: sum.splits prod.splits)

text \<open>The directories each mode sweeps, in order.\<close>

definition cleanup_targets :: "cleanup_mode \<Rightarrow> settings \<Rightarrow> path list" where
  "cleanup_targets m s =
     (if should_remove_data m then [components (st_data_dir s)] else []) @
     (if should_remove_install m then components (st_installation_dir s) #
        (case path_parent (components (st_password_file s)) of
           None \<Rightarrow> []
         | Some parent \<Rightarrow> if should_remove_install_root parent s then [parent] else [])
      else [])"

lemma cleanup_in_process_sweep:
  "snd (cleanup_in_process m s w) = removal.sweep (cleanup_targets m s) w"
proof -
  have wf: "wf_path q" if "path_parent (components (st_password_file s)) = Some q" for q
    using wf_path_parent [OF wf_path_components that] .
  show ?thesis
    by (cases m)
      (auto simp: cleanup_in_process_def cleanup_data_dir_def cleanup_install_dir_def cleanup_targets_def
        should_remove_data_def should_remove_install_def removal.sweep_simps wf remove_if_exists_world
        case_prod_unfold split: option.splits)
qed

lemma cleanup_targets_wf: "p \<in> set (cleanup_targets m s) \<Longrightarrow> wf_path p"
  by (auto simp: cleanup_targets_def wf_path_parent [OF wf_path_components] split: option.splits if_splits)

text \<open>The events of a cleanup are those of its targets, each in the world the previous ones left.\<close>

fun event_is_warning :: "cleanup_event \<Rightarrow> bool" where
  "event_is_warning (RemovalWarning _ _ _) = True"
| "event_is_warning _ = False"

fun sweep_ok :: "path list \<Rightarrow> world \<Rightarrow> bool" where
  "sweep_ok [] w = True"
| "sweep_ok (p # ps) w = (is_ok (fst (try_remove_dir_all p w)) \<and> sweep_ok ps (snd (try_remove_dir_all p w)))"

lemma remove_if_exists_warns:
  "wf_path p \<Longrightarrow> event_is_warning (fst (remove_dir_all_if_exists p label w)) \<longleftrightarrow>
     \<not> is_ok (fst (try_remove_dir_all p w))"
  using dangerous_imp_empty_or_root [of p] removal.refuses [of p w]
  by (auto simp: remove_dir_all_if_exists_def split: sum.splits removal_outcome.splits prod.splits)

lemma cleanup_in_process_ok:
  "list_all (\<lambda>e. \<not> event_is_warning e) (fst (cleanup_in_process m s w)) \<longleftrightarrow>
     sweep_ok (cleanup_targets m s) w"
proof -
  have wf: "wf_path q" if "path_parent (components (st_password_file s)) = Some q" for q
    using wf_path_parent [OF wf_path_components that] .
  show ?thesis
    by (cases m)
      (auto simp: cleanup_in_process_def cleanup_data_dir_def cleanup_install_dir_def cleanup_targets_def
        should_remove_data_def should_remove_install_def wf remove_if_exists_world remove_if_exists_warns
        case_prod_unfold split: option.splits)
qed

lemma sweep_ok_gone:
  "sweep_ok ps w \<Longrightarrow> \<forall>p\<in>set ps. wf_path p \<Longrightarrow> \<forall>p\<in>set ps. \<not> there (removal.sweep ps w) p"
proof (induction ps arbitrary: w)
  case (Cons p ps)
  obtain r w1 where t: "try_remove_dir_all p w = (Inr r, w1)"
    using Cons.prems(1) by (cases "try_remove_dir_all p w"; cases "fst (try_remove_dir_all p w)") auto
  with Cons.prems(2) have "\<not> there w1 p" using removal.gone [of p w r w1] by simp
  then have "\<not> there (removal.sweep ps w1) p" by (rule removal.sweep_stays_gone)
  with Cons t show ?case by (simp add: removal.sweep_simps)
qed simp

section \<open>Properties\<close>

text \<open>
  C9. Dropping a cluster in process removes nothing outside the trees its cleanup mode names: the
  data directory, for \<open>Full\<close> also the installation directory and a password-file directory inside
  it, and nothing for \<open>None\<close>. What is outside keeps its content, mode and owner.
\<close>

theorem cleanup_in_process_confined:
  "cleanup_in_process NoCleanup s w = ([], w) \<and>
    {q. entry (snd (cleanup_in_process m s w)) q \<noteq> entry w q} \<subseteq>
      (\<Union>p\<in>set (cleanup_targets m s). tree_of w p) \<and>
    (entry (snd (cleanup_in_process m s w)) q = None \<or>
     entry (snd (cleanup_in_process m s w)) q = entry w q)"
  using removal.sweep_confined [of "cleanup_targets m s" w]
    removal.sweep_shrinks [of "cleanup_targets m s" w q]
  by (auto simp: cleanup_in_process_sweep cleanup_in_process_def [of NoCleanup s w])

lemma execute_cleanup_sweep:
  "snd (execute_cleanup d i r w) = removal.sweep
     (d # (case i of None \<Rightarrow> [] | Some p \<Rightarrow> [p]) @
      (case r of None \<Rightarrow> [] | Some p \<Rightarrow> if i = Some p then [] else [p])) w"
  by (auto simp: execute_cleanup_def Let_def collect_world removal.sweep_simps split: option.splits)

lemma collect_ok:
  "fst (collect_removal_error p label s) = [] \<longleftrightarrow> fst s = [] \<and> is_ok (fst (try_remove_dir_all p (snd s)))"
  by (auto simp: collect_removal_error_def worker_remove_dir_all_if_exists_def split: sum.splits prod.splits)

lemma execute_cleanup_ok:
  "is_ok (fst (execute_cleanup d i r w)) \<longleftrightarrow> sweep_ok
     (d # (case i of None \<Rightarrow> [] | Some p \<Rightarrow> [p]) @
      (case r of None \<Rightarrow> [] | Some p \<Rightarrow> if i = Some p then [] else [p])) w"
  by (auto simp: execute_cleanup_def Let_def collect_world collect_ok split: option.splits)

lemma refused_not_ok: "is_empty_or_root p \<Longrightarrow> \<not> is_ok (fst (try_remove_dir_all p w))"
  using removal.refuses [of p w] by simp

lemma refused_same: "is_empty_or_root p \<Longrightarrow> snd (try_remove_dir_all p w) = w"
  using removal.refuses [of p w] by simp

lemma install_root_agrees:
  assumes "extract_install_root s (components (st_installation_dir s)) = Some r"
  shows "(case path_parent (components (st_password_file s)) of
            None \<Rightarrow> r = None
          | Some parent \<Rightarrow>
              if should_remove_install_root parent s
              then r = Some parent \<or> (r = None \<and> parent = [RootDir] \<and> components (st_installation_dir s) = [])
              else r = None) \<and> r \<noteq> Some (components (st_installation_dir s))"
  using assms
  by (auto simp: extract_install_root_def should_remove_install_root_def starts_with_def prefix_Cons
      split: option.splits if_splits)

text \<open>
  The worker's cleanup operations have the same effect as the in-process cleanup: with the
  installation root \<open>extract_install_root\<close> computes, they leave the same world, and they fail
  exactly when the in-process cleanup warns.
\<close>

theorem worker_cleanup_same_effect:
  assumes "extract_install_root s (components (st_installation_dir s)) = Some r"
  shows "snd (execute_cleanup (components (st_data_dir s)) (Some (components (st_installation_dir s))) r w)
      = snd (cleanup_in_process Full s w) \<and>
    (is_ok (fst (execute_cleanup (components (st_data_dir s)) (Some (components (st_installation_dir s))) r w))
      \<longleftrightarrow> list_all (\<lambda>e. \<not> event_is_warning e) (fst (cleanup_in_process Full s w))) \<and>
    snd (execute_cleanup (components (st_data_dir s)) None None w) = snd (cleanup_in_process DataOnly s w) \<and>
    (is_ok (fst (execute_cleanup (components (st_data_dir s)) None None w)) \<longleftrightarrow>
       list_all (\<lambda>e. \<not> event_is_warning e) (fst (cleanup_in_process DataOnly s w)))"
proof -
  let ?i = "components (st_installation_dir s)" and ?d = "components (st_data_dir s)"
  have root: "is_empty_or_root [RootDir]" by simp
  note simps = cleanup_in_process_sweep cleanup_in_process_ok execute_cleanup_sweep execute_cleanup_ok
    cleanup_targets_def should_remove_data_def should_remove_install_def removal.sweep_simps
    refused_same [OF root] refused_not_ok [OF root]
  have data: "snd (execute_cleanup ?d None None w) = snd (cleanup_in_process DataOnly s w)"
    "is_ok (fst (execute_cleanup ?d None None w)) \<longleftrightarrow>
       list_all (\<lambda>e. \<not> event_is_warning e) (fst (cleanup_in_process DataOnly s w))"
    by (simp_all add: simps)
  note agree = install_root_agrees [OF assms]
  have full: "snd (execute_cleanup ?d (Some ?i) r w) = snd (cleanup_in_process Full s w) \<and>
    (is_ok (fst (execute_cleanup ?d (Some ?i) r w)) \<longleftrightarrow>
       list_all (\<lambda>e. \<not> event_is_warning e) (fst (cleanup_in_process Full s w)))"
  proof (cases "path_parent (components (st_password_file s))")
    case None
    with agree have "r = None" by simp
    with None show ?thesis by (simp add: simps)
  next
    case (Some parent)
    show ?thesis
    proof (cases "should_remove_install_root parent s")
      case False
      with agree Some have "r = None" by simp
      with Some False show ?thesis by (simp add: simps)
    next
      case True
      with agree Some consider "r = Some parent" "parent \<noteq> ?i"
        | "r = None" "parent = [RootDir]" "?i = []"
        by auto
      then show ?thesis
      proof cases
        case 1
        with Some True show ?thesis by (simp add: simps)
      next
        case 2
        then show ?thesis using Some True refused_not_ok [of "[]"] by (simp add: simps)
      qed
    qed
  qed
  from data full show ?thesis by blast
qed

definition demo_settings :: settings where
  "demo_settings =
     \<lparr>st_releases_url = [], st_version = ''=16.4.0'', st_installation_dir = ''/i'',
      st_password_file = ''/i/p/.pgpass'', st_data_dir = ''/d'', st_host = ''localhost'', st_port = 0,
      st_username = ''postgres'', st_password = ''pw'', st_temporary = True, st_timeout = None,
      st_configuration = Map.empty, st_trust_installation_dir = False, st_socket_dir = None\<rparr>"

definition demo_world :: world where
  "demo_world =
     \<lparr>w_fs = map (\<lambda>(p, k). (p, \<lparr>nd_kind = k, nd_mode = 493, nd_uid = 0, nd_gid = 0\<rparr>))
        [([RootDir, Normal ''i''], KDir), ([RootDir, Normal ''i'', Normal ''p''], KDir),
         ([RootDir, Normal ''d''], KDir), ([RootDir, Normal ''k''], KFile ''keep'')],
      w_cwd = [RootDir], w_env = Map.empty, w_euid = 0, w_faults = (\<lambda>_. None), w_residue = (\<lambda>_. [])\<rparr>"

lemma demo_components:
  "components ''/i'' = [RootDir, Normal ''i'']" "components ''/d'' = [RootDir, Normal ''d'']"
  "components ''/i/p/.pgpass'' = [RootDir, Normal ''i'', Normal ''p'', Normal ''.pgpass'']"
  by (simp_all add: components_def is_abs_def body_comps_def seg_comp_def)

theorem worker_cleanup_same_effect_witness:
  "extract_install_root demo_settings (components (st_installation_dir demo_settings))
     = Some (Some [RootDir, Normal ''i'', Normal ''p'']) \<and>
   snd (execute_cleanup (components (st_data_dir demo_settings))
      (Some (components (st_installation_dir demo_settings))) (Some [RootDir, Normal ''i'', Normal ''p''])
      demo_world) = snd (cleanup_in_process Full demo_settings demo_world)"
proof -
  have e: "extract_install_root demo_settings (components (st_installation_dir demo_settings))
     = Some (Some [RootDir, Normal ''i'', Normal ''p''])"
    by (simp add: extract_install_root_def demo_settings_def demo_components path_parent_def
        starts_with_def has_parent_dir_def byte_def)
  from worker_cleanup_same_effect [OF e, of demo_world] e show ?thesis by blast
qed

text \<open>
  A cleanup that warns about nothing has removed everything it names, and running it again
  changes nothing.
\<close>

theorem cleanup_complete_and_idempotent:
  assumes "list_all (\<lambda>e. \<not> event_is_warning e) (fst (cleanup_in_process m s w))"
  shows "(\<forall>p\<in>set (cleanup_targets m s). \<not> there (snd (cleanup_in_process m s w)) p) \<and>
    snd (cleanup_in_process m s (snd (cleanup_in_process m s w))) = snd (cleanup_in_process m s w)"
proof -
  let ?ps = "cleanup_targets m s" and ?w = "snd (cleanup_in_process m s w)"
  have "\<forall>p\<in>set ?ps. \<not> there ?w p"
    using assms sweep_ok_gone [of ?ps w] cleanup_targets_wf
    by (auto simp: cleanup_in_process_ok cleanup_in_process_sweep)
  then show ?thesis using removal.sweep_gone [of ?ps ?w] by (simp add: cleanup_in_process_sweep)
qed

lemma demo_cleanup:
  "cleanup_in_process DataOnly demo_settings demo_world =
     ([DirRemoved DataLabel [RootDir, Normal ''d'']],
      drop_entries (\<lambda>r. prefix [RootDir, Normal ''d''] r) demo_world)"
  "node_of False demo_world [RootDir, Normal ''d''] =
     Inr ([RootDir, Normal ''d''], \<lparr>nd_kind = KDir, nd_mode = 493, nd_uid = 0, nd_gid = 0\<rparr>)"
proof -
  show n: "node_of False demo_world [RootDir, Normal ''d''] =
      Inr ([RootDir, Normal ''d''], \<lparr>nd_kind = KDir, nd_mode = 493, nd_uid = 0, nd_gid = 0\<rparr>)"
    by (simp add: node_of_def resolve_def demo_world_def entry_def entry_at_def)
  have f: "w_faults demo_world (SysRemoveDirAll [RootDir, Normal ''d'']) = None"
    by (simp add: demo_world_def)
  from n f have t: "try_remove_dir_all [RootDir, Normal ''d''] demo_world
      = (Inr Removed, drop_entries (\<lambda>r. prefix [RootDir, Normal ''d''] r) demo_world)"
    by (simp add: try_remove_dir_all_def guard_removal_path_def has_parent_dir_def remove_dir_all_def
        remove_effect_def)
  then show "cleanup_in_process DataOnly demo_settings demo_world =
      ([DirRemoved DataLabel [RootDir, Normal ''d'']],
       drop_entries (\<lambda>r. prefix [RootDir, Normal ''d''] r) demo_world)"
    by (simp add: cleanup_in_process_def cleanup_data_dir_def cleanup_install_dir_def should_remove_data_def
        should_remove_install_def remove_dir_all_if_exists_def is_dangerous_cleanup_path_def
        path_parent_def demo_settings_def demo_components)
qed

theorem cleanup_complete_and_idempotent_witness:
  "\<not> there (snd (cleanup_in_process DataOnly demo_settings demo_world)) [RootDir, Normal ''d''] \<and>
   there demo_world [RootDir, Normal ''d''] \<and>
   entry (snd (cleanup_in_process DataOnly demo_settings demo_world)) [RootDir, Normal ''k''] \<noteq> None"
proof -
  have k: "entry demo_world [RootDir, Normal ''k''] \<noteq> None" by (simp add: entry_def demo_world_def)
  have "list_all (\<lambda>e. \<not> event_is_warning e) (fst (cleanup_in_process DataOnly demo_settings demo_world))"
    by (simp add: demo_cleanup)
  note gone = cleanup_complete_and_idempotent [OF this]
  have "cleanup_targets DataOnly demo_settings = [[RootDir, Normal ''d'']]"
    by (simp add: cleanup_targets_def should_remove_data_def should_remove_install_def demo_settings_def
        demo_components)
  with gone demo_cleanup k show ?thesis by (simp add: there_def demo_cleanup(1))
qed

end
