(* ===== verification/Scope_Contract.thy ===== *)
theory Scope_Contract
  imports Prelude
begin

text \<open>
  The contract between a provider of scoped overrides and its users, as a locale: what opening and
  closing a scope promise about the handles that are live and about the value underneath. The users
  are the guards of a cluster (\<open>src/src/cluster/guard.rs\<close>) and the test fixtures, which hold several
  handles and drop them in whatever order their owners die. The provider is \<open>Scoped_Env\<close>.
\<close>

text \<open>Run a partial operation over a list, from the left; \<open>None\<close> as soon as one step fails.\<close>

fun run_opt :: "('h \<Rightarrow> 's \<Rightarrow> 's option) \<Rightarrow> 'h list \<Rightarrow> 's \<Rightarrow> 's option" where
  "run_opt f [] s = Some s"
| "run_opt f (h # hs) s = (case f h s of None \<Rightarrow> None | Some s' \<Rightarrow> run_opt f hs s')"

text \<open>Open one scope per element of a list and collect the handles.\<close>

fun open_all :: "('v \<Rightarrow> 's \<Rightarrow> ('h \<times> 's) option) \<Rightarrow> 'v list \<Rightarrow> 's \<Rightarrow> ('h list \<times> 's) option" where
  "open_all f [] s = Some ([], s)"
| "open_all f (v # vs) s =
     (case f v s of
        None \<Rightarrow> None
      | Some (h, s1) \<Rightarrow>
          (case open_all f vs s1 of None \<Rightarrow> None | Some (hs, s2) \<Rightarrow> Some (h # hs, s2)))"

locale env_scopes =
  fixes open_scope :: "'v \<Rightarrow> 's \<Rightarrow> ('h \<times> 's) option"
    and close_scope :: "'h \<Rightarrow> 's \<Rightarrow> 's option"
    and inv :: "'s \<Rightarrow> bool"
    and live :: "'s \<Rightarrow> 'h \<Rightarrow> bool"
    and base :: "'s \<Rightarrow> 'e"
    and view :: "'s \<Rightarrow> 'e"
  assumes open_ok: "inv s \<Longrightarrow> open_scope v s = Some (h, s') \<Longrightarrow>
      inv s' \<and> base s' = base s \<and> \<not> live s h \<and> (\<forall>k. live s' k \<longleftrightarrow> live s k \<or> k = h)"
    and close_ok: "inv s \<Longrightarrow> live s h \<Longrightarrow>
      \<exists>s'. close_scope h s = Some s' \<and> inv s' \<and> base s' = base s \<and>
        (\<forall>k. live s' k \<longleftrightarrow> live s k \<and> k \<noteq> h)"
    and idle_view: "inv s \<Longrightarrow> (\<And>h. \<not> live s h) \<Longrightarrow> view s = base s"
begin

lemma open_all_ok:
  "inv s \<Longrightarrow> open_all open_scope vs s = Some (hs, s') \<Longrightarrow>
     inv s' \<and> base s' = base s \<and> distinct hs \<and> (\<forall>k. live s' k \<longleftrightarrow> live s k \<or> k \<in> set hs) \<and>
     (\<forall>h \<in> set hs. \<not> live s h)"
proof (induction vs arbitrary: s hs)
  case (Cons v vs)
  from Cons.prems(2) obtain h s1 hs1 where
    o: "open_scope v s = Some (h, s1)" and r: "open_all open_scope vs s1 = Some (hs1, s')" and
    hs: "hs = h # hs1"
    by (auto split: option.splits)
  note 1 = open_ok [OF Cons.prems(1) o]
  then have "inv s1" by simp
  note 2 = Cons.IH [OF this r]
  from 1 2 hs show ?case by auto
qed simp

text \<open>Closing every live handle, in any order, always works and uncovers the base.\<close>

lemma close_all_ok:
  "inv s \<Longrightarrow> distinct hs \<Longrightarrow> (\<And>k. live s k \<longleftrightarrow> k \<in> set hs) \<Longrightarrow>
     \<exists>s'. run_opt close_scope hs s = Some s' \<and> inv s' \<and> (\<forall>k. \<not> live s' k) \<and> view s' = base s"
proof (induction hs arbitrary: s)
  case Nil
  then show ?case using idle_view [of s] by auto
next
  case (Cons h hs)
  then have "live s h" by simp
  with close_ok [OF Cons.prems(1)] obtain s1 where
    c: "close_scope h s = Some s1" and s1: "inv s1" "base s1 = base s" and
    l: "\<And>k. live s1 k \<longleftrightarrow> live s k \<and> k \<noteq> h" by blast
  have "\<And>k. live s1 k \<longleftrightarrow> k \<in> set hs" using l Cons.prems(2,3) by auto
  from Cons.IH [OF s1(1) _ this] Cons.prems(2) c s1(2) show ?case by auto
qed

lemma bracket_any_order:
  assumes "inv s" and "\<And>h. \<not> live s h"
    and "open_all open_scope vs s = Some (hs, s1)"
    and "distinct order" and "set order = set hs"
  shows "\<exists>s2. run_opt close_scope order s1 = Some s2 \<and> inv s2 \<and> (\<forall>k. \<not> live s2 k) \<and> view s2 = view s"
proof -
  note o = open_all_ok [OF assms(1,3)]
  have "\<And>k. live s1 k \<longleftrightarrow> k \<in> set order" using o assms(2,5) by auto
  from close_all_ok [OF _ assms(4) this] o idle_view [OF assms(1,2)] show ?thesis by auto
qed

end

end
