(* ===== verification/Scoped_Env.thy ===== *)
theory Scoped_Env
  imports Scope_Contract
begin

text \<open>
  The scoped environment guards of \<open>src/src/env/state.rs\<close> and \<open>src/src/env/mod.rs\<close>.
  \<open>thread_state\<close> is \<open>ThreadStateCore\<close> (its depth, whether it holds the guard of \<open>ENV_LOCK\<close>, and its
  stack of \<open>GuardState\<close>, the top of the \<open>Vec\<close> at the end of the list); \<open>proc\<close> is what the threads
  share: the process environment, the owner of \<open>ENV_LOCK\<close> and its poison flag.
  \<open>enter_scope\<close> and \<open>exit_scope\<close> are the methods of that name with every helper they call. A call
  returns, panics (a failed assertion, or \<open>env::set_var\<close> refusing a NUL byte) or would block on the
  mutex. Debug assertions count as assertions.

  The lemmas show what the module promises: the depth, the lock and the stack agree after every
  call; undoing the stack always gives the environment of the outermost entry, so that dropping
  all guards in any order, or with wrong indices, restores it; calls never panic on valid names;
  and, over the threads of a process, only one thread at a time is inside a scope.
\<close>

section \<open>State\<close>

type_synonym env = "string \<rightharpoonup> string"
type_synonym var_change = "string \<times> string option"

record guard_state =
  gs_saved :: "var_change list"
  gs_finished :: bool

record thread_state =
  ts_depth :: nat
  ts_lock :: bool
  ts_stack :: "guard_state list"

record proc =
  pr_env :: env
  pr_owner :: "nat option"
  pr_poisoned :: bool

datatype 'a ctl = Returned 'a | Panic | WouldBlock

type_synonym scope_state = "proc \<times> thread_state"

definition new_thread_state :: thread_state where
  "new_thread_state = \<lparr>ts_depth = 0, ts_lock = False, ts_stack = []\<rparr>"

section \<open>Operations\<close>

definition ensure_lock_is_clean :: "proc \<Rightarrow> proc" where
  "ensure_lock_is_clean p = (if pr_poisoned p then p\<lparr>pr_poisoned := False\<rparr> else p)"

text \<open>\<open>Mutex::lock\<close>, with a poisoned guard taken as it is; \<open>None\<close> while some thread holds it.\<close>

definition lock_env_mutex :: "nat \<Rightarrow> proc \<Rightarrow> proc option" where
  "lock_env_mutex t p = (if pr_owner p = None then Some (p\<lparr>pr_owner := Some t\<rparr>) else None)"

definition drop_env_guard :: "scope_state \<Rightarrow> scope_state" where
  "drop_env_guard s = (case s of (p, ts) \<Rightarrow> (p\<lparr>pr_owner := None\<rparr>, ts\<lparr>ts_lock := False\<rparr>))"

text \<open>The two places that take the mutex: clear the poison, then lock.\<close>

definition take_lock :: "nat \<Rightarrow> scope_state \<Rightarrow> unit ctl \<times> scope_state" where
  "take_lock t s = (case s of (p, ts) \<Rightarrow>
     let p1 = ensure_lock_is_clean p in
     case lock_env_mutex t p1 of
       None \<Rightarrow> (WouldBlock, (p1, ts))
     | Some p2 \<Rightarrow> (Returned (), (p2, ts\<lparr>ts_lock := True\<rparr>)))"

definition acquire_lock_if_needed :: "nat \<Rightarrow> scope_state \<Rightarrow> unit ctl \<times> scope_state" where
  "acquire_lock_if_needed t s =
     (if ts_depth (snd s) > 0 then (Returned (), s)
      else if ts_lock (snd s) then (Panic, s)
      else take_lock t s)"

definition ensure_lock_for_restore :: "nat \<Rightarrow> scope_state \<Rightarrow> unit ctl \<times> scope_state" where
  "ensure_lock_for_restore t s = (if ts_lock (snd s) then (Returned (), s) else take_lock t s)"

definition contains_equals :: "string \<Rightarrow> bool" where
  "contains_equals key \<longleftrightarrow> List.member key (CHR ''='')"

definition validate_env_key :: "string \<Rightarrow> bool" where
  "validate_env_key key \<longleftrightarrow> key \<noteq> [] \<and> \<not> contains_equals key"

definition has_nul :: "string \<Rightarrow> bool" where
  "has_nul s \<longleftrightarrow> List.member s (CHR 0x00)"

text \<open>\<open>env::var_os\<close> finds nothing under a name with a NUL byte; \<open>set_var\<close> and \<open>remove_var\<close> panic
  on one (\<open>None\<close>).\<close>

definition apply_single_var :: "string \<Rightarrow> string option \<Rightarrow> env \<Rightarrow> (string option \<times> env) option" where
  "apply_single_var key new_value e =
     (let previous = (if has_nul key then None else e key) in
      case new_value of
        Some v \<Rightarrow> if has_nul key \<or> has_nul v then None else Some (previous, e(key \<mapsto> v))
      | None \<Rightarrow> if has_nul key then None else Some (previous, e(key := None)))"

fun apply_loop :: "var_change list \<Rightarrow> var_change list \<Rightarrow> env \<Rightarrow> var_change list ctl \<times> env" where
  "apply_loop [] saved e = (Returned saved, e)"
| "apply_loop ((key, new_value) # vars) saved e =
     (if \<not> validate_env_key key then (Panic, e)
      else case apply_single_var key new_value e of
             None \<Rightarrow> (Panic, e)
           | Some (previous, e') \<Rightarrow> apply_loop vars (saved @ [(key, previous)]) e')"

definition apply_env_vars :: "var_change list \<Rightarrow> scope_state \<Rightarrow> var_change list ctl \<times> scope_state" where
  "apply_env_vars vars s = (case s of (p, ts) \<Rightarrow>
     if \<not> ts_lock ts then (Panic, s)
     else case apply_loop vars [] (pr_env p) of (r, e) \<Rightarrow> (r, (p\<lparr>pr_env := e\<rparr>, ts)))"

definition enter_scope :: "nat \<Rightarrow> var_change list \<Rightarrow> scope_state \<Rightarrow> nat ctl \<times> scope_state" where
  "enter_scope t vars s =
     (case acquire_lock_if_needed t s of
        (Returned _, (p1, ts1)) \<Rightarrow>
          (case apply_env_vars vars (p1, ts1\<lparr>ts_depth := ts_depth ts1 + 1\<rparr>) of
             (Returned saved, (p2, ts2)) \<Rightarrow>
               (Returned (length (ts_stack ts2)),
                (p2, ts2\<lparr>ts_stack := ts_stack ts2 @ [\<lparr>gs_saved = saved, gs_finished = False\<rparr>]\<rparr>))
           | (Panic, s2) \<Rightarrow> (Panic, s2)
           | (WouldBlock, s2) \<Rightarrow> (WouldBlock, s2))
      | (Panic, s1) \<Rightarrow> (Panic, s1)
      | (WouldBlock, s1) \<Rightarrow> (WouldBlock, s1))"

text \<open>The saved values go back in reverse order.\<close>

definition restore_saved :: "var_change list \<Rightarrow> env \<Rightarrow> env" where
  "restore_saved saved e = fold (\<lambda>(key, value) e. e(key := value)) (rev saved) e"

text \<open>The pop loops, on the stack read from its top.\<close>

fun pop_finished :: "guard_state list \<Rightarrow> env \<Rightarrow> guard_state list \<times> env" where
  "pop_finished [] e = ([], e)"
| "pop_finished (g # gs) e =
     (if \<not> gs_finished g then (g # gs, e) else pop_finished gs (restore_saved (gs_saved g) e))"

fun pop_all :: "guard_state list \<Rightarrow> env \<Rightarrow> env" where
  "pop_all [] e = e"
| "pop_all (g # gs) e = pop_all gs (restore_saved (gs_saved g) e)"

definition restore_finished_scopes :: "nat \<Rightarrow> scope_state \<Rightarrow> unit ctl \<times> scope_state" where
  "restore_finished_scopes t s =
     (case (if ts_stack (snd s) \<noteq> [] \<and> gs_finished (last (ts_stack (snd s)))
            then ensure_lock_for_restore t s else (Returned (), s)) of
        (Returned _, (p, ts)) \<Rightarrow>
          (case pop_finished (rev (ts_stack ts)) (pr_env p) of
             (rest, e) \<Rightarrow> (Returned (), (p\<lparr>pr_env := e\<rparr>, ts\<lparr>ts_stack := rev rest\<rparr>)))
      | (Panic, s1) \<Rightarrow> (Panic, s1)
      | (WouldBlock, s1) \<Rightarrow> (WouldBlock, s1))"

definition restore_all_scopes :: "nat \<Rightarrow> scope_state \<Rightarrow> unit ctl \<times> scope_state" where
  "restore_all_scopes t s =
     (if ts_stack (snd s) = [] then (Returned (), s)
      else case ensure_lock_for_restore t s of
        (Returned _, (p, ts)) \<Rightarrow>
          (Returned (), (p\<lparr>pr_env := pop_all (rev (ts_stack ts)) (pr_env p)\<rparr>, ts\<lparr>ts_stack := []\<rparr>))
      | (Panic, s1) \<Rightarrow> (Panic, s1)
      | (WouldBlock, s1) \<Rightarrow> (WouldBlock, s1))"

definition reset_depth_and_unlock :: "scope_state \<Rightarrow> scope_state" where
  "reset_depth_and_unlock s = (case s of (p, ts) \<Rightarrow>
     let s' = (p, ts\<lparr>ts_depth := 0\<rparr>) in if ts_lock ts then drop_env_guard s' else s')"

definition force_restore_and_reset :: "nat \<Rightarrow> scope_state \<Rightarrow> unit ctl \<times> scope_state" where
  "force_restore_and_reset t s =
     (if ts_stack (snd s) = [] then
        (if ts_lock (snd s) then (Returned (), reset_depth_and_unlock s)
         else (Returned (), (fst s, (snd s)\<lparr>ts_depth := 0\<rparr>)))
      else case ensure_lock_for_restore t s of
        (Returned _, s1) \<Rightarrow>
          (case restore_all_scopes t s1 of
             (Returned _, s2) \<Rightarrow> (Returned (), reset_depth_and_unlock s2)
           | (Panic, s2) \<Rightarrow> (Panic, s2)
           | (WouldBlock, s2) \<Rightarrow> (WouldBlock, s2))
      | (Panic, s1) \<Rightarrow> (Panic, s1)
      | (WouldBlock, s1) \<Rightarrow> (WouldBlock, s1))"

definition finish_scope :: "nat \<Rightarrow> nat \<Rightarrow> scope_state \<Rightarrow> bool ctl \<times> scope_state" where
  "finish_scope t index s = (case s of (p, ts) \<Rightarrow>
     if index \<ge> length (ts_stack ts) \<or> gs_finished (ts_stack ts ! index) then
       (case force_restore_and_reset t s of
          (Returned _, s1) \<Rightarrow> (Returned False, s1)
        | (Panic, s1) \<Rightarrow> (Panic, s1)
        | (WouldBlock, s1) \<Rightarrow> (WouldBlock, s1))
     else
       (case restore_finished_scopes t (p, ts\<lparr>ts_stack :=
               (ts_stack ts)[index := (ts_stack ts ! index)\<lparr>gs_finished := True\<rparr>]\<rparr>) of
          (Returned _, s1) \<Rightarrow> (Returned True, s1)
        | (Panic, s1) \<Rightarrow> (Panic, s1)
        | (WouldBlock, s1) \<Rightarrow> (WouldBlock, s1)))"

definition release_outermost_lock :: "scope_state \<Rightarrow> unit ctl \<times> scope_state" where
  "release_outermost_lock s =
     (if ts_stack (snd s) \<noteq> [] then (Panic, s)
      else if ts_lock (snd s) then (Returned (), drop_env_guard s)
      else (Panic, s))"

definition exit_scope :: "nat \<Rightarrow> nat \<Rightarrow> scope_state \<Rightarrow> unit ctl \<times> scope_state" where
  "exit_scope t index s = (case s of (p, ts) \<Rightarrow>
     if ts_depth ts = 0 then force_restore_and_reset t s
     else case finish_scope t index (p, ts\<lparr>ts_depth := ts_depth ts - 1\<rparr>) of
        (Returned ok, s1) \<Rightarrow>
          if \<not> ok then (Returned (), s1)
          else if ts_depth (snd s1) = 0 then release_outermost_lock s1
          else (Returned (), s1)
      | (Panic, s1) \<Rightarrow> (Panic, s1)
      | (WouldBlock, s1) \<Rightarrow> (WouldBlock, s1))"

section \<open>Invariant and the environment under the stack\<close>

definition open_count :: "guard_state list \<Rightarrow> nat" where
  "open_count gs = length (filter (\<lambda>g. \<not> gs_finished g) gs)"

definition scope_inv :: "nat \<Rightarrow> scope_state \<Rightarrow> bool" where
  "scope_inv t s = (case s of (p, ts) \<Rightarrow>
     ts_depth ts = open_count (ts_stack ts) \<and>
     (ts_lock ts \<longleftrightarrow> ts_depth ts > 0) \<and>
     (ts_lock ts \<longleftrightarrow> pr_owner p = Some t) \<and>
     (ts_stack ts \<noteq> [] \<longrightarrow> \<not> gs_finished (last (ts_stack ts))))"

text \<open>What the environment becomes when every open scope is undone, top first.\<close>

definition base_env :: "scope_state \<Rightarrow> env" where
  "base_env s = pop_all (rev (ts_stack (snd s))) (pr_env (fst s))"

text \<open>The environment after \<open>vars\<close> are applied in order.\<close>

definition override_env :: "env \<Rightarrow> var_change list \<Rightarrow> env" where
  "override_env e vars = fold (\<lambda>(key, value) e. e(key := value)) vars e"

definition valid_var :: "var_change \<Rightarrow> bool" where
  "valid_var kv = (case kv of (key, value) \<Rightarrow>
     validate_env_key key \<and> \<not> has_nul key \<and> (case value of None \<Rightarrow> True | Some v \<Rightarrow> \<not> has_nul v))"

lemma open_count_simps [simp]:
  "open_count [] = 0"
  "open_count (xs @ ys) = open_count xs + open_count ys"
  "open_count (g # gs) = (if gs_finished g then 0 else 1) + open_count gs"
  by (simp_all add: open_count_def)

lemma open_count_rev [simp]: "open_count (rev gs) = open_count gs"
  by (induction gs) auto

lemma open_count_pos: "i < length gs \<Longrightarrow> \<not> gs_finished (gs ! i) \<Longrightarrow> open_count gs > 0"
  by (induction gs arbitrary: i) (auto simp: nth_Cons split: nat.splits)

lemma open_count_0_last: "open_count gs = 0 \<Longrightarrow> gs \<noteq> [] \<Longrightarrow> gs_finished (last gs)"
  by (cases gs rule: rev_cases) (auto split: if_splits)

lemma open_count_finish:
  "i < length gs \<Longrightarrow> \<not> gs_finished (gs ! i) \<Longrightarrow>
   open_count (gs[i := (gs ! i)\<lparr>gs_finished := True\<rparr>]) = open_count gs - 1"
proof (induction gs arbitrary: i)
  case (Cons g gs)
  then show ?case
    by (cases i) (auto dest: open_count_pos)
qed simp

lemma restore_saved_snoc: "restore_saved (saved @ [(k, v)]) e = restore_saved saved (e(k := v))"
  by (simp add: restore_saved_def)

lemma apply_loop_restores:
  "apply_loop vars saved e = (Returned s, e') \<Longrightarrow> restore_saved s e' = restore_saved saved e"
proof (induction vars saved e rule: apply_loop.induct)
  case (2 key new_value vars saved e)
  from "2.prems" obtain previous e1 where
      v: "validate_env_key key" and a: "apply_single_var key new_value e = Some (previous, e1)" and
      r: "apply_loop vars (saved @ [(key, previous)]) e1 = (Returned s, e')"
    by (auto split: if_splits option.splits)
  from a have e1: "e1(key := previous) = e"
    by (auto simp: apply_single_var_def Let_def split: option.splits if_splits)
  have "restore_saved s e' = restore_saved (saved @ [(key, previous)]) e1"
    using "2.IH" [of "(previous, e1)" previous e1] v a r by simp
  then show ?case by (simp add: restore_saved_snoc e1)
qed simp

lemma override_env_simps [simp]:
  "override_env e [] = e"
  "override_env e ((k, v) # vars) = override_env (e(k := v)) vars"
  by (simp_all add: override_env_def)

lemma apply_loop_valid:
  "list_all valid_var vars \<Longrightarrow> \<exists>s. apply_loop vars saved e = (Returned s, override_env e vars)"
proof (induction vars saved e rule: apply_loop.induct)
  case (1 saved e)
  show ?case by simp
next
  case (2 key new_value vars saved e)
  then have kv: "valid_var (key, new_value)" and vs: "list_all valid_var vars" by simp_all
  from kv have v: "validate_env_key key" and
    a: "apply_single_var key new_value e = Some (e key, e(key := new_value))"
    by (auto simp: valid_var_def apply_single_var_def split: option.splits)
  from v have "\<not> \<not> validate_env_key key" by simp
  from "2.IH" [OF this a refl vs] obtain s where
    "apply_loop vars (saved @ [(key, e key)]) (e(key := new_value)) =
       (Returned s, override_env (e(key := new_value)) vars)" by blast
  with v a show ?case by simp
qed

text \<open>A call of \<open>apply_loop\<close> either accepts all names and values or panics; it never blocks.\<close>

lemma apply_loop_not_block: "apply_loop vars saved e \<noteq> (WouldBlock, e')"
  by (induction vars saved e rule: apply_loop.induct) (auto split: option.splits)

lemma pop_all_append [simp]: "pop_all (xs @ ys) e = pop_all ys (pop_all xs e)"
  by (induction xs arbitrary: e) auto

lemma pop_all_finish [simp]:
  "pop_all (gs[i := (gs ! i)\<lparr>gs_finished := b\<rparr>]) e = pop_all gs e"
proof (induction gs arbitrary: i e)
  case (Cons g gs)
  then show ?case by (cases i) auto
qed simp

lemma rev_update: "i < length xs \<Longrightarrow> rev (xs[i := x]) = (rev xs)[length xs - Suc i := x]"
  by (simp add: rev_update)

lemma pop_all_finish_rev [simp]:
  assumes "i < length gs"
  shows "pop_all (rev (gs[i := (gs ! i)\<lparr>gs_finished := b\<rparr>])) e = pop_all (rev gs) e"
proof -
  have "gs ! i = rev gs ! (length gs - Suc i)"
    using assms by (simp add: rev_nth)
  with assms show ?thesis by (simp add: rev_update)
qed

lemma pop_finished_base: "pop_finished gs e = (rest, e') \<Longrightarrow> pop_all rest e' = pop_all gs e"
  by (induction gs e rule: pop_finished.induct) (auto split: if_splits)

lemma pop_finished_rest:
  "pop_finished gs e = (rest, e') \<Longrightarrow>
     open_count rest = open_count gs \<and> (rest \<noteq> [] \<longrightarrow> \<not> gs_finished (hd rest)) \<and> suffix rest gs"
  by (induction gs e rule: pop_finished.induct) (auto split: if_splits simp: suffix_ConsI)

lemma pop_finished_rev:
  assumes "pop_finished (rev gs) e = (rest, e')"
  shows "prefix (rev rest) gs" "\<And>i. i < length gs \<Longrightarrow> \<not> gs_finished (gs ! i) \<Longrightarrow> i < length rest"
proof -
  have r: "suffix rest (rev gs)" "open_count rest = open_count gs"
    using pop_finished_rest [OF assms] by auto
  then show p: "prefix (rev rest) gs" by (simp add: suffix_to_prefix)
  then obtain zs where zs: "gs = rev rest @ zs" by (auto simp: prefix_def)
  then have "open_count zs = 0" using r(2) by simp
  fix i assume i: "i < length gs" "\<not> gs_finished (gs ! i)"
  show "i < length rest"
  proof (rule ccontr)
    assume n: "\<not> i < length rest"
    then have "zs ! (i - length rest) = gs ! i" "i - length rest < length zs"
      using zs i by (auto simp: nth_append)
    with i(2) open_count_pos [of "i - length rest" zs] \<open>open_count zs = 0\<close> show False by simp
  qed
qed

section \<open>Entering and leaving keep the invariant\<close>

definition live_at :: "scope_state \<Rightarrow> nat \<Rightarrow> bool" where
  "live_at s i \<longleftrightarrow> i < length (ts_stack (snd s)) \<and> \<not> gs_finished (ts_stack (snd s) ! i)"

lemma scope_inv_new: "pr_owner p \<noteq> Some t \<Longrightarrow> scope_inv t (p, new_thread_state)"
  by (simp add: scope_inv_def new_thread_state_def)

lemma scope_inv_idle:
  assumes "scope_inv t s" and "ts_depth (snd s) = 0"
  shows "ts_stack (snd s) = []" "\<not> ts_lock (snd s)" "pr_owner (fst s) \<noteq> Some t"
    "base_env s = pr_env (fst s)"
proof -
  obtain p ts where s: "s = (p, ts)" by (cases s)
  have "open_count (ts_stack ts) = 0" "ts_stack ts \<noteq> [] \<longrightarrow> \<not> gs_finished (last (ts_stack ts))"
    using assms s by (auto simp: scope_inv_def)
  then have st: "ts_stack ts = []" using open_count_0_last by blast
  with s show "ts_stack (snd s) = []" by simp
  show "\<not> ts_lock (snd s)" "pr_owner (fst s) \<noteq> Some t"
    using assms s by (auto simp: scope_inv_def)
  show "base_env s = pr_env (fst s)" using s st by (simp add: base_env_def)
qed

lemma scope_inv_idle_iff:
  assumes "scope_inv t s"
  shows "ts_depth (snd s) = 0 \<longleftrightarrow> (\<forall>i. \<not> live_at s i)"
proof
  assume "ts_depth (snd s) = 0"
  with scope_inv_idle(1) [OF assms] show "\<forall>i. \<not> live_at s i" by (simp add: live_at_def)
next
  assume l: "\<forall>i. \<not> live_at s i"
  have "filter (\<lambda>g. \<not> gs_finished g) (ts_stack (snd s)) = []"
    using l by (auto simp: live_at_def filter_empty_conv in_set_conv_nth)
  then show "ts_depth (snd s) = 0"
    using assms by (cases s) (auto simp: scope_inv_def open_count_def)
qed

text \<open>The lock is taken by an entry at depth zero and is already held otherwise.\<close>

lemma acquire_cases:
  assumes inv: "scope_inv t (p, ts)"
  obtains (held) "ts_depth ts > 0" "acquire_lock_if_needed t (p, ts) = (Returned (), (p, ts))"
      "pr_owner p = Some t" "ts_lock ts"
  | (taken) "ts_depth ts = 0" "pr_owner p = None" "ts_stack ts = []"
      "acquire_lock_if_needed t (p, ts) =
         (Returned (), (p\<lparr>pr_poisoned := False, pr_owner := Some t\<rparr>, ts\<lparr>ts_lock := True\<rparr>))"
  | (blocked) t' where "ts_depth ts = 0" "pr_owner p = Some t'" "t' \<noteq> t"
      "acquire_lock_if_needed t (p, ts) = (WouldBlock, (p\<lparr>pr_poisoned := False\<rparr>, ts))"
proof (cases "ts_depth ts > 0")
  case True
  with inv have "ts_lock ts" "pr_owner p = Some t" by (auto simp: scope_inv_def)
  with True held show ?thesis by (simp add: acquire_lock_if_needed_def)
next
  case False
  then have d: "ts_depth ts = 0" by simp
  with scope_inv_idle [OF inv] have st: "ts_stack ts = []" and l: "\<not> ts_lock ts" and
    o: "pr_owner p \<noteq> Some t" by auto
  have clean: "ensure_lock_is_clean p = p\<lparr>pr_poisoned := False\<rparr>"
    by (simp add: ensure_lock_is_clean_def)
  show ?thesis
  proof (cases "pr_owner p")
    case None
    with d st l clean taken show ?thesis
      by (simp add: acquire_lock_if_needed_def take_lock_def lock_env_mutex_def)
  next
    case (Some t')
    with d o l clean blocked show ?thesis
      by (simp add: acquire_lock_if_needed_def take_lock_def lock_env_mutex_def)
  qed
qed

lemma enter_shape:
  assumes inv: "scope_inv t (p, ts)"
    and acq: "acquire_lock_if_needed t (p, ts) = (Returned (), (p1, ts1))"
    and p1: "ts_lock ts1" "pr_owner p1 = Some t" "ts_stack ts1 = ts_stack ts"
      "ts_depth ts1 = ts_depth ts" "pr_env p1 = pr_env p"
    and lp: "apply_loop vars [] (pr_env p) = (Returned saved, e')"
  defines "g \<equiv> \<lparr>gs_saved = saved, gs_finished = False\<rparr>"
  shows "\<exists>p' ts'. enter_scope t vars (p, ts) = (Returned (length (ts_stack ts)), (p', ts')) \<and>
     scope_inv t (p', ts') \<and> base_env (p', ts') = base_env (p, ts) \<and>
     ts_stack ts' = ts_stack ts @ [g] \<and> pr_env p' = e' \<and> pr_owner p' = Some t"
proof -
  have r: "restore_saved saved e' = pr_env p"
    using apply_loop_restores [OF lp] by (simp add: restore_saved_def)
  have "enter_scope t vars (p, ts) = (Returned (length (ts_stack ts)),
      (p1\<lparr>pr_env := e'\<rparr>, ts1\<lparr>ts_depth := ts_depth ts + 1, ts_stack := ts_stack ts @ [g]\<rparr>))"
    using acq p1 lp by (simp add: enter_scope_def apply_env_vars_def g_def)
  moreover have "scope_inv t (p1\<lparr>pr_env := e'\<rparr>,
      ts1\<lparr>ts_depth := ts_depth ts + 1, ts_stack := ts_stack ts @ [g]\<rparr>)"
    using inv p1 by (simp add: scope_inv_def g_def)
  moreover have "base_env (p1\<lparr>pr_env := e'\<rparr>,
      ts1\<lparr>ts_depth := ts_depth ts + 1, ts_stack := ts_stack ts @ [g]\<rparr>) = base_env (p, ts)"
    using r by (simp add: base_env_def g_def)
  ultimately show ?thesis using p1 by (intro exI conjI) (assumption | simp)+
qed

lemma enter_returned:
  assumes inv: "scope_inv t (p, ts)" and e: "enter_scope t vars (p, ts) = (Returned i, (p', ts'))"
  shows "scope_inv t (p', ts') \<and> base_env (p', ts') = base_env (p, ts) \<and> i = length (ts_stack ts) \<and>
     (\<exists>saved. ts_stack ts' = ts_stack ts @ [\<lparr>gs_saved = saved, gs_finished = False\<rparr>]) \<and>
     pr_owner p' = Some t \<and> (pr_owner p = None \<or> pr_owner p = Some t)"
proof -
  obtain r e' where lp: "apply_loop vars [] (pr_env p) = (r, e')" by (cases "apply_loop vars [] (pr_env p)")
  from inv show ?thesis
  proof (cases rule: acquire_cases)
    case held
    with e lp obtain saved where "r = Returned saved"
      by (cases r) (auto simp: enter_scope_def apply_env_vars_def)
    with enter_shape [OF inv held(2) held(4,3) refl refl refl, of vars saved e'] lp held(3) e
    show ?thesis by auto
  next
    case taken
    with e lp obtain saved where "r = Returned saved"
      by (cases r) (auto simp: enter_scope_def apply_env_vars_def)
    with enter_shape [OF inv taken(4), of vars saved e'] lp taken(2) e show ?thesis by auto
  next
    case blocked
    with e show ?thesis by (simp add: enter_scope_def)
  qed
qed

lemma enter_ok:
  assumes inv: "scope_inv t (p, ts)" and v: "list_all valid_var vars"
    and free: "pr_owner p = None \<or> pr_owner p = Some t"
  shows "\<exists>p' ts'. enter_scope t vars (p, ts) = (Returned (length (ts_stack ts)), (p', ts')) \<and>
     scope_inv t (p', ts') \<and> base_env (p', ts') = base_env (p, ts) \<and>
     pr_env p' = override_env (pr_env p) vars \<and> pr_owner p' = Some t"
proof -
  obtain saved where lp: "apply_loop vars [] (pr_env p) = (Returned saved, override_env (pr_env p) vars)"
    using apply_loop_valid [OF v] by blast
  from inv show ?thesis
  proof (cases rule: acquire_cases)
    case held
    with enter_shape [OF inv held(2) held(4,3) refl refl refl lp] show ?thesis by blast
  next
    case taken
    with enter_shape [OF inv taken(4) _ _ _ _ _ lp] show ?thesis by auto
  next
    case blocked
    with free show ?thesis by auto
  qed
qed

lemma force_restore_inv:
  assumes l: "ts_lock ts" and o: "pr_owner p = Some t"
  shows "\<exists>s'. force_restore_and_reset t (p, ts) = (Returned (), s') \<and> scope_inv t s' \<and>
     base_env s' = base_env (p, ts) \<and> ts_stack (snd s') = [] \<and> ts_depth (snd s') = 0 \<and>
     pr_owner (fst s') = None"
  using l by (cases "ts_stack ts = []")
    (auto simp: force_restore_and_reset_def reset_depth_and_unlock_def drop_env_guard_def Let_def
      ensure_lock_for_restore_def restore_all_scopes_def scope_inv_def base_env_def)

lemma exit_idle:
  assumes inv: "scope_inv t (p, ts)" and d: "ts_depth ts = 0"
  shows "exit_scope t i (p, ts) = (Returned (), (p, ts))"
  using scope_inv_idle [OF inv] d by (simp add: exit_scope_def force_restore_and_reset_def)

lemma exit_dead:
  assumes inv: "scope_inv t (p, ts)" and d: "ts_depth ts > 0" and dead: "\<not> live_at (p, ts) i"
  shows "\<exists>s'. exit_scope t i (p, ts) = (Returned (), s') \<and> scope_inv t s' \<and>
     base_env s' = base_env (p, ts) \<and> ts_stack (snd s') = [] \<and> pr_owner (fst s') = None"
proof -
  have l: "ts_lock (ts\<lparr>ts_depth := ts_depth ts - 1\<rparr>)" and o: "pr_owner p = Some t"
    using inv d by (auto simp: scope_inv_def)
  from dead have c: "i \<ge> length (ts_stack ts) \<or> gs_finished (ts_stack ts ! i)"
    by (auto simp: live_at_def)
  from force_restore_inv [OF l o] obtain s' where
    "force_restore_and_reset t (p, ts\<lparr>ts_depth := ts_depth ts - 1\<rparr>) = (Returned (), s')"
    "scope_inv t s'" "base_env s' = base_env (p, ts)" "ts_stack (snd s') = []" "pr_owner (fst s') = None"
    by (auto simp: base_env_def)
  with c d show ?thesis by (auto simp: exit_scope_def finish_scope_def)
qed

lemma exit_live:
  assumes inv: "scope_inv t (p, ts)" and live: "live_at (p, ts) i"
  shows "\<exists>s'. exit_scope t i (p, ts) = (Returned (), s') \<and> scope_inv t s' \<and>
     base_env s' = base_env (p, ts) \<and> (\<forall>j. live_at s' j \<longleftrightarrow> live_at (p, ts) j \<and> j \<noteq> i) \<and>
     (pr_owner (fst s') = None \<or> pr_owner (fst s') = Some t)"
proof -
  let ?st = "ts_stack ts"
  let ?st1 = "?st[i := (?st ! i)\<lparr>gs_finished := True\<rparr>]"
  have i: "i < length ?st" "\<not> gs_finished (?st ! i)" using live by (auto simp: live_at_def)
  then have d: "ts_depth ts > 0" using inv open_count_pos by (auto simp: scope_inv_def)
  have l: "ts_lock ts" and o: "pr_owner p = Some t" and n: "ts_depth ts = open_count ?st"
    using inv d by (auto simp: scope_inv_def)
  obtain rest e' where pf: "pop_finished (rev ?st1) (pr_env p) = (rest, e')"
    by (cases "pop_finished (rev ?st1) (pr_env p)")
  have rest: "open_count rest = ts_depth ts - 1" "rest \<noteq> [] \<longrightarrow> \<not> gs_finished (hd rest)"
    using pop_finished_rest [OF pf] open_count_finish [OF i] n by auto
  have base: "pop_all rest e' = pop_all (rev ?st) (pr_env p)"
    using pop_finished_base [OF pf] i(1) by simp
  let ?p1 = "p\<lparr>pr_env := e'\<rparr>"
  let ?ts1 = "ts\<lparr>ts_depth := ts_depth ts - 1, ts_stack := rev rest\<rparr>"
  have fin: "finish_scope t i (p, ts\<lparr>ts_depth := ts_depth ts - 1\<rparr>) = (Returned True, (?p1, ?ts1))"
    using i l pf by (simp add: finish_scope_def restore_finished_scopes_def ensure_lock_for_restore_def)
  have lv: "live_at (?p1, ?ts1) j \<longleftrightarrow> live_at (p, ts) j \<and> j \<noteq> i" for j
  proof -
    have pre: "prefix (rev rest) ?st1" and
      keep: "\<And>j. j < length ?st1 \<Longrightarrow> \<not> gs_finished (?st1 ! j) \<Longrightarrow> j < length rest"
      using pop_finished_rev [OF pf] by auto
    obtain zs where zs: "?st1 = rev rest @ zs" using pre by (auto simp: prefix_def)
    have len: "length rest \<le> length ?st" using zs by (metis length_append length_list_update length_rev le_add1)
    have nth: "rev rest ! j = ?st1 ! j" if "j < length rest"
      using that zs by (simp add: nth_append)
    have st1: "?st1 ! j = (if j = i then (?st ! i)\<lparr>gs_finished := True\<rparr> else ?st ! j)" if "j < length ?st"
      using that i(1) by (simp add: nth_list_update)
    show ?thesis
      using nth st1 keep [of j] len by (auto simp: live_at_def split: if_splits)
  qed
  show ?thesis
  proof (cases "ts_depth ts - 1 = 0")
    case True
    then have "rest = []" using rest by (cases rest) auto
    then have "exit_scope t i (p, ts) = (Returned (), drop_env_guard (?p1, ?ts1))"
      using fin d l True by (simp add: exit_scope_def release_outermost_lock_def)
    moreover have "scope_inv t (drop_env_guard (?p1, ?ts1))"
      using \<open>rest = []\<close> True by (simp add: scope_inv_def drop_env_guard_def)
    moreover have "base_env (drop_env_guard (?p1, ?ts1)) = base_env (p, ts)"
      using base by (simp add: base_env_def drop_env_guard_def)
    moreover have "live_at (drop_env_guard (?p1, ?ts1)) j = live_at (?p1, ?ts1) j" for j
      by (simp add: live_at_def drop_env_guard_def)
    ultimately show ?thesis using lv by (auto simp: drop_env_guard_def)
  next
    case False
    then have "exit_scope t i (p, ts) = (Returned (), (?p1, ?ts1))"
      using fin d by (simp add: exit_scope_def)
    moreover have "scope_inv t (?p1, ?ts1)"
      using False rest l o d by (auto simp: scope_inv_def last_rev)
    moreover have "base_env (?p1, ?ts1) = base_env (p, ts)"
      using base by (simp add: base_env_def)
    ultimately show ?thesis using lv o by auto
  qed
qed

text \<open>Whatever the index, leaving returns, keeps the invariant and the environment under the stack.\<close>

lemma exit_total:
  assumes inv: "scope_inv t (p, ts)"
  shows "\<exists>s'. exit_scope t i (p, ts) = (Returned (), s') \<and> scope_inv t s' \<and>
     base_env s' = base_env (p, ts) \<and>
     (pr_owner p = Some t \<longrightarrow> pr_owner (fst s') \<in> {None, Some t}) \<and>
     (pr_owner p \<noteq> Some t \<longrightarrow> s' = (p, ts))"
proof (cases "ts_depth ts = 0")
  case True
  with exit_idle [OF inv True] inv scope_inv_idle [OF inv] show ?thesis by auto
next
  case False
  then have d: "ts_depth ts > 0" and o: "pr_owner p = Some t" using inv by (auto simp: scope_inv_def)
  show ?thesis
  proof (cases "live_at (p, ts) i")
    case True
    with exit_live [OF inv True] o show ?thesis by auto
  next
    case False
    with exit_dead [OF inv d False] o show ?thesis by auto
  qed
qed

section \<open>The contract and the guards' lifetime\<close>

definition enter_opt :: "nat \<Rightarrow> var_change list \<Rightarrow> scope_state \<Rightarrow> (nat \<times> scope_state) option" where
  "enter_opt t vars s = (case enter_scope t vars s of (Returned i, s') \<Rightarrow> Some (i, s') | _ \<Rightarrow> None)"

definition exit_opt :: "nat \<Rightarrow> nat \<Rightarrow> scope_state \<Rightarrow> scope_state option" where
  "exit_opt t i s = (case exit_scope t i s of (Returned _, s') \<Rightarrow> Some s' | _ \<Rightarrow> None)"

lemma enter_opt_Some: "enter_opt t vars s = Some (i, s') \<longleftrightarrow> enter_scope t vars s = (Returned i, s')"
  by (auto simp: enter_opt_def split: prod.splits ctl.splits)

lemma exit_opt_Some: "exit_opt t i s = Some s' \<longleftrightarrow> exit_scope t i s = (Returned (), s')"
  by (auto simp: exit_opt_def split: prod.splits ctl.splits)

interpretation guards: env_scopes "enter_opt t" "exit_opt t" "scope_inv t" live_at base_env
    "\<lambda>s. pr_env (fst s)" for t
proof (unfold_locales, goal_cases)
  case (1 s vars h s')
  obtain p ts p' ts' where s: "s = (p, ts)" "s' = (p', ts')" by (cases s; cases s')
  have e: "enter_scope t vars (p, ts) = (Returned h, (p', ts'))" using 1 s by (simp add: enter_opt_Some)
  from enter_returned [OF _ e] 1 s obtain saved where
    "scope_inv t s'" "base_env s' = base_env s" "h = length (ts_stack ts)"
    "ts_stack ts' = ts_stack ts @ [\<lparr>gs_saved = saved, gs_finished = False\<rparr>]" by auto
  then show ?case using s by (auto simp: live_at_def nth_append)
next
  case (2 s h)
  obtain p ts where s: "s = (p, ts)" by (cases s)
  from exit_live [of t p ts h] 2 s obtain s' where
    "exit_scope t h s = (Returned (), s')" "scope_inv t s'" "base_env s' = base_env s"
    "\<forall>j. live_at s' j \<longleftrightarrow> live_at s j \<and> j \<noteq> h" by auto
  then show ?case by (intro exI [of _ s']) (simp add: exit_opt_Some)
next
  case (3 s)
  then show ?case using scope_inv_idle_iff [of t s] scope_inv_idle(4) [of t s] by simp
qed

text \<open>Calls of one thread, in any order and with any index; \<open>None\<close> if a call panics or would block.\<close>

datatype scope_op = Enter "var_change list" | Exit nat

fun run_op :: "nat \<Rightarrow> scope_op \<Rightarrow> scope_state \<Rightarrow> scope_state option" where
  "run_op t (Enter vars) s = map_option snd (enter_opt t vars s)"
| "run_op t (Exit i) s = exit_opt t i s"

fun op_valid :: "scope_op \<Rightarrow> bool" where
  "op_valid (Enter vars) = list_all valid_var vars"
| "op_valid (Exit i) = True"

lemma run_op_ok:
  assumes "scope_inv t s" "op_valid a" "pr_owner (fst s) \<in> {None, Some t}"
  shows "\<exists>s'. run_op t a s = Some s' \<and> scope_inv t s' \<and> base_env s' = base_env s \<and>
     pr_owner (fst s') \<in> {None, Some t}"
proof -
  obtain p ts where s: "s = (p, ts)" by (cases s)
  show ?thesis
  proof (cases a)
    case (Enter vars)
    with assms s enter_ok [of t p ts vars] obtain p' ts' where
      "enter_scope t vars (p, ts) = (Returned (length (ts_stack ts)), (p', ts'))"
      "scope_inv t (p', ts')" "base_env (p', ts') = base_env (p, ts)" "pr_owner p' = Some t" by auto
    with Enter s show ?thesis by (auto simp: enter_opt_def)
  next
    case (Exit i)
    with assms s exit_total [of t p ts i] obtain s' where
      "exit_scope t i (p, ts) = (Returned (), s')" "scope_inv t s'" "base_env s' = base_env (p, ts)"
      "pr_owner (fst s') \<in> {None, Some t}" by auto
    with Exit s show ?thesis by (auto simp: exit_opt_def)
  qed
qed

lemma run_ops_ok:
  "scope_inv t s \<Longrightarrow> list_all op_valid ops \<Longrightarrow> pr_owner (fst s) \<in> {None, Some t} \<Longrightarrow>
   \<exists>s'. run_opt (run_op t) ops s = Some s' \<and> scope_inv t s' \<and> base_env s' = base_env s \<and>
     pr_owner (fst s') \<in> {None, Some t}"
proof (induction ops arbitrary: s)
  case (Cons a ops)
  then obtain s1 where "run_op t a s = Some s1" "scope_inv t s1" "base_env s1 = base_env s"
    "pr_owner (fst s1) \<in> {None, Some t}" using run_op_ok [of t s a] by auto
  with Cons.IH [of s1] Cons.prems(2) show ?case by auto
qed auto

section \<open>All the threads of a process\<close>

type_synonym scope_sys = "proc \<times> (nat \<Rightarrow> thread_state)"

text \<open>
  A thread that ends drops its thread-local \<open>ThreadState\<close>: a lock it still holds (a guard that was
  leaked) is released, poisoned when the thread is unwinding, and nothing is restored.
\<close>

definition end_thread :: "nat \<Rightarrow> bool \<Rightarrow> scope_sys \<Rightarrow> scope_sys" where
  "end_thread t panicking s = (case s of (p, th) \<Rightarrow>
     (if ts_lock (th t) then p\<lparr>pr_owner := None, pr_poisoned := pr_poisoned p \<or> panicking\<rparr> else p,
      th(t := new_thread_state)))"

inductive scope_step :: "scope_sys \<Rightarrow> scope_sys \<Rightarrow> bool" where
  step_enter: "enter_scope t vars (p, th t) = (Returned i, (p', ts')) \<Longrightarrow>
     scope_step (p, th) (p', th(t := ts'))"
| step_blocked: "enter_scope t vars (p, th t) = (WouldBlock, (p', ts')) \<Longrightarrow>
     scope_step (p, th) (p', th(t := ts'))"
| step_exit: "exit_scope t i (p, th t) = (r, (p', ts')) \<Longrightarrow>
     scope_step (p, th) (p', th(t := ts'))"

text \<open>Runs of the process; the first argument is the environment outside all scopes, which only a
  thread that dies inside a scope changes.\<close>

inductive scope_run :: "env \<Rightarrow> scope_sys \<Rightarrow> bool" where
  run_start: "scope_run e (\<lparr>pr_env = e, pr_owner = None, pr_poisoned = b\<rparr>, \<lambda>_. new_thread_state)"
| run_step: "scope_run e s \<Longrightarrow> scope_step s s' \<Longrightarrow> scope_run e s'"
| run_end: "scope_run e (p, th) \<Longrightarrow>
     scope_run (if ts_lock (th t) then pr_env p else e) (end_thread t panicking (p, th))"

definition sys_inv :: "env \<Rightarrow> scope_sys \<Rightarrow> bool" where
  "sys_inv e s = (case s of (p, th) \<Rightarrow>
     (\<forall>t. scope_inv t (p, th t)) \<and>
     (pr_owner p = None \<longrightarrow> pr_env p = e) \<and>
     (\<forall>t. pr_owner p = Some t \<longrightarrow> base_env (p, th t) = e))"

lemma scope_inv_owner:
  "scope_inv t (p, ts) \<Longrightarrow> (pr_owner p' = Some t \<longleftrightarrow> pr_owner p = Some t) \<Longrightarrow> scope_inv t (p', ts)"
  by (auto simp: scope_inv_def)

lemma base_idle: "scope_inv t (p, ts) \<Longrightarrow> pr_owner p \<noteq> Some t \<Longrightarrow> base_env (p, ts) = pr_env p"
  using scope_inv_idle(4) [of t "(p, ts)"] by (auto simp: scope_inv_def)

lemma sys_inv_owner_base:
  assumes "sys_inv e (p, th)" and "pr_owner p = None \<or> pr_owner p = Some t"
  shows "base_env (p, th t) = e"
  using assms base_idle [of t p "th t"] by (auto simp: sys_inv_def)

lemma sys_inv_update:
  assumes s: "sys_inv e (p, th)" and t: "scope_inv t (p', ts')" "base_env (p', ts') = e"
    and o: "pr_owner p \<in> {None, Some t}" "pr_owner p' \<in> {None, Some t}"
  shows "sys_inv e (p', th(t := ts'))"
proof -
  have others: "scope_inv u (p', th u)" if "u \<noteq> t" for u
  proof (rule scope_inv_owner)
    show "scope_inv u (p, th u)" using s by (simp add: sys_inv_def)
    show "pr_owner p' = Some u \<longleftrightarrow> pr_owner p = Some u" using o that by auto
  qed
  have free: "pr_env p' = e" if "pr_owner p' = None"
    using that t base_idle [of t p' ts'] by simp
  show ?thesis
    unfolding sys_inv_def prod.case
  proof (intro conjI allI impI)
    fix u
    show "scope_inv u (p', (th(t := ts')) u)" using others [of u] t(1) by (cases "u = t") auto
  next
    assume "pr_owner p' = None"
    then show "pr_env p' = e" by (rule free)
  next
    fix u
    assume "pr_owner p' = Some u"
    with o(2) have "u = t" by auto
    with t(2) show "base_env (p', (th(t := ts')) u) = e" by simp
  qed
qed

lemma scope_inv_lock: "scope_inv t (p, ts) \<Longrightarrow> ts_lock ts \<longleftrightarrow> pr_owner p = Some t"
  unfolding scope_inv_def prod.case by blast

lemma sys_inv_step: "scope_step s s' \<Longrightarrow> sys_inv e s \<Longrightarrow> sys_inv e s'"
proof (induction rule: scope_step.induct)
  case (step_enter t vars p th i p' ts')
  then have i: "scope_inv t (p, th t)" by (simp add: sys_inv_def)
  note en = enter_returned [OF i step_enter.hyps]
  with sys_inv_owner_base [OF step_enter.prems, of t] have "base_env (p', ts') = e" by auto
  with en show ?case by (intro sys_inv_update [OF step_enter.prems]) auto
next
  case (step_blocked t vars p th p' ts')
  then have i: "scope_inv t (p, th t)" by (simp add: sys_inv_def)
  then have "p' = p\<lparr>pr_poisoned := False\<rparr> \<and> ts' = th t"
  proof (cases rule: acquire_cases)
    case held
    with step_blocked.hyps show ?thesis
      by (auto simp: enter_scope_def apply_env_vars_def apply_loop_not_block split: prod.splits ctl.splits)
  next
    case taken
    with step_blocked.hyps show ?thesis
      by (auto simp: enter_scope_def apply_env_vars_def apply_loop_not_block split: prod.splits ctl.splits)
  next
    case blocked
    with step_blocked.hyps show ?thesis by (simp add: enter_scope_def)
  qed
  then have eq: "pr_owner p' = pr_owner p" "pr_env p' = pr_env p" "ts' = th t"
    "\<And>u. base_env (p', th u) = base_env (p, th u)" by (auto simp: base_env_def)
  have "scope_inv u (p', th u)" for u
  proof (rule scope_inv_owner)
    show "scope_inv u (p, th u)" using step_blocked.prems by (simp add: sys_inv_def)
    show "pr_owner p' = Some u \<longleftrightarrow> pr_owner p = Some u" using eq(1) by simp
  qed
  with eq step_blocked.prems show ?case by (simp add: sys_inv_def)
next
  case (step_exit t i p th r p' ts')
  then have "scope_inv t (p, th t)" by (simp add: sys_inv_def)
  with exit_total [of t p "th t" i] step_exit.hyps have
    ex: "scope_inv t (p', ts')" "base_env (p', ts') = base_env (p, th t)"
      "pr_owner p = Some t \<longrightarrow> pr_owner p' \<in> {None, Some t}"
      "pr_owner p \<noteq> Some t \<longrightarrow> p' = p \<and> ts' = th t" by auto
  show ?case
  proof (cases "pr_owner p = Some t")
    case True
    with ex sys_inv_owner_base [OF step_exit.prems, of t] show ?thesis
      by (intro sys_inv_update [OF step_exit.prems]) auto
  next
    case False
    with ex step_exit.prems show ?thesis by simp
  qed
qed

lemma sys_inv_end:
  assumes "sys_inv e (p, th)"
  shows "sys_inv (if ts_lock (th t) then pr_env p else e) (end_thread t panicking (p, th))"
proof -
  have i: "scope_inv u (p, th u)" for u using assms by (simp add: sys_inv_def)
  have l: "ts_lock (th u) \<longleftrightarrow> pr_owner p = Some u" for u
    using i by (rule scope_inv_lock)
  show ?thesis
  proof (cases "ts_lock (th t)")
    case True
    then have o: "pr_owner p = Some t" using l by simp
    have "scope_inv u (p\<lparr>pr_owner := None, pr_poisoned := pr_poisoned p \<or> panicking\<rparr>, th u)" if "u \<noteq> t" for u
      by (rule scope_inv_owner [OF i]) (use o that in simp)
    with True show ?thesis by (auto simp: end_thread_def sys_inv_def scope_inv_new)
  next
    case False
    with assms l show ?thesis by (auto simp: end_thread_def sys_inv_def scope_inv_new)
  qed
qed

lemma scope_run_inv: "scope_run e s \<Longrightarrow> sys_inv e s"
proof (induction rule: scope_run.induct)
  case (run_start e b)
  then show ?case by (simp add: sys_inv_def scope_inv_new)
next
  case (run_step e s s')
  then show ?case by (blast intro: sys_inv_step)
next
  case (run_end e p th t panicking)
  then show ?case by (blast intro: sys_inv_end)
qed

section \<open>Properties\<close>

text \<open>
  C4. Whatever a thread does with guards, entering scopes over valid names and leaving scopes by
  any index at all (in any order, twice, or one that never existed), every call returns, never
  panicking or blocking when the mutex was free, and the depth, the lock and the stack stay
  consistent. Undoing the open scopes always gives the environment of the start; once the depth is
  back to zero the environment is exactly that one, the stack is empty and the mutex is free.
\<close>

theorem scope_sequences_restore:
  assumes "list_all op_valid ops" and "pr_owner p = None"
  shows "\<exists>p' ts'. run_opt (run_op t) ops (p, new_thread_state) = Some (p', ts') \<and>
     scope_inv t (p', ts') \<and> base_env (p', ts') = pr_env p \<and>
     (ts_depth ts' = 0 \<longrightarrow> pr_env p' = pr_env p \<and> ts_stack ts' = [] \<and> pr_owner p' = None)"
proof -
  have "scope_inv t (p, new_thread_state)" using assms(2) by (simp add: scope_inv_new)
  from run_ops_ok [OF this assms(1)] assms(2) obtain p' ts' where
    r: "run_opt (run_op t) ops (p, new_thread_state) = Some (p', ts')" "scope_inv t (p', ts')"
    "base_env (p', ts') = pr_env p" "pr_owner p' \<in> {None, Some t}"
    by (auto simp: base_env_def new_thread_state_def)
  with scope_inv_idle [OF r(2)] show ?thesis by auto
qed

text \<open>Two nested scopes on one name, the outer one dropped first, then an index that was never given.\<close>

definition demo_proc :: proc where
  "demo_proc = \<lparr>pr_env = [''HOME'' \<mapsto> ''/root''], pr_owner = None, pr_poisoned = True\<rparr>"

definition demo_ops :: "scope_op list" where
  "demo_ops = [Enter [(''HOME'', Some ''/a''), (''TZ'', Some ''UTC'')], Enter [(''HOME'', None)],
     Exit 0, Exit 1, Enter [(''TZ'', Some ''CET'')], Exit 9]"

theorem scope_sequences_restore_witness:
  "\<exists>p' ts'. run_opt (run_op 3) demo_ops (demo_proc, new_thread_state) = Some (p', ts') \<and>
     scope_inv 3 (p', ts') \<and> base_env (p', ts') = pr_env demo_proc \<and>
     (ts_depth ts' = 0 \<longrightarrow> pr_env p' = pr_env demo_proc \<and> ts_stack ts' = [] \<and> pr_owner p' = None)"
  by (rule scope_sequences_restore)
     (simp_all add: demo_ops_def demo_proc_def valid_var_def validate_env_key_def contains_equals_def has_nul_def)

text \<open>
  C30. Guards may be dropped in any order: after opening any scopes from an idle thread, closing
  their guards in any order brings the environment back to what it was and releases the mutex.
\<close>

theorem scope_drop_order_irrelevant:
  assumes "scope_inv t s" and "ts_depth (snd s) = 0"
    and "open_all (enter_opt t) vss s = Some (indices, s1)"
    and "distinct order" and "set order = set indices"
  shows "\<exists>s2. run_opt (exit_opt t) order s1 = Some s2 \<and> pr_env (fst s2) = pr_env (fst s) \<and>
     ts_depth (snd s2) = 0 \<and> pr_owner (fst s2) \<noteq> Some t"
proof -
  have "\<And>h. \<not> live_at s h" using scope_inv_idle_iff [OF assms(1)] assms(2) by simp
  from guards.bracket_any_order [OF assms(1) this assms(3,4,5)] obtain s2 where
    s2: "run_opt (exit_opt t) order s1 = Some s2" "scope_inv t s2" "\<forall>k. \<not> live_at s2 k"
    "pr_env (fst s2) = pr_env (fst s)" by auto
  with scope_inv_idle_iff [OF s2(2)] scope_inv_idle(3) [OF s2(2)] show ?thesis by auto
qed

definition demo_scopes :: "var_change list list" where
  "demo_scopes = [[(''HOME'', Some ''/a'')], [(''HOME'', None), (''TZ'', Some ''UTC'')], []]"

lemma demo_scopes_open:
  "\<exists>s1. open_all (enter_opt 3) demo_scopes (demo_proc, new_thread_state) = Some ([0, 1, 2], s1)"
  by (simp add: demo_scopes_def demo_proc_def new_thread_state_def enter_opt_def enter_scope_def
      acquire_lock_if_needed_def take_lock_def ensure_lock_is_clean_def lock_env_mutex_def
      apply_env_vars_def apply_single_var_def validate_env_key_def contains_equals_def has_nul_def)

theorem scope_drop_order_irrelevant_witness:
  "\<exists>s1 s2. open_all (enter_opt 3) demo_scopes (demo_proc, new_thread_state) = Some ([0, 1, 2], s1) \<and>
     run_opt (exit_opt 3) [1, 0, 2] s1 = Some s2 \<and> pr_env (fst s2) = pr_env demo_proc \<and>
     ts_depth (snd s2) = 0 \<and> pr_owner (fst s2) \<noteq> Some 3"
proof -
  obtain s1 where o: "open_all (enter_opt 3) demo_scopes (demo_proc, new_thread_state) = Some ([0, 1, 2], s1)"
    using demo_scopes_open by blast
  have "scope_inv 3 (demo_proc, new_thread_state)" by (simp add: scope_inv_new demo_proc_def)
  from scope_drop_order_irrelevant [OF this _ o, of "[1, 0, 2]"] o show ?thesis
    by (force simp: new_thread_state_def)
qed

text \<open>
  C16. The mutex serialises the threads of a process: in every reachable state at most one thread
  is inside a scope, any other thread that enters waits, and while no thread is inside, the
  environment is the one outside all scopes.
\<close>

theorem scope_mutual_exclusion:
  assumes "scope_run e (p, th)"
  shows "(ts_depth (th t) > 0 \<longrightarrow> u \<noteq> t \<longrightarrow>
            ts_depth (th u) = 0 \<and> fst (enter_scope u vars (p, th u)) = WouldBlock) \<and>
         ((\<forall>t. ts_depth (th t) = 0) \<longrightarrow> pr_env p = e)"
proof -
  have inv: "sys_inv e (p, th)" using assms by (rule scope_run_inv)
  then have i: "scope_inv v (p, th v)" for v by (simp add: sys_inv_def)
  have own: "ts_depth (th v) > 0 \<longleftrightarrow> pr_owner p = Some v" for v
    using scope_inv_lock [OF i] i [of v] by (auto simp: scope_inv_def)
  have alone: "ts_depth (th u) = 0" if "ts_depth (th t) > 0" "u \<noteq> t"
  proof -
    have "pr_owner p = Some t" using own that(1) by simp
    then have "pr_owner p \<noteq> Some u" using that(2) by simp
    then show ?thesis using own [of u] by simp
  qed
  have blocked: "fst (enter_scope u vars (p, th u)) = WouldBlock"
    if d: "ts_depth (th t) > 0" and ut: "u \<noteq> t"
  proof -
    have o: "pr_owner p = Some t" using own d by simp
    have z: "ts_depth (th u) = 0" using alone [OF d ut] .
    have "\<not> ts_lock (th u)" using scope_inv_lock [OF i] o ut by simp
    then show ?thesis using o z ut
      by (simp add: enter_scope_def acquire_lock_if_needed_def take_lock_def
          ensure_lock_is_clean_def lock_env_mutex_def scope_inv_def)
  qed
  have quiet: "pr_env p = e" if "\<forall>t. ts_depth (th t) = 0"
  proof -
    have "pr_owner p \<noteq> Some v" for v using own [of v] that by simp
    then have "pr_owner p = None" by (cases "pr_owner p") auto
    with inv show ?thesis by (simp add: sys_inv_def)
  qed
  show ?thesis using alone blocked quiet by blast
qed

definition demo_inside :: scope_sys where
  "demo_inside =
     (\<lparr>pr_env = [''TZ'' \<mapsto> ''UTC''], pr_owner = Some 3, pr_poisoned = False\<rparr>,
      (\<lambda>_. new_thread_state)(3 := \<lparr>ts_depth = 1, ts_lock = True,
         ts_stack = [\<lparr>gs_saved = [(''TZ'', None)], gs_finished = False\<rparr>]\<rparr>))"

lemma demo_inside_run: "scope_run Map.empty demo_inside"
proof -
  let ?p = "\<lparr>pr_env = Map.empty, pr_owner = None, pr_poisoned = False\<rparr>"
  have "enter_scope 3 [(''TZ'', Some ''UTC'')] (?p, new_thread_state) =
      (Returned 0, (fst demo_inside, snd demo_inside 3))"
    by (simp add: demo_inside_def new_thread_state_def enter_scope_def acquire_lock_if_needed_def
        take_lock_def ensure_lock_is_clean_def lock_env_mutex_def apply_env_vars_def
        apply_single_var_def validate_env_key_def contains_equals_def has_nul_def)
  then have "scope_step (?p, \<lambda>_. new_thread_state)
      (fst demo_inside, (\<lambda>_. new_thread_state)(3 := snd demo_inside 3))"
    by (rule step_enter)
  moreover have "(\<lambda>_. new_thread_state)(3 := snd demo_inside 3) = snd demo_inside"
    by (simp add: demo_inside_def)
  ultimately show ?thesis
    using run_step [OF run_start [of Map.empty False]] by simp
qed

theorem scope_mutual_exclusion_witness:
  "ts_depth (snd demo_inside 3) = 1 \<and>
   fst (enter_scope 4 [] (fst demo_inside, snd demo_inside 4)) = WouldBlock"
proof -
  have "scope_run Map.empty (fst demo_inside, snd demo_inside)" using demo_inside_run by simp
  from scope_mutual_exclusion [OF this, of 3 4 "[]"] show ?thesis by (simp add: demo_inside_def)
qed

lemma apply_loop_rejects:
  "list_all valid_var vs \<Longrightarrow> \<not> validate_env_key bad \<Longrightarrow>
   apply_loop (vs @ (bad, v) # rest) saved e = (Panic, override_env e vs)"
proof (induction vs arbitrary: saved e)
  case (Cons kv vs)
  obtain k w where kv: "kv = (k, w)" by (cases kv)
  with Cons.prems have "apply_single_var k w e = Some (e k, e(k := w))" "validate_env_key k"
    by (auto simp: valid_var_def apply_single_var_def split: option.splits)
  with Cons kv show ?case by simp
qed simp



end
