(* ===== verification/Pg_Worker.thy ===== *)
theory Pg_Worker
  imports Worker_Process Cleanup Scoped_Env
begin

text \<open>
  The worker binary, \<open>src/src/bin/pg_worker.rs\<close>: its arguments, the payload it reads, the environment it
  sets and its five operations, with the recovery of a data directory that an interrupted setup has left.
  The server library \<open>postgresql_embedded\<close> is the record \<open>postgres_api\<close>, what else comes from outside the
  sources (the JSON codec, the rendering of errors, the runtime) the record \<open>worker_api\<close>; the file-system
  calls are those of \<open>ext\<close>.
\<close>

section \<open>The server library\<close>

datatype pg_error = DatabaseStopError string | IoError string | OtherPgError string

datatype pg_status = NotInstalled | Installed | Stopped | Started

text \<open>
  A value of \<open>PostgreSQL\<close> has a state of its own type \<open>'g\<close>; \<open>pg_drop\<close> is what happens when it goes out of
  scope (the library stops a temporary server then).
\<close>

record 'g postgres_api =
  pg_new :: "settings \<Rightarrow> 'g"
  pg_settings :: "'g \<Rightarrow> settings"
  pg_status_of :: "'g \<Rightarrow> world \<Rightarrow> pg_status"
  pg_setup :: "'g \<Rightarrow> world \<Rightarrow> (pg_error + unit) \<times> 'g \<times> world"
  pg_start :: "'g \<Rightarrow> world \<Rightarrow> (pg_error + unit) \<times> 'g \<times> world"
  pg_stop :: "'g \<Rightarrow> world \<Rightarrow> (pg_error + unit) \<times> 'g \<times> world"
  pg_drop :: "'g \<Rightarrow> world \<Rightarrow> world"

record 'g worker_api =
  wa_lossy :: "string \<Rightarrow> string"
  wa_show_report :: "report \<Rightarrow> string"
  wa_show_pg :: "pg_error \<Rightarrow> string"
  wa_decode :: "string \<Rightarrow> string + worker_payload"
  wa_build_runtime :: "world \<Rightarrow> io_kind + unit"
  wa_pg :: "'g postgres_api"

section \<open>Arguments\<close>

datatype worker_error =
    InvalidArgs string
  | ConfigRead report
  | ConfigParse string
  | SettingsConversion string
  | RuntimeInit io_kind
  | PostgresOperation string
  | CleanupFailed "removal_failure list"
  | DataDirRecovery string

datatype operation = WSetup | WStart | WStop | WCleanup | WCleanupFull

definition quoted :: "string \<Rightarrow> string" where "quoted s = CHR 0x27 # s @ [CHR 0x27]"

text \<open>The lossy text of an argument is one of the names exactly when the argument is.\<close>

definition operation_parse :: "'g worker_api \<Rightarrow> string \<Rightarrow> worker_error + operation" where
  "operation_parse W arg =
     (if arg = ''setup'' then Inr WSetup
      else if arg = ''start'' then Inr WStart
      else if arg = ''stop'' then Inr WStop
      else if arg = ''cleanup'' then Inr WCleanup
      else if arg = ''cleanup-full'' then Inr WCleanupFull
      else Inl (InvalidArgs (''unknown operation '' @ quoted (wa_lossy W arg) @
        ''; expected setup, start, stop, cleanup, or cleanup-full'')))"

fun parse_args :: "'g worker_api \<Rightarrow> string list \<Rightarrow> worker_error + (operation \<times> pathbuf)" where
  "parse_args W [] = Inl (InvalidArgs ''missing operation'')"
| "parse_args W [prog] = Inl (InvalidArgs ''missing operation'')"
| "parse_args W (prog # a # args) =
     try_res (operation_parse W a) (\<lambda>oper.
       case args of
         [] \<Rightarrow> Inl (InvalidArgs ''missing config path'')
       | path # extra \<Rightarrow>
           if \<not> utf8_valid path then Inl (InvalidArgs (''config path not UTF-8: '' @ wa_lossy W path))
           else (case extra of
               [] \<Rightarrow> Inr (oper, path)
             | e # _ \<Rightarrow> Inl (InvalidArgs (''unexpected extra argument: '' @ wa_lossy W e))))"

definition load_payload ::
  "'h ext \<Rightarrow> 'g worker_api \<Rightarrow> pathbuf \<Rightarrow> world \<Rightarrow> worker_error + worker_payload" where
  "load_payload X W path w =
     try_res (map_err ConfigRead (ambient_dir_and_path X (components path) w)) (\<lambda>(dir, rel).
     try_res (map_err (\<lambda>k. ConfigRead (IoErr k)) (cap_read X dir rel w)) (\<lambda>contents.
       map_err ConfigParse (wa_decode W contents)))"

definition build_runtime :: "'g worker_api \<Rightarrow> world \<Rightarrow> worker_error + unit" where
  "build_runtime W w = map_err RuntimeInit (wa_build_runtime W w)"

definition extract_data_dir :: "settings \<Rightarrow> worker_error + pathbuf" where
  "extract_data_dir s =
     (if utf8_valid (st_data_dir s) then Inr (st_data_dir s)
      else Inl (SettingsConversion ''data_dir must be valid UTF-8''))"

definition extract_install_dir :: "settings \<Rightarrow> worker_error + pathbuf" where
  "extract_install_dir s =
     (if utf8_valid (st_installation_dir s) then Inr (st_installation_dir s)
      else Inl (SettingsConversion ''installation_dir must be valid UTF-8''))"

text \<open>The variables are set in order; \<open>set_var\<close> and \<open>remove_var\<close> panic on a bad name or value, and then what
  was set before stays. The result tells whether all went well.\<close>

fun apply_worker_environment :: "env_vars \<Rightarrow> world \<Rightarrow> bool \<times> world" where
  "apply_worker_environment [] w = (True, w)"
| "apply_worker_environment ((key, value) # vars) w =
     (if \<not> validate_env_key key then (False, w)
      else case apply_single_var key value (w_env w) of
        None \<Rightarrow> (False, w)
      | Some (_, e) \<Rightarrow> apply_worker_environment vars (w\<lparr>w_env := e\<rparr>))"

section \<open>Recovery of a data directory\<close>

definition pg_filenode_map_marker :: path where
  "pg_filenode_map_marker = [Normal ''global'', Normal ''pg_filenode.map'']"

definition has_valid_data_dir :: "'h ext \<Rightarrow> pathbuf \<Rightarrow> world \<Rightarrow> report + bool" where
  "has_valid_data_dir X data_dir w =
     try_res (ambient_dir_and_path X (components data_dir) w) (\<lambda>(dir, rel).
       Inr (cap_exists X dir (rel @ pg_filenode_map_marker) w))"

definition is_dir_empty :: "'h ext \<Rightarrow> pathbuf \<Rightarrow> world \<Rightarrow> report + bool" where
  "is_dir_empty X p w =
     try_res (ambient_dir_and_path X (components p) w) (\<lambda>(dir, rel).
       try_res (map_err IoErr (cap_read_dir X dir rel w)) (\<lambda>names. Inr (names = [])))"

definition reset_data_dir :: "'h ext \<Rightarrow> pathbuf \<Rightarrow> world \<Rightarrow> (report + unit) \<times> world" where
  "reset_data_dir X data_dir w =
     try_st (ambient_dir_and_path X (components data_dir) w, w) (\<lambda>(dir, rel) w.
       if rel = [] then (Inl (Msg ''cannot reset root directory''), w)
       else (case cap_remove_dir_all X dir rel w of
           (Inr _, w') \<Rightarrow> (Inr (), w')
         | (Inl k, w') \<Rightarrow> if k = NotFound then (Inr (), w') else (Inl (IoErr k), w')))"

type_synonym 'a worker_run = "(worker_error + 'a) \<times> world"

definition perform_data_dir_reset :: "'h ext \<Rightarrow> 'g worker_api \<Rightarrow> pathbuf \<Rightarrow> world \<Rightarrow> unit worker_run" where
  "perform_data_dir_reset X W p w =
     map_err_st (\<lambda>e. DataDirRecovery (''reset: '' @ wa_show_report W e)) (reset_data_dir X p w)"

definition recover_invalid_data_dir :: "'h ext \<Rightarrow> 'g worker_api \<Rightarrow> pathbuf \<Rightarrow> world \<Rightarrow> unit worker_run" where
  "recover_invalid_data_dir X W data_dir w =
     (if \<not> path_exists w (components data_dir) then (Inr (), w)
      else
        try_st (map_err (\<lambda>e. DataDirRecovery (''validation: '' @ wa_show_report W e))
                 (has_valid_data_dir X data_dir w), w) (\<lambda>is_valid w.
        try_st (map_err (\<lambda>e. DataDirRecovery (''empty check: '' @ wa_show_report W e))
                 (is_dir_empty X data_dir w), w) (\<lambda>is_empty w.
          if \<not> is_valid \<and> \<not> is_empty then perform_data_dir_reset X W data_dir w else (Inr (), w))))"

section \<open>Operations\<close>

text \<open>An operation on the server returns the server as well, which its caller drops or forgets.\<close>

type_synonym ('a, 'g) pg_run = "(worker_error + 'a) \<times> 'g \<times> world"

definition is_setup_complete :: "'g worker_api \<Rightarrow> 'g \<Rightarrow> pathbuf \<Rightarrow> world \<Rightarrow> bool" where
  "is_setup_complete W g data_dir w \<longleftrightarrow>
     path_is_dir w (components data_dir) \<and> path_exists w (components (join_path data_dir ''PG_VERSION'')) \<and>
     pg_status_of (wa_pg W) g w \<noteq> NotInstalled"

definition run_setup :: "'g worker_api \<Rightarrow> 'g \<Rightarrow> world \<Rightarrow> (unit, 'g) pg_run" where
  "run_setup W g w = (case pg_setup (wa_pg W) g w of
     (r, g', w') \<Rightarrow> (map_err (\<lambda>e. PostgresOperation (''setup failed: '' @ wa_show_pg W e)) r, g', w'))"

definition run_postgres_setup ::
  "'h ext \<Rightarrow> 'g worker_api \<Rightarrow> 'g \<Rightarrow> pathbuf \<Rightarrow> world \<Rightarrow> (unit, 'g) pg_run" where
  "run_postgres_setup X W g data_dir w =
     (if is_setup_complete W g data_dir w then (Inr (), g, w)
      else (case recover_invalid_data_dir X W data_dir w of
          (Inl e, w1) \<Rightarrow> (Inl e, g, w1)
        | (Inr _, w1) \<Rightarrow> run_setup W g w1))"

definition start_if_not_started :: "'g worker_api \<Rightarrow> 'g \<Rightarrow> world \<Rightarrow> (unit, 'g) pg_run" where
  "start_if_not_started W g w =
     (if pg_status_of (wa_pg W) g w = Started then (Inr (), g, w)
      else (case pg_start (wa_pg W) g w of
        (r, g', w') \<Rightarrow> (map_err (\<lambda>e. PostgresOperation (''start failed: '' @ wa_show_pg W e)) r, g', w')))"

definition ensure_postgres_started ::
  "'h ext \<Rightarrow> 'g worker_api \<Rightarrow> 'g \<Rightarrow> pathbuf \<Rightarrow> world \<Rightarrow> (unit, 'g) pg_run" where
  "ensure_postgres_started X W g d w =
     (case run_postgres_setup X W g d w of
        (Inl e, g1, w1) \<Rightarrow> (Inl e, g1, w1)
      | (Inr _, g1, w1) \<Rightarrow> start_if_not_started W g1 w1)"

definition execute_setup :: "'h ext \<Rightarrow> 'g worker_api \<Rightarrow> 'g \<Rightarrow> pathbuf \<Rightarrow> world \<Rightarrow> (unit, 'g) pg_run" where
  "execute_setup = run_postgres_setup"

definition execute_start :: "'h ext \<Rightarrow> 'g worker_api \<Rightarrow> 'g \<Rightarrow> pathbuf \<Rightarrow> world \<Rightarrow> (unit, 'g) pg_run" where
  "execute_start = ensure_postgres_started"

fun stop_missing_pid_is_ok :: "pg_error \<Rightarrow> bool" where
  "stop_missing_pid_is_ok (DatabaseStopError m) \<longleftrightarrow> contains m ''postmaster.pid'' \<and> contains m ''does not exist''"
| "stop_missing_pid_is_ok (IoError m) \<longleftrightarrow> contains m ''postmaster.pid'' \<and> contains m ''does not exist''"
| "stop_missing_pid_is_ok (OtherPgError m) \<longleftrightarrow> False"

definition execute_stop :: "'g worker_api \<Rightarrow> 'g \<Rightarrow> world \<Rightarrow> (unit, 'g) pg_run" where
  "execute_stop W g w =
     (case pg_stop (wa_pg W) g w of
        (Inr _, g', w') \<Rightarrow> (Inr (), g', w')
      | (Inl e, g', w') \<Rightarrow> if stop_missing_pid_is_ok e then (Inr (), g', w')
                           else (Inl (PostgresOperation (''stop failed: '' @ wa_show_pg W e)), g', w'))"

definition run_setup_op :: "'h ext \<Rightarrow> 'g worker_api \<Rightarrow> settings \<Rightarrow> pathbuf \<Rightarrow> world \<Rightarrow> unit worker_run" where
  "run_setup_op X W s data_dir w =
     try_st (build_runtime W w, w) (\<lambda>_ w.
       case execute_setup X W (pg_new (wa_pg W) s) data_dir w of
         (r, g, w') \<Rightarrow> (r, pg_drop (wa_pg W) g w'))"

definition run_start_op :: "'h ext \<Rightarrow> 'g worker_api \<Rightarrow> settings \<Rightarrow> pathbuf \<Rightarrow> world \<Rightarrow> unit worker_run" where
  "run_start_op X W s data_dir w =
     try_st (build_runtime W w, w) (\<lambda>_ w.
       case execute_start X W (pg_new (wa_pg W) s) data_dir w of
         (Inl e, g, w') \<Rightarrow> (Inl e, pg_drop (wa_pg W) g w')
       | (Inr _, g, w') \<Rightarrow> (Inr (), w'))"

definition run_stop_op :: "'g worker_api \<Rightarrow> settings \<Rightarrow> world \<Rightarrow> unit worker_run" where
  "run_stop_op W s w =
     try_st (build_runtime W w, w) (\<lambda>_ w.
       case execute_stop W (pg_new (wa_pg W) s) w of
         (r, g, w') \<Rightarrow> (r, pg_drop (wa_pg W) g w'))"

definition run_cleanup :: "path \<Rightarrow> path option \<Rightarrow> path option \<Rightarrow> world \<Rightarrow> unit worker_run" where
  "run_cleanup data_dir install_dir install_root w =
     map_err_st CleanupFailed (execute_cleanup data_dir install_dir install_root w)"

text \<open>\<open>run_worker\<close>; \<open>None\<close> is a panic while the environment is set.\<close>

definition run_worker ::
  "'h ext \<Rightarrow> 'g worker_api \<Rightarrow> string list \<Rightarrow> world \<Rightarrow> (worker_error + unit) option \<times> world" where
  "run_worker X W args w =
     (let checked =
        try_res (parse_args W args) (\<lambda>(oper, cfg_path).
        try_res (load_payload X W cfg_path w) (\<lambda>payload.
        let s = into_settings (wp_settings payload) in
        try_res (extract_data_dir s) (\<lambda>data_dir. Inr (oper, wp_environment payload, s, data_dir))))
      in case checked of
        Inl e \<Rightarrow> (Some (Inl e), w)
      | Inr (oper, environment, s, data_dir) \<Rightarrow>
          (case apply_worker_environment environment w of
             (False, w1) \<Rightarrow> (None, w1)
           | (True, w1) \<Rightarrow>
               (case
                 (case oper of
                    WCleanup \<Rightarrow> run_cleanup (components data_dir) None None w1
                  | WCleanupFull \<Rightarrow>
                      try_st (extract_install_dir s, w1) (\<lambda>install_dir w.
                        case extract_install_root s (components install_dir) of
                          None \<Rightarrow> (Inl (SettingsConversion ''password_file must be valid UTF-8''), w)
                        | Some install_root \<Rightarrow>
                            run_cleanup (components data_dir) (Some (components install_dir)) install_root w)
                  | WSetup \<Rightarrow> run_setup_op X W s data_dir w1
                  | WStart \<Rightarrow> run_start_op X W s data_dir w1
                  | WStop \<Rightarrow> run_stop_op W s w1)
                of (r, w2) \<Rightarrow> (Some r, w2))))"

section \<open>The request as the worker receives it\<close>

fun operation_of :: "worker_operation \<Rightarrow> operation" where
  "operation_of OpSetup = WSetup"
| "operation_of OpStart = WStart"
| "operation_of OpStop = WStop"
| "operation_of OpCleanup = WCleanup"
| "operation_of OpCleanupFull = WCleanupFull"

lemma operation_parse_iff: "operation_parse W arg = Inr oper \<longleftrightarrow> (\<exists>v. arg = op_as_str v \<and> oper = operation_of v)"
proof -
  have "operation_parse W (op_as_str v) = Inr (operation_of v)" for v
    by (cases v) (simp_all add: operation_parse_def)
  moreover have "\<exists>v. arg = op_as_str v" if "operation_parse W arg = Inr oper"
  proof -
    from that have "arg \<in> op_as_str ` {OpSetup, OpStart, OpStop, OpCleanup, OpCleanupFull}"
      by (auto simp: operation_parse_def split: if_splits)
    then show ?thesis by blast
  qed
  ultimately show ?thesis by fastforce
qed

text \<open>The command lines that are accepted, all of them.\<close>

lemma parse_args_iff:
  "parse_args W args = Inr (oper, cfg) \<longleftrightarrow>
     (\<exists>prog v. args = [prog, op_as_str v, cfg] \<and> oper = operation_of v \<and> utf8_valid cfg)"
proof (cases "(W, args)" rule: parse_args.cases)
  case (3 V prog a rest)
  have "(case rest of [] \<Rightarrow> Inl (InvalidArgs ''missing config path'')
      | path # extra \<Rightarrow>
          if \<not> utf8_valid path then Inl (InvalidArgs (''config path not UTF-8: '' @ wa_lossy W path))
          else (case extra of [] \<Rightarrow> Inr (x, path)
            | e # _ \<Rightarrow> Inl (InvalidArgs (''unexpected extra argument: '' @ wa_lossy W e)))) = Inr (oper, cfg) \<longleftrightarrow>
      rest = [cfg] \<and> x = oper \<and> utf8_valid cfg" for x
    by (auto simp del: utf8_valid.simps split: list.split)
  with 3 show ?thesis by (auto simp: try_res_Inr operation_parse_iff)
qed simp_all


section \<open>The environment of the worker\<close>

lemma apply_worker_environment_loop:
  "apply_loop vars saved (w_env w) = (Returned saved', e) \<Longrightarrow>
     apply_worker_environment vars w = (True, w\<lparr>w_env := e\<rparr>)"
proof (induction vars arbitrary: saved w)
  case (Cons kv vars)
  obtain key val where kv: "kv = (key, val)" by (cases kv)
  from Cons.prems kv obtain old_value e1 where
    1: "validate_env_key key" "apply_single_var key val (w_env w) = Some (old_value, e1)"
      "apply_loop vars (saved @ [(key, old_value)]) e1 = (Returned saved', e)"
    by (auto split: if_splits option.splits prod.splits)
  from Cons.IH [of "saved @ [(key, old_value)]" "w\<lparr>w_env := e1\<rparr>"] 1 kv show ?case by simp
qed simp

lemma override_env_last:
  "override_env e vars k = (case map_of (rev vars) k of None \<Rightarrow> e k | Some v \<Rightarrow> v)"
  by (induction vars arbitrary: e) (auto simp: map_add_def split: option.splits)

lemma override_env_twice: "override_env (override_env e vars) vars = override_env e vars"
  by (rule ext) (simp add: override_env_last split: option.splits)

text \<open>
  The worker works in the environment of an in-process run. If the parent's scoped guard takes the
  variables, the worker takes them too and has the environment the parent has inside the scope,
  whether it starts from the outer environment or, as a child of the parent, from that one.
\<close>

theorem worker_environment_matches_scope:
  assumes inv: "scope_inv t (p, ts)" and valid: "list_all valid_var vars"
    and free: "pr_owner p = None \<or> pr_owner p = Some t"
  shows "\<exists>index p' ts'. enter_scope t vars (p, ts) = (Returned index, (p', ts')) \<and>
    (\<forall>w. w_env w = pr_env p \<or> w_env w = pr_env p' \<longrightarrow>
       apply_worker_environment vars w = (True, w\<lparr>w_env := pr_env p'\<rparr>))"
proof -
  obtain p' ts' where e: "enter_scope t vars (p, ts) = (Returned (length (ts_stack ts)), (p', ts'))"
      "pr_env p' = override_env (pr_env p) vars"
    using enter_ok [OF inv valid free] by blast
  have "apply_worker_environment vars w = (True, w\<lparr>w_env := override_env (w_env w) vars\<rparr>)" for w
    using apply_loop_valid [OF valid] apply_worker_environment_loop by blast
  with e show ?thesis by (auto simp: override_env_twice)
qed

section \<open>Recovery\<close>

text \<open>The tree a path names, resolved from one of its ancestors.\<close>

definition data_tree :: "world \<Rightarrow> path \<Rightarrow> path set" where
  "data_tree w p = {q. \<exists>a rel q0 n0 t. p = a @ rel \<and> rel \<noteq> [] \<and> leads_to w (ancestor_fs_path a) q0 n0 \<and>
     walk (entry w) False 40 q0 rel = Inr t \<and> prefix t q}"

text \<open>\<open>Dir::remove_dir_all\<close> deletes what is below the path it is given, and nothing else happens.\<close>

definition remove_spec :: "'h ext \<Rightarrow> bool" where
  "remove_spec X \<longleftrightarrow> (\<forall>parent d rel w r w' q. cap_open X parent w = Inr d \<longrightarrow>
     cap_remove_dir_all X d rel w = (r, w') \<longrightarrow> entry w' q \<noteq> entry w q \<longrightarrow>
     entry w' q = None \<and> (\<exists>q0 n0 t. leads_to w parent q0 n0 \<and> walk (entry w) False 40 q0 rel = Inr t \<and> prefix t q))"

lemma posix_remove_spec: "remove_spec posix_ext"
  unfolding remove_spec_def
proof (intro allI impI)
  fix parent d rel w r w' q
  assume o: "cap_open posix_ext parent w = Inr d"
    and c: "cap_remove_dir_all posix_ext d rel w = (r, w')" and ne: "entry w' q \<noteq> entry w q"
  let ?w = "w\<lparr>w_cwd := d\<rparr>"
  from o obtain n0 where n0: "leads_to w parent d n0"
    by (auto simp: posix_ext_def posix_open_def leads_to_def try_res_Inr split: if_splits)
  obtain r1 w1 where r1: "remove_dir_all rel ?w = (r1, w1)" by fastforce
  with c have w': "entry w' = entry w1" by (auto simp: posix_ext_def in_dir_def)
  from r1 ne w' obtain t n where t: "node_of False ?w rel = Inr (t, n)"
    by (cases "node_of False ?w rel") (auto simp: remove_dir_all_def)
  obtain r2 gone where g: "remove_effect ?w rel t n = (r2, gone)" by fastforce
  have "w1 = drop_entries gone ?w" using r1 t g by (simp add: remove_dir_all_def)
  with ne w' have q: "gone q" "entry w' q = None" by (auto split: if_splits)
  have "prefix t q" using g q(1)
    by (auto simp: remove_effect_def strict_prefix_def split: option.splits node_kind.splits if_splits)
  moreover have "walk (entry w) False 40 d rel = Inr t"
    using t by (auto simp: node_of_def try_res_Inr resolve_def split: if_splits option.splits)
  ultimately show "entry w' q = None \<and>
      (\<exists>q0 n0 t. leads_to w parent q0 n0 \<and> walk (entry w) False 40 q0 rel = Inr t \<and> prefix t q)"
    using n0 q(2) by blast
qed

text \<open>
  C8. Recovery never touches a good directory. Something is only deleted when the data directory exists, lacks
  the marker \<open>global/pg_filenode.map\<close> and is not empty; and whatever is deleted lies below it. A path
  that cannot be inspected is an error and nothing is deleted.
\<close>

theorem recovery_confined:
  assumes spec: "remove_spec X" and run: "recover_invalid_data_dir X W d w = (r, w')"
  shows "w' = w \<or>
    (path_exists w (components d) \<and> has_valid_data_dir X d w = Inr False \<and> is_dir_empty X d w = Inr False \<and>
     (\<forall>q. entry w' q = entry w q \<or> entry w' q = None \<and> q \<in> data_tree w (components d)))"
proof (cases "path_exists w (components d) \<and> has_valid_data_dir X d w = Inr False \<and> is_dir_empty X d w = Inr False")
  case False
  then show ?thesis using run
    by (cases "has_valid_data_dir X d w"; cases "is_dir_empty X d w")
      (auto simp: recover_invalid_data_dir_def split: if_splits)
next
  case True
  with run have reset: "snd (reset_data_dir X d w) = w'"
    by (auto simp: recover_invalid_data_dir_def perform_data_dir_reset_def map_err_st_def)
  show ?thesis
  proof (cases "ambient_dir_and_path X (components d) w")
    case (Inl e)
    with reset show ?thesis by (simp add: reset_data_dir_def)
  next
    case (Inr dr)
    then obtain dir rel where dr: "ambient_dir_and_path X (components d) w = Inr (dir, rel)" by (cases dr) auto
    from ambient_dir_and_path_ok [OF this] obtain a where
      a: "cap_open X (ancestor_fs_path a) w = Inr dir" "components d = a @ rel" by blast
    obtain r1 w1 where c: "cap_remove_dir_all X dir rel w = (r1, w1)" by fastforce
    show ?thesis
    proof (cases "rel = []")
      case True
      with reset dr show ?thesis by (simp add: reset_data_dir_def)
    next
      case rel: False
      with reset dr c have "w' = w1" by (auto simp: reset_data_dir_def split: sum.splits if_splits)
      with spec a c have "entry w' q = entry w q \<or> entry w' q = None \<and>
          (\<exists>q0 n0 t. leads_to w (ancestor_fs_path a) q0 n0 \<and> walk (entry w) False 40 q0 rel = Inr t \<and> prefix t q)" for q
        unfolding remove_spec_def by metis
      then have "entry w' q = entry w q \<or> entry w' q = None \<and> q \<in> data_tree w (components d)" for q
        using a(2) rel unfolding data_tree_def by blast
      with True show ?thesis by blast
    qed
  qed
qed

text \<open>
  C39. The recovery is not reached when it is needed. Setting up a server installs the binaries before it
  runs \<open>initdb\<close>, which writes \<open>PG_VERSION\<close> early; if it is then interrupted, \<open>PG_VERSION\<close> is there
  and the status is no longer \<open>NotInstalled\<close>. The setup takes such a directory for complete although it
  lacks the marker: it succeeds without doing anything, and a start runs the server on it.
\<close>

theorem interrupted_setup_is_not_recovered:
  assumes "path_is_dir w (components d)" "path_exists w (components (join_path d ''PG_VERSION''))"
    and "pg_status_of (wa_pg W) g w = Installed"
    and "has_valid_data_dir X d w = Inr False" "is_dir_empty X d w = Inr False"
  shows "execute_setup X W g d w = (Inr (), g, w) \<and>
    snd (execute_start X W g d w) = snd (pg_start (wa_pg W) g w)"
  using assms
  by (auto simp: execute_setup_def execute_start_def run_postgres_setup_def is_setup_complete_def
      ensure_postgres_started_def start_if_not_started_def split: prod.split)

section \<open>Examples\<close>

text \<open>A server whose calls succeed and do nothing, and a worker that uses it and reads a given payload.\<close>

definition idle_pg :: "pg_status \<Rightarrow> settings postgres_api" where
  "idle_pg status =
     \<lparr>pg_new = (\<lambda>s. s), pg_settings = (\<lambda>s. s), pg_status_of = (\<lambda>_ _. status),
      pg_setup = (\<lambda>g w. (Inr (), g, w)), pg_start = (\<lambda>g w. (Inr (), g, w)), pg_stop = (\<lambda>g w. (Inr (), g, w)),
      pg_drop = (\<lambda>_ w. w)\<rparr>"

definition idle_worker :: "pg_status \<Rightarrow> string + worker_payload \<Rightarrow> settings worker_api" where
  "idle_worker status payload =
     \<lparr>wa_lossy = id, wa_show_report = (\<lambda>_. ''report''), wa_show_pg = (\<lambda>_. ''error''),
      wa_decode = (\<lambda>_. payload), wa_build_runtime = (\<lambda>_. Inr ()), wa_pg = idle_pg status\<rparr>"

definition payload_file :: path where "payload_file = [RootDir, Normal ''payload'']"

definition payload_world :: world where
  "payload_world = put_entry payload_file \<lparr>nd_kind = KFile [], nd_mode = 384, nd_uid = 0, nd_gid = 0\<rparr> empty_world"

lemma payload_file_read:
  "components ''/payload'' = payload_file"
  "ambient_dir_and_path posix_ext payload_file payload_world = Inr ([RootDir], [Normal ''payload''])"
  "cap_read posix_ext [RootDir] [Normal ''payload''] payload_world = Inr []"
  by (simp_all add: components_def is_abs_def body_comps_def seg_comp_def payload_file_def payload_world_def
      ambient_dir_and_path_def is_absolute_def path_parent_def strip_prefix_def posix_ext_def posix_open_def node_of_def
      resolve_def entry_at_def root_node_def empty_world_def entry_def put_entry_def read_to_string_def guarded_def)


theorem worker_environment_matches_scope_witness:
  "\<exists>p'. apply_worker_environment [(''TZ'', Some ''UTC''), (''TZDIR'', None)] empty_world = (True, empty_world\<lparr>w_env := p'\<rparr>)"
proof -
  let ?p = "\<lparr>pr_env = Map.empty, pr_owner = None, pr_poisoned = False\<rparr>"
  have 1: "scope_inv 0 (?p, new_thread_state)" by (rule scope_inv_new) simp
  have 2: "list_all valid_var [(''TZ'', Some ''UTC''), (''TZDIR'', None)]"
    by (simp add: valid_var_def validate_env_key_def contains_equals_def has_nul_def)
  have 3: "w_env empty_world = pr_env ?p" by (simp add: empty_world_def)
  have 4: "pr_owner ?p = None \<or> pr_owner ?p = Some 0" by simp
  from worker_environment_matches_scope [OF 1 2 4] 3 show ?thesis by blast
qed

definition partial_demo :: world where
  "partial_demo = empty_world\<lparr>w_fs :=
     [([RootDir, Normal ''d''], \<lparr>nd_kind = KDir, nd_mode = 448, nd_uid = 0, nd_gid = 0\<rparr>),
      ([RootDir, Normal ''d'', Normal ''PG_VERSION''], \<lparr>nd_kind = KFile ''16'', nd_mode = 384, nd_uid = 0, nd_gid = 0\<rparr>),
      ([RootDir, Normal ''k''], \<lparr>nd_kind = KFile [], nd_mode = 384, nd_uid = 0, nd_gid = 0\<rparr>)]\<rparr>"

lemma partial_demo_paths:
  "components ''/d'' = [RootDir, Normal ''d'']"
  "components (join_path ''/d'' ''PG_VERSION'') = [RootDir, Normal ''d'', Normal ''PG_VERSION'']"
  by (simp_all add: components_def is_abs_def body_comps_def seg_comp_def join_path_def)

lemma partial_demo_facts:
  "path_is_dir partial_demo [RootDir, Normal ''d'']"
  "path_exists partial_demo [RootDir, Normal ''d'', Normal ''PG_VERSION'']"
  "has_valid_data_dir posix_ext ''/d'' partial_demo = Inr False"
  "is_dir_empty posix_ext ''/d'' partial_demo = Inr False"
  by (simp_all add: partial_demo_paths has_valid_data_dir_def is_dir_empty_def ambient_dir_and_path_def
      is_absolute_def path_parent_def strip_prefix_def posix_ext_def posix_open_def node_of_def resolve_def entry_at_def
      root_node_def partial_demo_def empty_world_def entry_def guarded_def path_is_dir_def path_exists_def metadata_def
      pg_filenode_map_marker_def read_dir_def children_def List.map_filter_def)

theorem recovery_confined_witness:
  "entry (snd (recover_invalid_data_dir posix_ext (idle_worker Installed (Inl ''no payload'')) ''/d'' partial_demo)) [RootDir, Normal ''k'']
     = entry partial_demo [RootDir, Normal ''k'']"
proof -
  let ?run = "recover_invalid_data_dir posix_ext (idle_worker Installed (Inl ''no payload'')) ''/d'' partial_demo"
  have "[RootDir, Normal ''k''] \<notin> data_tree partial_demo [RootDir, Normal ''d'']"
  proof
    assume "[RootDir, Normal ''k''] \<in> data_tree partial_demo [RootDir, Normal ''d'']"
    then obtain a rel q0 n0 t where r: "a @ rel = [RootDir, Normal ''d'']" "rel \<noteq> []"
        "leads_to partial_demo (ancestor_fs_path a) q0 n0" "walk (entry partial_demo) False 40 q0 rel = Inr t"
        "prefix t [RootDir, Normal ''k'']"
      unfolding data_tree_def by fastforce
    have d: "entry partial_demo [RootDir, Normal ''d''] = Some \<lparr>nd_kind = KDir, nd_mode = 448, nd_uid = 0, nd_gid = 0\<rparr>"
      by (simp add: partial_demo_def entry_def)
    from r(1,2) consider "rel = [RootDir, Normal ''d'']" | "a = [RootDir]" "rel = [Normal ''d'']"
      by (auto simp: append_eq_Cons_conv)
    then show False
    proof cases
      case 1
      with r(4,5) d show False by auto
    next
      case 2
      with r(3) have "q0 = [RootDir]"
        by (simp add: ancestor_fs_path_def leads_to_iff resolve_def)
      with 2 r(4,5) d show False by auto
    qed
  qed
  moreover have "?run = (fst ?run, snd ?run)" by simp
  ultimately show ?thesis
    using recovery_confined [OF posix_remove_spec, of "idle_worker Installed (Inl ''no payload'')" "''/d''" partial_demo "fst ?run" "snd ?run"]
    by (auto simp: partial_demo_paths)
qed

theorem interrupted_setup_is_not_recovered_witness:
  "execute_setup posix_ext (idle_worker Installed (Inl ''no payload'')) plain_settings ''/d'' partial_demo =
     (Inr (), plain_settings, partial_demo)"
  using interrupted_setup_is_not_recovered [of partial_demo "''/d''" "idle_worker Installed (Inl ''no payload'')" plain_settings posix_ext]
    partial_demo_facts
  by (simp add: partial_demo_paths idle_worker_def idle_pg_def)

end
