(* ===== verification/Cache_Copy.thy ===== *)
theory Cache_Copy
  imports Privileges Types
begin

text \<open>
  Copying a tree of binaries, \<open>src/src/cache/operations/copy.rs\<close>. The recursion over the
  directories takes fuel: one more than the number of entries below the source is enough, as shown
  below. The lemmas follow a copy between two trees that do not overlap and are named by paths
  without links: nothing outside the destination changes, nothing appears in it that the source does
  not have, and a copy that succeeds has the same directories, links and files, with contents and
  modes.
\<close>

section \<open>Calls\<close>

definition fs_set_mode :: "path \<Rightarrow> nat \<Rightarrow> unit io" where
  "fs_set_mode p m w =
     (case guarded w (SysChmod p) (node_of True w p) of
        Inl k \<Rightarrow> (Inl k, w)
      | Inr (q, n) \<Rightarrow> (Inr (), put_entry q (n\<lparr>nd_mode := m\<rparr>) w))"

text \<open>\<open>fs::copy\<close> copies contents and permission bits of a regular file, through links. One that fails
  half way may leave an empty file (\<open>w_residue\<close> says whether it does).\<close>

definition fs_copy :: "path \<Rightarrow> path \<Rightarrow> unit io" where
  "fs_copy src dst w =
     (case node_of True w src of
        Inl k \<Rightarrow> (Inl k, w)
      | Inr (_, n) \<Rightarrow>
          if \<not> is_file_kind (nd_kind n) then (Inl InvalidInput, w)
          else (case resolve True w dst of
            Inl k \<Rightarrow> (Inl k, w)
          | Inr q \<Rightarrow>
              if \<not> (case entry_at w q of None \<Rightarrow> True | Some m \<Rightarrow> is_file_kind (nd_kind m)) then (Inl OtherIo, w)
              else let old = (case entry_at w q of None \<Rightarrow> new_node w (KFile []) (nd_mode n) | Some m \<Rightarrow> m) in
                (case w_faults w (SysCopy src dst) of
                   Some k \<Rightarrow> (Inl k, if w_residue w dst = [] then w
                                    else put_entry q (old\<lparr>nd_kind := KFile []\<rparr>) w)
                 | None \<Rightarrow> (Inr (), put_entry q (old\<lparr>nd_kind := nd_kind n, nd_mode := nd_mode n\<rparr>) w))))"

definition read_link :: "path \<Rightarrow> world \<Rightarrow> io_kind + path" where
  "read_link p w =
     guarded w (SysReadLink p) (try_res (node_of False w p)
       (\<lambda>(_, n). case nd_kind n of KLink t \<Rightarrow> Inr t | _ \<Rightarrow> Inl InvalidInput))"

definition fs_symlink :: "path \<Rightarrow> path \<Rightarrow> unit io" where
  "fs_symlink target link w =
     (case guarded w (SysSymlink link) (resolve False w link) of
        Inl k \<Rightarrow> (Inl k, w)
      | Inr q \<Rightarrow> if entry_at w q \<noteq> None then (Inl AlreadyExists, w)
                 else (Inr (), put_entry q (new_node w (KLink target) 511) w))"

section \<open>Operations\<close>

definition copy_permissions :: "path \<Rightarrow> path \<Rightarrow> world \<Rightarrow> world" where
  "copy_permissions src dst w =
     (case metadata w src of
        Inl _ \<Rightarrow> w
      | Inr n \<Rightarrow> snd (fs_set_mode dst (nd_mode n) w))"

definition copy_file_with_permissions :: "path \<Rightarrow> path \<Rightarrow> unit io" where
  "copy_file_with_permissions src dst w =
     try_st (fs_copy src dst w) (\<lambda>_ w. (Inr (), copy_permissions src dst w))"

definition copy_symlink :: "path \<Rightarrow> path \<Rightarrow> unit io" where
  "copy_symlink src dst w = try_st (read_link src w, w) (\<lambda>target w. fs_symlink target dst w)"

text \<open>One turn of the loop over the directory; the type of an entry is read without following it, and
  an error of the iterator is one of that.\<close>

definition copy_entry :: "(path \<Rightarrow> path \<Rightarrow> world \<Rightarrow> ((io_kind + unit) \<times> world) option) \<Rightarrow>
    path \<Rightarrow> path \<Rightarrow> world \<Rightarrow> ((io_kind + unit) \<times> world) option" where
  "copy_entry rec src_path dst_path w =
     (case symlink_metadata w src_path of
        Inl k \<Rightarrow> Some (Inl k, w)
      | Inr n \<Rightarrow>
          (case nd_kind n of
             KDir \<Rightarrow> rec src_path dst_path w
           | KLink _ \<Rightarrow> Some (copy_symlink src_path dst_path w)
           | KFile _ \<Rightarrow> Some (copy_file_with_permissions src_path dst_path w)))"

fun copy_entries :: "(path \<Rightarrow> path \<Rightarrow> world \<Rightarrow> ((io_kind + unit) \<times> world) option) \<Rightarrow>
    path \<Rightarrow> path \<Rightarrow> string list \<Rightarrow> world \<Rightarrow> ((io_kind + unit) \<times> world) option" where
  "copy_entries rec src dst [] w = Some (Inr (), w)"
| "copy_entries rec src dst (n # ns) w =
     (case copy_entry rec (src @ [Normal n]) (dst @ [Normal n]) w of
        None \<Rightarrow> None
      | Some (Inl k, w1) \<Rightarrow> Some (Inl k, w1)
      | Some (Inr _, w1) \<Rightarrow> copy_entries rec src dst ns w1)"

definition create_missing :: "path \<Rightarrow> unit io" where
  "create_missing dst w = (if \<not> path_exists w dst then create_dir_all dst w else (Inr (), w))"

fun copy_dir_recursive :: "nat \<Rightarrow> path \<Rightarrow> path \<Rightarrow> world \<Rightarrow> ((io_kind + unit) \<times> world) option" where
  "copy_dir_recursive 0 src dst w = None"
| "copy_dir_recursive (Suc fuel) src dst w =
     (case create_missing dst w of
        (Inl k, w1) \<Rightarrow> Some (Inl k, w1)
      | (Inr _, w1) \<Rightarrow>
          (case read_dir src w1 of
             Inl k \<Rightarrow> Some (Inl k, w1)
           | Inr names \<Rightarrow>
               (case copy_entries (copy_dir_recursive fuel) src dst names w1 of
                  None \<Rightarrow> None
                | Some (Inl k, w2) \<Rightarrow> Some (Inl k, w2)
                | Some (Inr _, w2) \<Rightarrow> Some (Inr (), copy_permissions src dst w2))))"

definition copy_fuel :: "world \<Rightarrow> nat" where
  "copy_fuel w = length (w_fs w) + 1"

definition copy_from_cache :: "pathbuf \<Rightarrow> pathbuf \<Rightarrow> world \<Rightarrow> ((bootstrap_error + unit) \<times> world) option" where
  "copy_from_cache source target w =
     (case create_dir_all (components target) w of
        (Inl k, w1) \<Rightarrow>
          Some (Inl (bootstrap_from_report
            (Ctx ''failed to create target directory for cache copy'' (IoErr k))), w1)
      | (Inr _, w1) \<Rightarrow>
          map_option (map_err_st (\<lambda>k. bootstrap_from_report (Ctx ''failed to copy cached binaries'' (IoErr k))))
            (copy_dir_recursive (copy_fuel w1) (components source) (components target) w1))"

section \<open>Paths without links\<close>

text \<open>A path from the root through directories only.\<close>

definition phys :: "world \<Rightarrow> path \<Rightarrow> bool" where
  "phys w p \<longleftrightarrow> p \<noteq> [] \<and> hd p = RootDir \<and>
     (\<forall>q c. prefix (q @ [c]) p \<longrightarrow> q \<noteq> [] \<longrightarrow>
        (\<exists>n nd. c = Normal n \<and> entry w (q @ [c]) = Some nd \<and> nd_kind nd = KDir))"

lemma phys_root: "phys w [RootDir]"
  by (auto simp: phys_def prefix_Cons)

lemma phys_snoc: "phys w (p @ [Normal n]) \<longleftrightarrow>
    phys w p \<and> (\<exists>nd. entry w (p @ [Normal n]) = Some nd \<and> nd_kind nd = KDir)"
proof -
  have "p \<noteq> []" if "hd (p @ [Normal n]) = RootDir" using that by (cases p) auto
  then show ?thesis by (auto simp: phys_def prefix_snoc)
qed

lemma phys_snoc_name: "phys w (p @ [c]) \<Longrightarrow> p \<noteq> [] \<Longrightarrow> \<exists>n. c = Normal n"
  by (auto simp: phys_def)

lemma phys_entry: "phys w p \<Longrightarrow> \<exists>nd. entry_at w p = Some nd \<and> (p \<noteq> [RootDir] \<longrightarrow> nd_kind nd = KDir)"
proof (cases p rule: rev_cases)
  case (snoc q c)
  assume p: "phys w p"
  show ?thesis
  proof (cases "q = []")
    case True
    with p snoc show ?thesis by (simp add: phys_def entry_at_def)
  next
    case False
    with p snoc phys_snoc_name [of w q c] phys_snoc show ?thesis by (auto simp: entry_at_def)
  qed
qed (simp add: phys_def)

lemma phys_walk: "phys w p \<Longrightarrow> walk (entry w) f links cur (p @ rest) = walk (entry w) f links p rest"
proof (induction p arbitrary: rest rule: rev_induct)
  case (snoc c p)
  show ?case
  proof (cases "p = []")
    case True
    with snoc.prems show ?thesis by (simp add: phys_def)
  next
    case False
    with snoc.prems phys_snoc_name obtain n where c: "c = Normal n" by blast
    with snoc.prems obtain nd where p: "phys w p" "entry w (p @ [c]) = Some nd" "nd_kind nd = KDir"
      by (auto simp: phys_snoc)
    with snoc.IH [OF p(1), of "c # rest"] c show ?thesis by simp
  qed
qed (simp add: phys_def)

lemma phys_mono:
  assumes "phys w p"
    and "\<And>q nd. prefix q p \<Longrightarrow> q \<noteq> [RootDir] \<Longrightarrow> entry w q = Some nd \<Longrightarrow> nd_kind nd = KDir \<Longrightarrow>
      \<exists>nd'. entry w' q = Some nd' \<and> nd_kind nd' = KDir"
  shows "phys w' p"
  unfolding phys_def
proof (intro conjI allI impI)
  show "p \<noteq> []" "hd p = RootDir" using assms(1) by (simp_all add: phys_def)
  fix q c assume q: "prefix (q @ [c]) p" "q \<noteq> []"
  with assms(1) obtain n nd where "c = Normal n" "entry w (q @ [c]) = Some nd" "nd_kind nd = KDir"
    unfolding phys_def by blast
  moreover have "q @ [c] \<noteq> [RootDir]" using q(2) by simp
  ultimately show "\<exists>n nd. c = Normal n \<and> entry w' (q @ [c]) = Some nd \<and> nd_kind nd = KDir"
    using assms(2) [OF q(1)] by blast
qed

lemma phys_put: "phys w p \<Longrightarrow> entry w q = None \<Longrightarrow> phys (put_entry q n w) p"
  by (erule phys_mono) auto

lemma phys_put_dir: "phys w p \<Longrightarrow> nd_kind n = KDir \<Longrightarrow> phys (put_entry q n w) p"
  by (erule phys_mono) auto

text \<open>What a name below such a directory leads to.\<close>

lemma phys_resolve_name:
  assumes "phys w p"
  shows "resolve False w (p @ [Normal n]) = Inr (p @ [Normal n])"
    "(\<And>nd. entry w (p @ [Normal n]) = Some nd \<Longrightarrow> \<not> is_link_kind (nd_kind nd)) \<Longrightarrow>
       resolve True w (p @ [Normal n]) = Inr (p @ [Normal n])"
proof -
  have r: "resolve f w (p @ [Normal n]) = walk (entry w) f 40 p [Normal n]" for f
    by (simp add: resolve_def phys_walk [OF assms])
  show "resolve False w (p @ [Normal n]) = Inr (p @ [Normal n])"
    by (auto simp: r Let_def split: option.split node_kind.split)
  show "resolve True w (p @ [Normal n]) = Inr (p @ [Normal n])"
    if "\<And>nd. entry w (p @ [Normal n]) = Some nd \<Longrightarrow> \<not> is_link_kind (nd_kind nd)"
    using that by (fastforce simp: r Let_def split: option.split node_kind.split)
qed

lemma phys_resolve: "phys w p \<Longrightarrow> resolve f w p = Inr p"
  using phys_walk [of w p f 40 "w_cwd w" "[]"] by (auto simp: resolve_def phys_def)

lemma snoc_not_root [simp]: "p \<noteq> [] \<Longrightarrow> p @ [c] \<noteq> [RootDir]" "phys w p \<Longrightarrow> p @ [c] \<noteq> [RootDir]"
  by (auto simp: phys_def)

lemma node_of_name:
  "phys w p \<Longrightarrow> node_of False w (p @ [Normal n]) =
     (case entry w (p @ [Normal n]) of None \<Rightarrow> Inl NotFound | Some nd \<Rightarrow> Inr (p @ [Normal n], nd))"
  by (simp add: node_of_def phys_resolve_name entry_at_def)

lemma node_of_name_follow:
  assumes "phys w p" and "entry w (p @ [Normal n]) = Some nd" and "\<not> is_link_kind (nd_kind nd)"
  shows "node_of True w (p @ [Normal n]) = Inr (p @ [Normal n], nd)"
  using phys_resolve_name(2) [OF assms(1), of n] assms by (simp add: node_of_def entry_at_def)

lemma node_of_phys: "phys w p \<Longrightarrow> \<exists>nd. node_of f w p = Inr (p, nd) \<and> entry_at w p = Some nd"
  using phys_entry [of w p] by (auto simp: node_of_def phys_resolve)

section \<open>One entry\<close>

text \<open>What a copy must keep of an entry: its kind, with contents or target, and the mode of a file.\<close>

definition shape :: "node \<Rightarrow> node_kind \<times> nat" where
  "shape n = (nd_kind n, if is_file_kind (nd_kind n) then nd_mode n else 0)"

text \<open>Two trees are apart when neither root lies in the other.\<close>

definition apart :: "path \<Rightarrow> path \<Rightarrow> bool" where
  "apart s d \<longleftrightarrow> \<not> prefix s d \<and> \<not> prefix d s"

text \<open>Below \<open>s\<close> there are names only, each in a directory.\<close>

definition wf_below :: "world \<Rightarrow> path \<Rightarrow> bool" where
  "wf_below w s \<longleftrightarrow> (\<forall>rel c n. entry_at w (s @ rel @ [c]) = Some n \<longrightarrow>
     (\<exists>m. c = Normal m) \<and> (\<exists>d. entry_at w (s @ rel) = Some d \<and> nd_kind d = KDir))"

text \<open>What copying \<open>s\<close> to \<open>d\<close> may do to the world, and what it has done when it succeeds.\<close>

definition copied :: "world \<Rightarrow> path \<Rightarrow> path \<Rightarrow> io_kind + unit \<Rightarrow> world \<Rightarrow> bool" where
  "copied w s d r w' \<longleftrightarrow>
     w' = w\<lparr>w_fs := w_fs w'\<rparr> \<and> (\<forall>q. \<not> prefix d q \<longrightarrow> entry_at w' q = entry_at w q) \<and>
     (\<forall>rel. entry_at w' (d @ rel) \<noteq> None \<longrightarrow> entry_at w (s @ rel) \<noteq> None) \<and>
     (r = Inr () \<longrightarrow> (\<forall>rel. map_option shape (entry_at w' (d @ rel)) = map_option shape (entry_at w (s @ rel))))"

lemma apart_sym: "apart s d \<Longrightarrow> apart d s"
  by (simp add: apart_def)

lemma apart_below: "apart s d \<Longrightarrow> \<not> prefix d (s @ rel)"
  by (auto simp: apart_def) (metis prefix_def prefix_same_cases)

lemma apart_snoc: "apart s d \<Longrightarrow> apart (s @ a) (d @ b)"
  by (auto simp: apart_def) (metis prefix_def prefix_same_cases append_prefixD)+

lemma wf_belowD:
  "wf_below w s \<Longrightarrow> entry_at w (s @ rel @ [c]) = Some n \<Longrightarrow>
     (\<exists>m. c = Normal m) \<and> (\<exists>d. entry_at w (s @ rel) = Some d \<and> nd_kind d = KDir)"
  unfolding wf_below_def by blast

lemma wf_below_sub: "wf_below w s \<Longrightarrow> wf_below w (s @ r)"
  by (auto simp: wf_below_def) (metis append.assoc)+

text \<open>Below something that is not a directory there is nothing.\<close>

lemma wf_below_leaf:
  assumes wf: "wf_below w s" and leaf: "\<And>n. entry_at w (s @ r) = Some n \<Longrightarrow> nd_kind n \<noteq> KDir"
  shows "rel \<noteq> [] \<Longrightarrow> entry_at w (s @ r @ rel) = None"
proof (induction rel rule: rev_induct)
  case (snoc c rel)
  show ?case
  proof (rule ccontr)
    assume "entry_at w (s @ r @ rel @ [c]) \<noteq> None"
    then obtain n where "entry_at w (s @ (r @ rel) @ [c]) = Some n" by auto
    from wf_belowD [OF wf this] obtain d where "entry_at w (s @ r @ rel) = Some d" "nd_kind d = KDir" by auto
    with snoc.IH leaf show False by (cases "rel = []") auto
  qed
qed simp

lemma copied_put:
  assumes fresh: "\<And>rel. entry_at w (d @ rel) = None"
    and e: "entry_at w s = Some n" and leaf: "\<And>rel. rel \<noteq> [] \<Longrightarrow> entry_at w (s @ rel) = None"
    and sh: "r = Inr () \<Longrightarrow> shape m = shape n" and d: "d \<noteq> [RootDir]"
  shows "copied w s d r (put_entry d m w)"
proof -
  have k: "put_entry d m w = w\<lparr>w_fs := w_fs (put_entry d m w)\<rparr>" by (simp add: put_entry_def)
  have at: "entry_at (put_entry d m w) (d @ rel) = (if rel = [] then Some m else None)" for rel
    by (simp add: fresh)
  have s: "entry_at w (s @ rel) = (if rel = [] then Some n else None)" for rel by (simp add: e leaf)
  show ?thesis unfolding copied_def using k sh by (auto simp: at s fresh)
qed

lemma copied_refl:
  assumes "\<And>rel. entry_at w (d @ rel) = None"
  shows "copied w s d (Inl k) w"
  using assms by (simp add: copied_def)

text \<open>Setting a mode keeps the kinds, and everything else.\<close>

lemma copy_permissions_effect:
  "copy_permissions src dst w = w \<or>
     (\<exists>n q m. metadata w src = Inr n \<and> node_of True w dst = Inr (q, m) \<and>
        copy_permissions src dst w = put_entry q (m\<lparr>nd_mode := nd_mode n\<rparr>) w)"
  by (auto simp: copy_permissions_def fs_set_mode_def guarded_def split: sum.splits option.splits)

lemma metadata_node: "metadata w p = Inr n \<Longrightarrow> \<exists>q. node_of True w p = Inr (q, n)"
  by (auto simp: metadata_def guarded_def try_res_Inr split: option.splits)

lemma copy_symlink_copied:
  assumes p: "phys w P" "phys w Q" and fresh: "\<And>rel. entry_at w ((Q @ [Normal b]) @ rel) = None"
    and e: "entry w (P @ [Normal a]) = Some n" "is_link_kind (nd_kind n)"
    and wf: "wf_below w (P @ [Normal a])"
    and c: "copy_symlink (P @ [Normal a]) (Q @ [Normal b]) w = (r, w')"
  shows "copied w (P @ [Normal a]) (Q @ [Normal b]) r w'"
proof -
  from e(2) obtain t where t: "nd_kind n = KLink t" by (cases "nd_kind n") auto
  have ea: "entry_at w (P @ [Normal a]) = Some n" using p e by (simp add: entry_at_def)
  have none: "entry_at w (Q @ [Normal b]) = None" using fresh [of "[]"] by simp
  have leaf: "rel \<noteq> [] \<Longrightarrow> entry_at w ((P @ [Normal a]) @ rel) = None" for rel
    using wf_below_leaf [OF wf, of "[]" rel] ea t by simp
  from c consider k where "r = Inl k" "w' = w"
    | "r = Inr ()" "w' = put_entry (Q @ [Normal b]) (new_node w (KLink t) 511) w"
    using none e t p
    by (auto simp: copy_symlink_def read_link_def fs_symlink_def guarded_def node_of_name phys_resolve_name(1)
        split: option.splits)
  then show ?thesis
  proof cases
    case 1
    with copied_refl [of w "Q @ [Normal b]", OF fresh] show ?thesis by simp
  next
    case 2
    show ?thesis unfolding 2
      by (rule copied_put [OF fresh ea leaf]) (use p t in \<open>auto simp: shape_def new_node_def\<close>)
  qed
qed

lemma copied_file_mode:
  assumes c: "copied w s d r w'" and q: "entry_at w' d = Some m" "is_file_kind (nd_kind m)"
    and e: "entry_at w s = Some n" "nd_mode n = mode" and ok: "r = Inr ()"
  shows "copied w s d (Inr ()) (put_entry d (m\<lparr>nd_mode := mode\<rparr>) w')"
proof -
  have sh: "map_option shape (entry_at w' (d @ rel)) = map_option shape (entry_at w (s @ rel))" for rel
    using c ok by (simp add: copied_def)
  have "shape (m\<lparr>nd_mode := mode\<rparr>) = shape n"
    using sh [of "[]"] q e by (simp add: shape_def split: if_splits)
  moreover have "put_entry d (m\<lparr>nd_mode := mode\<rparr>) w' = w\<lparr>w_fs := w_fs (put_entry d (m\<lparr>nd_mode := mode\<rparr>) w')\<rparr>"
    using c by (simp add: copied_def put_entry_def) (metis world.surjective world.update_convs(1))
  ultimately show ?thesis using c e sh by (auto simp: copied_def)
qed

lemma copy_file_copied:
  assumes p: "phys w P" "phys w Q" and fresh: "\<And>rel. entry_at w ((Q @ [Normal b]) @ rel) = None"
    and e: "entry w (P @ [Normal a]) = Some n" "is_file_kind (nd_kind n)"
    and wf: "wf_below w (P @ [Normal a])" and ap: "apart (P @ [Normal a]) (Q @ [Normal b])"
    and c: "copy_file_with_permissions (P @ [Normal a]) (Q @ [Normal b]) w = (r, w')"
  shows "copied w (P @ [Normal a]) (Q @ [Normal b]) r w'"
proof -
  let ?s = "P @ [Normal a]" and ?d = "Q @ [Normal b]"
  have nl: "\<not> is_link_kind (nd_kind n)" using e(2) by (cases "nd_kind n") auto
  have ea: "entry_at w ?s = Some n" using p e by (simp add: entry_at_def)
  have none: "entry_at w ?d = None" using fresh [of "[]"] by simp
  have none': "entry w ?d = None" using none p by (simp add: entry_at_def)
  have nd: "nd_kind n \<noteq> KDir" using e(2) by (cases "nd_kind n") auto
  have leaf: "rel \<noteq> [] \<Longrightarrow> entry_at w (?s @ rel) = None" for rel
    using wf_below_leaf [OF wf, of "[]" rel] ea nd by simp
  have src: "node_of True w ?s = Inr (?s, n)" by (rule node_of_name_follow [OF p(1) e(1) nl])
  have dst: "resolve True w ?d = Inr ?d" by (rule phys_resolve_name(2)) (use p none' in auto)
  have sd: "?s \<noteq> ?d" using ap by (auto simp: apart_def)
  let ?m = "new_node w (KFile []) (nd_mode n)\<lparr>nd_kind := nd_kind n, nd_mode := nd_mode n\<rparr>"
  consider k where "fs_copy ?s ?d w = (Inl k, w)"
    | k where "fs_copy ?s ?d w = (Inl k, put_entry ?d (new_node w (KFile []) (nd_mode n)) w)"
    | "fs_copy ?s ?d w = (Inr (), put_entry ?d ?m w)"
    using e(2) none by (cases "w_faults w (SysCopy ?s ?d)"; cases "w_residue w ?d")
      (simp_all add: fs_copy_def src dst Let_def new_node_def)
  then show ?thesis
  proof cases
    case (1 k)
    with c copied_refl [of w ?d, OF fresh] show ?thesis by (auto simp: copy_file_with_permissions_def)
  next
    case (2 k)
    with c have "r = Inl k" "w' = put_entry ?d (new_node w (KFile []) (nd_mode n)) w"
      by (auto simp: copy_file_with_permissions_def)
    then show ?thesis using copied_put [OF fresh ea leaf, where r = "Inl k"] p by simp
  next
    case 3
    let ?w = "put_entry ?d ?m w"
    have base: "copied w ?s ?d (Inr ()) ?w"
      by (rule copied_put [OF fresh ea leaf]) (use p in \<open>auto simp: shape_def new_node_def\<close>)
    from 3 c have r: "r = Inr ()" and w': "w' = copy_permissions ?s ?d ?w"
      by (auto simp: copy_file_with_permissions_def)
    from copy_permissions_effect [of ?s ?d ?w] show ?thesis
    proof
      assume "copy_permissions ?s ?d ?w = ?w"
      with base r w' show ?thesis by simp
    next
      assume "\<exists>n q m. metadata ?w ?s = Inr n \<and> node_of True ?w ?d = Inr (q, m) \<and>
        copy_permissions ?s ?d ?w = put_entry q (m\<lparr>nd_mode := nd_mode n\<rparr>) ?w"
      then obtain n1 q m where m: "metadata ?w ?s = Inr n1" "node_of True ?w ?d = Inr (q, m)"
        "copy_permissions ?s ?d ?w = put_entry q (m\<lparr>nd_mode := nd_mode n1\<rparr>) ?w" by blast
      have pw: "phys ?w P" "phys ?w Q" using p none' by (simp_all add: phys_put)
      have "node_of True ?w ?s = Inr (?s, n)"
        by (rule node_of_name_follow [OF pw(1) _ nl]) (use e sd in auto)
      with metadata_node [OF m(1)] have n1: "n1 = n" by auto
      have "node_of True ?w ?d = Inr (?d, ?m)"
        by (rule node_of_name_follow [OF pw(2)]) (use e nl in auto)
      with m(2) have q: "q = ?d" "m = ?m" by auto
      show ?thesis unfolding w' m(3) q r n1
        by (rule copied_file_mode [OF base]) (use e(2) ea in auto)
    qed
  qed
qed

section \<open>Whole directories\<close>

text \<open>The destination: missing in a directory, or a directory with nothing in it.\<close>

definition empty_target :: "world \<Rightarrow> path \<Rightarrow> bool" where
  "empty_target w d \<longleftrightarrow> (\<exists>q b. d = q @ [Normal b] \<and> phys w q) \<and>
     (entry w d = None \<or> phys w d) \<and> (\<forall>rel. rel \<noteq> [] \<longrightarrow> entry_at w (d @ rel) = None)"

lemma sys_mkdir_existing: "phys w p \<Longrightarrow> \<exists>k. sys_mkdir p w = (Inl k, w)"
  using phys_entry [of w p] by (auto simp: sys_mkdir_def phys_resolve guarded_def split: option.splits)

lemma path_parent_phys: "phys w p \<Longrightarrow> path_parent p = Some q \<Longrightarrow> phys w q"
proof (cases p rule: rev_cases)
  case (snoc r c)
  assume p: "phys w p" and q: "path_parent p = Some q"
  then have "r \<noteq> []" using snoc by (auto simp: phys_def path_parent_def)
  with p snoc phys_snoc_name obtain n where "c = Normal n" by blast
  with p q snoc show ?thesis by (simp add: phys_snoc)
qed (simp add: phys_def)

lemma create_dir_all_existing: "phys w p \<Longrightarrow> snd (create_dir_all p w) = w"
proof (induction p rule: length_induct)
  case (1 p)
  then have "p \<noteq> []" by (auto simp: phys_def)
  from sys_mkdir_existing [OF 1(2)] obtain k where k: "sys_mkdir p w = (Inl k, w)" by blast
  show ?case
  proof (cases "path_parent p")
    case None
    with k \<open>p \<noteq> []\<close> show ?thesis by (subst create_dir_all.simps) simp
  next
    case (Some q)
    then have "length q < length p" using path_parent_prefix prefix_length_less by blast
    with 1 path_parent_phys [OF 1(2) Some] have "snd (create_dir_all q w) = w" by blast
    then obtain r where "create_dir_all q w = (r, w)" by (metis prod.collapse)
    with k Some \<open>p \<noteq> []\<close> show ?thesis by (subst create_dir_all.simps) (cases r, auto)
  qed
qed

lemma create_dir_all_new:
  assumes p: "phys w q" and none: "entry w (q @ [Normal b]) = None"
  shows "(\<exists>k. create_dir_all (q @ [Normal b]) w = (Inl k, w)) \<or>
    create_dir_all (q @ [Normal b]) w = (Inr (), put_entry (q @ [Normal b]) (new_node w KDir 493) w)"
proof -
  let ?p = "q @ [Normal b]"
  have nodir: "\<not> path_is_dir w ?p"
    using phys_resolve_name(2) [OF p, of b] none p
    by (auto simp: path_is_dir_def metadata_def guarded_def node_of_def entry_at_def split: option.splits)
  have mk: "(\<exists>k. sys_mkdir ?p w = (Inl k, w)) \<or> sys_mkdir ?p w = (Inr (), put_entry ?p (new_node w KDir 493) w)"
    using none p by (auto simp: sys_mkdir_def phys_resolve_name(1) guarded_def entry_at_def split: option.splits)
  obtain r where parent: "create_dir_all q w = (r, w)"
    using create_dir_all_existing [OF p] by (metis prod.collapse)
  from mk show ?thesis
    by (subst (1 2) create_dir_all.simps) (cases r, auto simp: parent nodir)
qed

lemma create_dir_all_target:
  assumes t: "empty_target w d" and c: "create_dir_all d w = (r, w')"
  shows "(\<exists>k. r = Inl k \<and> w' = w) \<or>
    (r = Inr () \<and> phys w' d \<and> empty_target w' d \<and> w' = w\<lparr>w_fs := w_fs w'\<rparr> \<and>
     (\<forall>q. q \<noteq> d \<longrightarrow> entry w' q = entry w q))"
proof -
  from t obtain q b where d: "d = q @ [Normal b]" and q: "phys w q" by (auto simp: empty_target_def)
  have below: "\<And>rel. rel \<noteq> [] \<Longrightarrow> entry_at w (d @ rel) = None" using t by (auto simp: empty_target_def)
  show ?thesis
  proof (cases "phys w d")
    case True
    then have "snd (create_dir_all d w) = w" by (rule create_dir_all_existing)
    with c True t show ?thesis by (cases r) auto
  next
    case False
    with t have none: "entry w d = None" by (auto simp: empty_target_def)
    from create_dir_all_new [OF q, of b] none c consider k where "r = Inl k" "w' = w"
      | "r = Inr ()" "w' = put_entry d (new_node w KDir 493) w" by (auto simp: d)
    then show ?thesis
    proof cases
      case 2
      have "phys w' d" unfolding 2 d using q none
        by (simp add: phys_snoc phys_put d new_node_def)
      then have "empty_target w' d"
        using q d below by (auto simp: empty_target_def 2 phys_put_dir new_node_def)
      moreover have "w' = w\<lparr>w_fs := w_fs w'\<rparr>" by (simp add: 2 put_entry_def)
      ultimately show ?thesis using 2 \<open>phys w' d\<close> by simp
    qed simp
  qed
qed

lemma empty_target_missing: "empty_target w d \<Longrightarrow> \<not> path_exists w (d @ [Normal n])"
proof -
  assume t: "empty_target w d"
  then obtain q b where d: "d = q @ [Normal b]" and q: "phys w q" by (auto simp: empty_target_def)
  have none: "entry_at w (d @ [Normal n]) = None" using t by (simp add: empty_target_def)
  have "\<not> is_ok (node_of True w (d @ [Normal n]))"
  proof (cases "phys w d")
    case True
    with none have "resolve True w (d @ [Normal n]) = Inr (d @ [Normal n])"
      by (intro phys_resolve_name(2)) (auto simp: entry_at_def)
    with none show ?thesis by (simp add: node_of_def)
  next
    case False
    with t have "entry w d = None" by (auto simp: empty_target_def)
    with d have "resolve True w (d @ [Normal n]) = Inl NotFound"
      by (simp add: resolve_def phys_walk [OF q])
    then show ?thesis by (simp add: node_of_def)
  qed
  then show ?thesis
    by (auto simp: path_exists_def metadata_def guarded_def is_ok_def try_res_def split: option.splits sum.splits)
qed

lemma create_missing_target:
  assumes t: "empty_target w d" and c: "create_missing d w = (r, w')"
  shows "(\<exists>k. r = Inl k \<and> w' = w) \<or>
    (r = Inr () \<and> phys w' d \<and> empty_target w' d \<and> w' = w\<lparr>w_fs := w_fs w'\<rparr> \<and>
     (\<forall>q. q \<noteq> d \<longrightarrow> entry w' q = entry w q))"
proof (cases "path_exists w d")
  case True
  from t obtain q b where d: "d = q @ [Normal b]" and q: "phys w q" by (auto simp: empty_target_def)
  have "phys w d"
  proof (rule ccontr)
    assume "\<not> phys w d"
    with t have "entry w d = None" by (auto simp: empty_target_def)
    with True phys_resolve_name(2) [OF q, of b] q show False
      by (auto simp: d path_exists_def metadata_def guarded_def node_of_def entry_at_def split: option.splits)
  qed
  with True c t show ?thesis by (auto simp: create_missing_def)
next
  case False
  with c create_dir_all_target [OF t] show ?thesis by (simp add: create_missing_def)
qed

definition rec_ok :: "(path \<Rightarrow> path \<Rightarrow> world \<Rightarrow> ((io_kind + unit) \<times> world) option) \<Rightarrow> bool" where
  "rec_ok rec \<longleftrightarrow> (\<forall>w s d r w'. phys w s \<longrightarrow> empty_target w d \<longrightarrow> apart s d \<longrightarrow> wf_below w s \<longrightarrow>
     rec s d w = Some (r, w') \<longrightarrow> copied w s d r w')"

lemma copy_entry_copied:
  assumes rec: "rec_ok rec" and p: "phys w s" "phys w d" and ap: "apart s d" and wf: "wf_below w s"
    and e: "entry w (s @ [Normal n]) \<noteq> None" and fresh: "\<And>rel. entry_at w (d @ Normal n # rel) = None"
    and c: "copy_entry rec (s @ [Normal n]) (d @ [Normal n]) w = Some (r, w')"
  shows "copied w (s @ [Normal n]) (d @ [Normal n]) r w'"
proof -
  from e obtain nd where nd: "entry w (s @ [Normal n]) = Some nd" by auto
  have fresh': "\<And>rel. entry_at w ((d @ [Normal n]) @ rel) = None" by (simp add: fresh)
  have wf': "wf_below w (s @ [Normal n])" using wf by (rule wf_below_sub)
  have ap': "apart (s @ [Normal n]) (d @ [Normal n])" using ap by (rule apart_snoc)
  have m: "symlink_metadata w (s @ [Normal n]) = guarded w (SysStat (s @ [Normal n])) (Inr nd)"
    by (simp add: symlink_metadata_def node_of_name p nd)
  show ?thesis
  proof (cases "w_faults w (SysStat (s @ [Normal n]))")
    case (Some k)
    with c m copied_refl [of w "d @ [Normal n]", OF fresh'] show ?thesis by (auto simp: copy_entry_def guarded_def)
  next
    case None
    with m have m: "symlink_metadata w (s @ [Normal n]) = Inr nd" by (simp add: guarded_def)
    show ?thesis
    proof (cases "nd_kind nd")
      case KDir
      have "phys w (s @ [Normal n])" using p nd KDir by (simp add: phys_snoc)
      moreover have "empty_target w (d @ [Normal n])"
        using p fresh fresh' [of "[]"] by (auto simp: empty_target_def entry_at_def split: if_splits)
      moreover have "rec (s @ [Normal n]) (d @ [Normal n]) w = Some (r, w')"
        using c m KDir by (simp add: copy_entry_def)
      ultimately show ?thesis using rec ap' wf' unfolding rec_ok_def by blast
    next
      case (KFile x)
      with c m have "copy_file_with_permissions (s @ [Normal n]) (d @ [Normal n]) w = (r, w')"
        by (simp add: copy_entry_def)
      with copy_file_copied [OF p fresh' nd _ wf' ap'] KFile show ?thesis by simp
    next
      case (KLink x)
      with c m have "copy_symlink (s @ [Normal n]) (d @ [Normal n]) w = (r, w')"
        by (simp add: copy_entry_def)
      with copy_symlink_copied [OF p fresh' nd _ wf'] KLink show ?thesis by simp
    qed
  qed
qed

text \<open>Names next to each other do not meet.\<close>

lemma sibling: "m \<noteq> n \<Longrightarrow> \<not> prefix (d @ [Normal n]) (d @ Normal m # rel)"
  by simp

lemma kept_apart:
  assumes k: "\<And>q. \<not> prefix (d @ [Normal n]) q \<Longrightarrow> entry_at w' q = entry_at w q"
    and p: "phys w s" "phys w d" "apart s d" "wf_below w s"
  shows "phys w' s \<and> phys w' d \<and> wf_below w' s \<and> (\<forall>rel. entry_at w' (s @ rel) = entry_at w (s @ rel))"
proof -
  have s: "entry_at w' (s @ rel) = entry_at w (s @ rel)" for rel
    by (rule k) (metis apart_below append_prefixD p(3))
  have ent: "entry w' q = entry w q" if "\<not> prefix (d @ [Normal n]) q" "q \<noteq> [RootDir]" for q
    using k [OF that(1)] that(2) by (simp add: entry_at_def)
  have ph: "phys w' p" if "phys w p" "\<not> prefix (d @ [Normal n]) p" for p
    unfolding phys_def
  proof (intro conjI allI impI)
    show "p \<noteq> []" "hd p = RootDir" using that(1) by (simp_all add: phys_def)
    fix q c assume q: "prefix (q @ [c]) p" "q \<noteq> []"
    with that(1) obtain m nd where m: "c = Normal m" "entry w (q @ [c]) = Some nd" "nd_kind nd = KDir"
      unfolding phys_def by blast
    have "\<not> prefix (d @ [Normal n]) (q @ [c])" using q(1) that(2) prefix_order.trans by blast
    with m q(2) ent show "\<exists>m nd. c = Normal m \<and> entry w' (q @ [c]) = Some nd \<and> nd_kind nd = KDir" by auto
  qed
  have "\<not> prefix (d @ [Normal n]) s" using p(3) by (auto simp: apart_def dest: append_prefixD)
  moreover have "\<not> prefix (d @ [Normal n]) d" by (auto dest: prefix_length_le)
  ultimately show ?thesis using ph p s by (simp add: wf_below_def)
qed

lemma copy_entries_copied:
  assumes rec: "rec_ok rec"
  shows "copy_entries rec s d names w = Some (r, w') \<Longrightarrow> phys w s \<Longrightarrow> phys w d \<Longrightarrow> apart s d \<Longrightarrow>
     wf_below w s \<Longrightarrow> distinct names \<Longrightarrow> \<forall>n\<in>set names. entry_at w (s @ [Normal n]) \<noteq> None \<Longrightarrow>
     \<forall>n\<in>set names. \<forall>rel. entry_at w (d @ Normal n # rel) = None \<Longrightarrow>
     w' = w\<lparr>w_fs := w_fs w'\<rparr> \<and>
     (\<forall>q. (\<forall>n\<in>set names. \<not> prefix (d @ [Normal n]) q) \<longrightarrow> entry_at w' q = entry_at w q) \<and>
     (\<forall>n\<in>set names. \<forall>rel. entry_at w' (d @ Normal n # rel) \<noteq> None \<longrightarrow> entry_at w (s @ Normal n # rel) \<noteq> None) \<and>
     (r = Inr () \<longrightarrow> (\<forall>n\<in>set names. \<forall>rel. map_option shape (entry_at w' (d @ Normal n # rel)) =
        map_option shape (entry_at w (s @ Normal n # rel))))"
proof (induction names arbitrary: w)
  case (Cons n ns)
  obtain r1 w1 where c: "copy_entry rec (s @ [Normal n]) (d @ [Normal n]) w = Some (r1, w1)"
    using Cons.prems(1) by (auto split: option.splits)
  have e: "entry w (s @ [Normal n]) \<noteq> None" using Cons.prems(2,7) by (auto simp: entry_at_def)
  have fresh: "\<And>rel. entry_at w (d @ Normal n # rel) = None" using Cons.prems(8) by simp
  have cp: "copied w (s @ [Normal n]) (d @ [Normal n]) r1 w1"
    using Cons.prems by (intro copy_entry_copied [OF rec _ _ _ _ e fresh c]) auto
  then have fs: "w1 = w\<lparr>w_fs := w_fs w1\<rparr>" and
    keep: "\<And>q. \<not> prefix (d @ [Normal n]) q \<Longrightarrow> entry_at w1 q = entry_at w q" and
    sub: "\<And>rel. entry_at w1 (d @ Normal n # rel) \<noteq> None \<Longrightarrow> entry_at w (s @ Normal n # rel) \<noteq> None" and
    full: "\<And>rel. r1 = Inr () \<Longrightarrow> map_option shape (entry_at w1 (d @ Normal n # rel)) =
      map_option shape (entry_at w (s @ Normal n # rel))"
    unfolding copied_def by auto
  have sib: "\<And>m rel. m \<in> set ns \<Longrightarrow> entry_at w1 (d @ Normal m # rel) = entry_at w (d @ Normal m # rel)"
    using Cons.prems(6) by (intro keep sibling) auto
  have k: "phys w1 s \<and> phys w1 d \<and> wf_below w1 s \<and> (\<forall>rel. entry_at w1 (s @ rel) = entry_at w (s @ rel))"
    by (rule kept_apart [OF keep Cons.prems(2-5)])
  show ?case
  proof (cases r1)
    case (Inl x)
    with Cons.prems(1) c have r: "r = Inl x" "w' = w1" by auto
    have "entry_at w (s @ Normal m # rel) \<noteq> None"
      if "m \<in> set ns" "entry_at w1 (d @ Normal m # rel) \<noteq> None" for m rel
      using that sib Cons.prems(8) by simp
    then show ?thesis unfolding r using fs keep sub by auto
  next
    case (Inr u)
    with Cons.prems(1) c have "copy_entries rec s d ns w1 = Some (r, w')" by auto
    note ih = Cons.IH [OF this]
    have ih: "w' = w1\<lparr>w_fs := w_fs w'\<rparr> \<and>
     (\<forall>q. (\<forall>n\<in>set ns. \<not> prefix (d @ [Normal n]) q) \<longrightarrow> entry_at w' q = entry_at w1 q) \<and>
     (\<forall>n\<in>set ns. \<forall>rel. entry_at w' (d @ Normal n # rel) \<noteq> None \<longrightarrow> entry_at w1 (s @ Normal n # rel) \<noteq> None) \<and>
     (r = Inr () \<longrightarrow> (\<forall>n\<in>set ns. \<forall>rel. map_option shape (entry_at w' (d @ Normal n # rel)) =
        map_option shape (entry_at w1 (s @ Normal n # rel))))"
      by (rule ih) (use k Cons.prems sib in auto)
    have own: "entry_at w' (d @ Normal n # rel) = entry_at w1 (d @ Normal n # rel)" for rel
      by (rule ih [THEN conjunct2, THEN conjunct1, rule_format]) (use Cons.prems(6) in auto)
    have "w' = w\<lparr>w_fs := w_fs w'\<rparr>"
      using ih fs by (metis world.surjective world.update_convs(1))
    then show ?thesis using ih k keep sub full Inr own by auto
  qed
qed simp

lemma read_dir_names:
  assumes "phys w s" and "read_dir s w = Inr names"
  shows "distinct names" "set names = {n. entry w (s @ [Normal n]) \<noteq> None}"
proof -
  have "names = children w s"
    using node_of_phys [OF assms(1), of True] assms(2)
    by (auto simp: read_dir_def guarded_def split: option.splits if_splits)
  then show "distinct names" "set names = {n. entry w (s @ [Normal n]) \<noteq> None}"
    by (auto simp: children_set) (simp add: children_def)
qed

lemma wf_below_missing:
  assumes wf: "wf_below w s" and none: "\<And>n. c = Normal n \<Longrightarrow> entry_at w (s @ [c]) = None"
  shows "entry_at w (s @ c # rel) = None"
proof -
  have c: "entry_at w (s @ [c]) = None"
  proof (rule ccontr)
    assume "entry_at w (s @ [c]) \<noteq> None"
    then obtain n where "entry_at w (s @ [] @ [c]) = Some n" by auto
    from wf_belowD [OF wf this] none \<open>entry_at w (s @ [c]) \<noteq> None\<close> show False by auto
  qed
  with wf_below_leaf [OF wf, of "[c]" rel] show ?thesis by (cases "rel = []") auto
qed

lemma copy_dir_body:
  assumes rec: "rec_ok rec" and p: "phys w s" "phys w d" and ap: "apart s d" and wf: "wf_below w s"
    and none: "\<And>rel. rel \<noteq> [] \<Longrightarrow> entry_at w (d @ rel) = None" and names: "read_dir s w = Inr names"
    and c: "copy_entries rec s d names w = Some (r, w')"
  shows "copied w s d r w' \<and> phys w' d"
proof -
  note n = read_dir_names [OF p(1) names]
  have sn: "entry_at w (s @ [Normal m]) = entry w (s @ [Normal m])" for m using p by (simp add: entry_at_def)
  have r: "w' = w\<lparr>w_fs := w_fs w'\<rparr>"
    "\<And>q. (\<forall>n\<in>set names. \<not> prefix (d @ [Normal n]) q) \<Longrightarrow> entry_at w' q = entry_at w q"
    "\<And>n rel. n \<in> set names \<Longrightarrow> entry_at w' (d @ Normal n # rel) \<noteq> None \<Longrightarrow>
       entry_at w (s @ Normal n # rel) \<noteq> None"
    "\<And>n rel. r = Inr () \<Longrightarrow> n \<in> set names \<Longrightarrow> map_option shape (entry_at w' (d @ Normal n # rel)) =
       map_option shape (entry_at w (s @ Normal n # rel))"
    using copy_entries_copied [OF rec c p ap wf n(1)] none n(2) sn by auto
  have other: "entry_at w' (d @ c # rel) = None \<and> entry_at w (s @ c # rel) = None"
    if "\<And>m. c = Normal m \<Longrightarrow> m \<notin> set names" for c rel
  proof
    have "entry_at w' (d @ c # rel) = entry_at w (d @ c # rel)" using that by (intro r(2)) auto
    then show "entry_at w' (d @ c # rel) = None" using none by simp
    show "entry_at w (s @ c # rel) = None"
      by (rule wf_below_missing [OF wf]) (use that n(2) sn in auto)
  qed
  have dd: "entry_at w' q = entry_at w q" if "prefix q d" for q
    by (rule r(2)) (use that in \<open>auto dest!: prefix_length_le\<close>)
  have sr: "s \<noteq> [RootDir]" and dr: "d \<noteq> [RootDir]"
    using ap p by (auto simp: apart_def phys_def) (auto simp: prefix_def neq_Nil_conv)
  obtain k where k: "entry_at w s = Some k" "nd_kind k = KDir" using phys_entry [OF p(1)] sr by auto
  obtain l where l: "entry_at w d = Some l" "nd_kind l = KDir" using phys_entry [OF p(2)] dr by auto
  have sub: "entry_at w (s @ rel) \<noteq> None" if "entry_at w' (d @ rel) \<noteq> None" for rel
  proof (cases rel)
    case (Cons c rest)
    show ?thesis
    proof (cases "\<exists>m. c = Normal m \<and> m \<in> set names")
      case True
      with that Cons r(3) show ?thesis by auto
    next
      case False
      with that Cons other [of c rest] show ?thesis by auto
    qed
  qed (simp add: k)
  have full: "map_option shape (entry_at w' (d @ rel)) = map_option shape (entry_at w (s @ rel))" if "r = Inr ()" for rel
  proof (cases rel)
    case Nil
    with dd [of d] k l show ?thesis by (simp add: shape_def)
  next
    case (Cons c rest)
    show ?thesis
    proof (cases "\<exists>m. c = Normal m \<and> m \<in> set names")
      case True
      with Cons r(4) that show ?thesis by auto
    next
      case False
      with Cons other [of c rest] show ?thesis by auto
    qed
  qed
  have "\<not> prefix d q \<Longrightarrow> entry_at w' q = entry_at w q" for q
    by (rule r(2)) (auto dest: append_prefixD)
  with r(1) sub full have "copied w s d r w'" unfolding copied_def by blast
  moreover have "phys w' d"
  proof (rule phys_mono [OF p(2)])
    fix q nd assume q: "prefix q d" "q \<noteq> [RootDir]" "entry w q = Some nd" "nd_kind nd = KDir"
    with dd [of q] show "\<exists>nd'. entry w' q = Some nd' \<and> nd_kind nd' = KDir"
      by (auto simp: entry_at_def split: if_splits option.splits)
  qed
  ultimately show ?thesis ..
qed


lemma copy_permissions_dir:
  assumes p: "phys w d" "d \<noteq> [RootDir]"
  shows "copy_permissions s d w = w \<or> (\<exists>n m. entry_at w d = Some n \<and> nd_kind n = KDir \<and>
    copy_permissions s d w = put_entry d (n\<lparr>nd_mode := m\<rparr>) w)"
  using copy_permissions_effect [of s d w] node_of_phys [OF p(1), of True] phys_entry [OF p(1)] p(2) by auto

lemma copied_mode:
  assumes c: "copied w s d r w'" and p: "phys w' d" "d \<noteq> [RootDir]"
  shows "copied w s d r (copy_permissions s d w')"
  using copy_permissions_dir [OF p, of s]
proof
  assume "\<exists>n m. entry_at w' d = Some n \<and> nd_kind n = KDir \<and>
    copy_permissions s d w' = put_entry d (n\<lparr>nd_mode := m\<rparr>) w'"
  then obtain n m where n: "entry_at w' d = Some n" "nd_kind n = KDir"
    "copy_permissions s d w' = put_entry d (n\<lparr>nd_mode := m\<rparr>) w'" by blast
  have fs: "put_entry d (n\<lparr>nd_mode := m\<rparr>) w' = w\<lparr>w_fs := w_fs (put_entry d (n\<lparr>nd_mode := m\<rparr>) w')\<rparr>"
    using c by (simp add: copied_def put_entry_def) (metis world.surjective world.update_convs(1))
  have ne: "entry_at w s \<noteq> None" using c n(1) unfolding copied_def by (metis append_Nil2 option.distinct(1))
  have sh: "map_option shape (entry_at w (s @ [])) = Some (shape n)" if "r = Inr ()"
    using c n(1) that unfolding copied_def by (metis append_Nil2 option.simps(9))
  show ?thesis unfolding n(3) copied_def
  proof (intro conjI allI impI)
    show "put_entry d (n\<lparr>nd_mode := m\<rparr>) w' = w\<lparr>w_fs := w_fs (put_entry d (n\<lparr>nd_mode := m\<rparr>) w')\<rparr>" by (rule fs)
    show "\<not> prefix d q \<Longrightarrow> entry_at (put_entry d (n\<lparr>nd_mode := m\<rparr>) w') q = entry_at w q" for q
      using c by (auto simp: copied_def)
    show "entry_at (put_entry d (n\<lparr>nd_mode := m\<rparr>) w') (d @ rel) \<noteq> None \<Longrightarrow> entry_at w (s @ rel) \<noteq> None" for rel
      using c ne by (cases "rel = []") (auto simp: copied_def)
    show "map_option shape (entry_at (put_entry d (n\<lparr>nd_mode := m\<rparr>) w') (d @ rel)) =
        map_option shape (entry_at w (s @ rel))" if "r = Inr ()" for rel
      using c that sh n(2) by (cases "rel = []") (auto simp: copied_def shape_def)
  qed
qed (use c in simp)

lemma copied_start:
  assumes fs: "w1 = w\<lparr>w_fs := w_fs w1\<rparr>" and k: "\<And>q. q \<noteq> d \<Longrightarrow> entry w1 q = entry w q" and ap: "apart s d"
    and c: "copied w1 s d r w'"
  shows "copied w s d r w'"
proof -
  have e: "entry_at w1 q = entry_at w q" if "q \<noteq> d" for q using k [OF that] by (auto simp: entry_at_def)
  have s: "entry_at w1 (s @ rel) = entry_at w (s @ rel)" for rel
    by (rule e) (use apart_below [OF ap, of rel] in auto)
  have "w' = w\<lparr>w_fs := w_fs w'\<rparr>"
    using c fs unfolding copied_def by (metis world.surjective world.update_convs(1))
  moreover have "\<not> prefix d q \<Longrightarrow> entry_at w' q = entry_at w q" for q
    using c e [of q] by (auto simp: copied_def)
  ultimately show ?thesis using c s by (simp add: copied_def)
qed

lemma copied_nothing:
  assumes s: "phys w s" and none: "\<And>rel. rel \<noteq> [] \<Longrightarrow> entry_at w (d @ rel) = None"
  shows "copied w s d (Inl k) w"
  unfolding copied_def
proof (intro conjI allI impI)
  show "entry_at w (d @ rel) \<noteq> None \<Longrightarrow> entry_at w (s @ rel) \<noteq> None" for rel
    using none [of rel] phys_entry [OF s] by (cases "rel = []") auto
qed simp_all

lemma copy_dir_recursive_copied: "rec_ok (copy_dir_recursive fuel)"
proof (induction fuel)
  case 0
  show ?case by (simp add: rec_ok_def)
next
  case (Suc fuel)
  show ?case unfolding rec_ok_def
  proof (intro allI impI)
    fix w s d r w'
    assume s: "phys w s" and d: "empty_target w d" and ap: "apart s d" and wf: "wf_below w s"
      and c: "copy_dir_recursive (Suc fuel) s d w = Some (r, w')"
    have sr: "s \<noteq> [RootDir]" and dr: "d \<noteq> [RootDir]"
      using ap d s by (auto simp: apart_def empty_target_def phys_def) (auto simp: prefix_def neq_Nil_conv)
    obtain r0 w1 where m: "create_missing d w = (r0, w1)" by (cases "create_missing d w")
    from create_missing_target [OF d m] consider k where "r0 = Inl k" "w1 = w"
      | "r0 = Inr ()" "phys w1 d" "empty_target w1 d" "w1 = w\<lparr>w_fs := w_fs w1\<rparr>"
        "\<And>q. q \<noteq> d \<Longrightarrow> entry w1 q = entry w q" by blast
    then show "copied w s d r w'"
    proof cases
      case 1
      have none: "entry_at w (d @ rel) = None" if "rel \<noteq> []" for rel
        using d that by (simp add: empty_target_def)
      have "copied w s d (Inl k) w"
        by (rule copied_nothing) (use s none in auto)
      with 1 c m show ?thesis by auto
    next
      case made: 2
      have s1: "phys w1 s"
        using s by (rule phys_mono) (use made(5) ap in \<open>auto simp: apart_def\<close>)
      have none1: "\<And>rel. rel \<noteq> [] \<Longrightarrow> entry_at w1 (d @ rel) = None"
        using made(3) by (simp add: empty_target_def)
      have same: "entry_at w1 (s @ rel) = entry_at w (s @ rel)" for rel
        using made(5) [of "s @ rel"] apart_below [OF ap, of rel] by (auto simp: entry_at_def)
      have wf1: "wf_below w1 s" using wf same by (simp add: wf_below_def)
      have "copied w1 s d r w'"
      proof (cases "read_dir s w1")
        case (Inl k)
        with c m made(1) copied_nothing [OF s1 none1] show ?thesis by auto
      next
        case (Inr names)
        obtain r2 w2 where e: "copy_entries (copy_dir_recursive fuel) s d names w1 = Some (r2, w2)"
          using c m made(1) Inr by (auto split: option.splits)
        note cp = copy_dir_body [OF Suc.IH s1 made(2) ap wf1 none1 Inr e]
        show ?thesis
        proof (cases r2)
          case (Inl k)
          with c m made(1) Inr e cp \<open>read_dir s w1 = Inr names\<close> show ?thesis by auto
        next
          case (Inr u)
          with c m made(1) e \<open>read_dir s w1 = Inr names\<close> have "r = Inr ()" "w' = copy_permissions s d w2" by auto
          with cp copied_mode [of w1 s d r2 w2] dr Inr show ?thesis by simp
        qed
      qed
      with copied_start [OF made(4,5) ap] show ?thesis by blast
    qed
  qed
qed

section \<open>Termination\<close>

definition below :: "world \<Rightarrow> path \<Rightarrow> path set" where
  "below w s = {r. strict_prefix s r \<and> entry w r \<noteq> None}"

lemma below_finite: "finite (below w s)" and below_card: "card (below w s) \<le> length (w_fs w)"
proof -
  have "below w s \<subseteq> fst ` set (w_fs w)"
    by (force simp: below_def entry_def image_iff dest!: map_of_SomeD)
  moreover have "card (fst ` set (w_fs w)) \<le> length (w_fs w)"
    by (metis card_image_le card_length finite_set le_trans)
  ultimately show "finite (below w s)" "card (below w s) \<le> length (w_fs w)"
    by (auto intro: finite_subset card_mono [THEN le_trans])
qed

lemma below_child:
  assumes "entry w (s @ [c]) \<noteq> None"
  shows "card (below w (s @ [c])) < card (below w s)"
proof (rule psubset_card_mono [OF below_finite])
  have "s @ [c] \<in> below w s" "s @ [c] \<notin> below w (s @ [c])"
    using assms by (auto simp: below_def strict_prefix_def)
  moreover have "below w (s @ [c]) \<subseteq> below w s"
    by (auto simp: below_def strict_prefix_def dest: append_prefixD)
  ultimately show "below w (s @ [c]) \<subset> below w s" by blast
qed

lemma below_same: "\<lbrakk>s \<noteq> []; \<And>rel. entry_at w' (s @ rel) = entry_at w (s @ rel)\<rbrakk> \<Longrightarrow> below w' s = below w s"
proof -
  assume s: "s \<noteq> []" and e: "\<And>rel. entry_at w' (s @ rel) = entry_at w (s @ rel)"
  have "entry w' (s @ rel) = entry w (s @ rel)" if "rel \<noteq> []" for rel
    using e [of rel] s that by (cases s; cases rel) (auto simp: entry_at_def)
  then show ?thesis by (auto simp: below_def strict_prefix_def prefix_def)
qed

lemma copy_entries_ends:
  assumes rec: "rec_ok rec" and
    ends: "\<And>w s d. phys w s \<Longrightarrow> empty_target w d \<Longrightarrow> apart s d \<Longrightarrow> wf_below w s \<Longrightarrow> card (below w s) < fuel \<Longrightarrow>
      rec s d w \<noteq> None"
  shows "phys w s \<Longrightarrow> phys w d \<Longrightarrow> apart s d \<Longrightarrow> wf_below w s \<Longrightarrow> distinct names \<Longrightarrow>
     \<forall>n\<in>set names. entry w (s @ [Normal n]) \<noteq> None \<Longrightarrow>
     \<forall>n\<in>set names. \<forall>rel. entry_at w (d @ Normal n # rel) = None \<Longrightarrow> card (below w s) \<le> fuel \<Longrightarrow>
     copy_entries rec s d names w \<noteq> None"
proof (induction names arbitrary: w)
  case (Cons n ns)
  have e: "entry w (s @ [Normal n]) \<noteq> None" and fresh: "\<And>rel. entry_at w (d @ Normal n # rel) = None"
    using Cons.prems by auto
  have "copy_entry rec (s @ [Normal n]) (d @ [Normal n]) w \<noteq> None"
  proof (cases "symlink_metadata w (s @ [Normal n])")
    case (Inr nd)
    with e have nd: "entry w (s @ [Normal n]) = Some nd"
      using Cons.prems(1) by (auto simp: symlink_metadata_def node_of_name guarded_def split: option.splits)
    show ?thesis
    proof (cases "nd_kind nd")
      case KDir
      have "rec (s @ [Normal n]) (d @ [Normal n]) w \<noteq> None"
      proof (rule ends)
        show "phys w (s @ [Normal n])" using Cons.prems nd KDir by (simp add: phys_snoc)
        show "empty_target w (d @ [Normal n])"
          using Cons.prems(2) fresh fresh [of "[]"] by (auto simp: empty_target_def entry_at_def split: if_splits)
        show "apart (s @ [Normal n]) (d @ [Normal n])" by (rule apart_snoc [OF Cons.prems(3)])
        show "wf_below w (s @ [Normal n])" by (rule wf_below_sub [OF Cons.prems(4)])
        show "card (below w (s @ [Normal n])) < fuel" using below_child [OF e] Cons.prems(8) by simp
      qed
      with Inr KDir show ?thesis by (simp add: copy_entry_def)
    qed (use Inr in \<open>simp_all add: copy_entry_def\<close>)
  qed (simp add: copy_entry_def)
  then obtain r1 w1 where c: "copy_entry rec (s @ [Normal n]) (d @ [Normal n]) w = Some (r1, w1)" by auto
  have cp: "copied w (s @ [Normal n]) (d @ [Normal n]) r1 w1"
    using Cons.prems by (intro copy_entry_copied [OF rec _ _ _ _ e fresh c]) auto
  then have keep: "\<And>q. \<not> prefix (d @ [Normal n]) q \<Longrightarrow> entry_at w1 q = entry_at w q" unfolding copied_def by auto
  have k: "phys w1 s \<and> phys w1 d \<and> wf_below w1 s \<and> (\<forall>rel. entry_at w1 (s @ rel) = entry_at w (s @ rel))"
    by (rule kept_apart [OF keep Cons.prems(1-4)])
  have b: "below w1 s = below w s" using k Cons.prems(1) by (intro below_same) (auto simp: phys_def)
  have es: "entry w1 (s @ [Normal m]) = entry w (s @ [Normal m])" for m
    using k [THEN conjunct2, THEN conjunct2, THEN conjunct2, rule_format, of "[Normal m]"] Cons.prems(1)
    by (simp add: entry_at_def)
  have sib: "\<And>m rel. m \<in> set ns \<Longrightarrow> entry_at w1 (d @ Normal m # rel) = entry_at w (d @ Normal m # rel)"
    using Cons.prems(5) by (intro keep sibling) auto
  have "copy_entries rec s d ns w1 \<noteq> None"
    by (rule Cons.IH) (use k b es sib Cons.prems in auto)
  with c show ?case by (cases r1) auto
qed simp

lemma copy_dir_recursive_ends:
  "phys w s \<Longrightarrow> empty_target w d \<Longrightarrow> apart s d \<Longrightarrow> wf_below w s \<Longrightarrow> card (below w s) < fuel \<Longrightarrow>
     copy_dir_recursive fuel s d w \<noteq> None"
proof (induction fuel arbitrary: w s d)
  case (Suc fuel)
  obtain r0 w1 where m: "create_missing d w = (r0, w1)" by (cases "create_missing d w")
  from create_missing_target [OF Suc.prems(2) m] consider k where "r0 = Inl k" "w1 = w"
    | "r0 = Inr ()" "phys w1 d" "empty_target w1 d" "\<And>q. q \<noteq> d \<Longrightarrow> entry w1 q = entry w q" by blast
  then show ?case
  proof cases
    case made: 2
    have same: "entry_at w1 (s @ rel) = entry_at w (s @ rel)" for rel
      using made(4) [of "s @ rel"] apart_below [OF Suc.prems(3), of rel] by (auto simp: entry_at_def)
    have s1: "phys w1 s"
      using Suc.prems(1) by (rule phys_mono) (use made(4) Suc.prems(3) in \<open>auto simp: apart_def\<close>)
    have wf1: "wf_below w1 s" using Suc.prems(4) same by (simp add: wf_below_def)
    have b: "below w1 s = below w s" using same s1 by (intro below_same) (auto simp: phys_def)
    have none1: "\<And>rel. rel \<noteq> [] \<Longrightarrow> entry_at w1 (d @ rel) = None"
      using made(3) by (simp add: empty_target_def)
    show ?thesis
    proof (cases "read_dir s w1")
      case (Inr names)
      note n = read_dir_names [OF s1 Inr]
      have "copy_entries (copy_dir_recursive fuel) s d names w1 \<noteq> None"
        by (rule copy_entries_ends [OF copy_dir_recursive_copied Suc.IH s1 made(2) Suc.prems(3) wf1 n(1)])
          (use n(2) none1 b Suc.prems(5) in auto)
      with m made(1) Inr show ?thesis by (auto split: sum.split)
    qed (use m made(1) in simp)
  qed (use m in simp)
qed simp

section \<open>Success\<close>

text \<open>When no call fails for a reason of its own, a copy succeeds.\<close>

definition faultless :: "world \<Rightarrow> bool" where
  "faultless w \<longleftrightarrow> w_faults w = (\<lambda>_. None)"

lemma guarded_faultless [simp]: "faultless w \<Longrightarrow> guarded w op r = r"
  by (simp add: guarded_def faultless_def)

lemma copied_faultless: "copied w s d r w' \<Longrightarrow> faultless w \<Longrightarrow> faultless w'"
  unfolding copied_def faultless_def by (metis world.select_convs(5) world.surjective world.update_convs(1))

lemma copy_symlink_succeeds:
  assumes "faultless w" "phys w P" "phys w Q" "entry w (P @ [Normal a]) = Some n" "nd_kind n = KLink t"
    and "entry w (Q @ [Normal b]) = None"
  shows "fst (copy_symlink (P @ [Normal a]) (Q @ [Normal b]) w) = Inr ()"
  using assms by (simp add: copy_symlink_def read_link_def fs_symlink_def node_of_name phys_resolve_name(1) entry_at_def)

lemma copy_file_succeeds:
  assumes w: "faultless w" and p: "phys w P" "phys w Q" and e: "entry w (P @ [Normal a]) = Some n" "is_file_kind (nd_kind n)"
    and none: "entry w (Q @ [Normal b]) = None"
  shows "fst (copy_file_with_permissions (P @ [Normal a]) (Q @ [Normal b]) w) = Inr ()"
proof -
  have nl: "\<not> is_link_kind (nd_kind n)" using e(2) by (cases "nd_kind n") auto
  have "resolve True w (Q @ [Normal b]) = Inr (Q @ [Normal b])"
    by (rule phys_resolve_name(2)) (use p none in auto)
  with node_of_name_follow [OF p(1) e(1) nl] e(2) none p w show ?thesis
    by (simp add: copy_file_with_permissions_def fs_copy_def entry_at_def Let_def faultless_def)
qed

lemma copy_entry_succeeds:
  assumes w: "faultless w" and p: "phys w s" "phys w d" and e: "entry w (s @ [Normal n]) \<noteq> None"
    and fresh: "\<And>rel. entry_at w (d @ Normal n # rel) = None"
    and dir: "\<And>nd. entry w (s @ [Normal n]) = Some nd \<Longrightarrow> nd_kind nd = KDir \<Longrightarrow>
      \<exists>w'. rec (s @ [Normal n]) (d @ [Normal n]) w = Some (Inr (), w')"
  shows "\<exists>w'. copy_entry rec (s @ [Normal n]) (d @ [Normal n]) w = Some (Inr (), w')"
proof -
  from e obtain nd where nd: "entry w (s @ [Normal n]) = Some nd" by auto
  have none: "entry w (d @ [Normal n]) = None" using fresh [of "[]"] p by (simp add: entry_at_def)
  have m: "symlink_metadata w (s @ [Normal n]) = Inr nd"
    using w by (simp add: symlink_metadata_def node_of_name p nd)
  show ?thesis
  proof (cases "nd_kind nd")
    case KDir
    with dir [OF nd] m show ?thesis by (simp add: copy_entry_def)
  next
    case (KFile x)
    with copy_file_succeeds [OF w p nd _ none] m show ?thesis by (simp add: copy_entry_def) (metis prod.collapse)
  next
    case (KLink x)
    with copy_symlink_succeeds [OF w p nd _ none] m show ?thesis by (simp add: copy_entry_def) (metis prod.collapse)
  qed
qed

lemma copy_entries_succeeds:
  assumes rec: "rec_ok rec" and
    ends: "\<And>w s d. phys w s \<Longrightarrow> empty_target w d \<Longrightarrow> apart s d \<Longrightarrow> wf_below w s \<Longrightarrow> faultless w \<Longrightarrow>
      card (below w s) < fuel \<Longrightarrow> \<exists>w'. rec s d w = Some (Inr (), w')"
  shows "phys w s \<Longrightarrow> phys w d \<Longrightarrow> apart s d \<Longrightarrow> wf_below w s \<Longrightarrow> faultless w \<Longrightarrow> distinct names \<Longrightarrow>
     \<forall>n\<in>set names. entry w (s @ [Normal n]) \<noteq> None \<Longrightarrow>
     \<forall>n\<in>set names. \<forall>rel. entry_at w (d @ Normal n # rel) = None \<Longrightarrow> card (below w s) \<le> fuel \<Longrightarrow>
     \<exists>w'. copy_entries rec s d names w = Some (Inr (), w')"
proof (induction names arbitrary: w)
  case (Cons n ns)
  have e: "entry w (s @ [Normal n]) \<noteq> None" and fresh: "\<And>rel. entry_at w (d @ Normal n # rel) = None"
    using Cons.prems by auto
  have dir: "\<exists>w'. rec (s @ [Normal n]) (d @ [Normal n]) w = Some (Inr (), w')"
    if nd: "entry w (s @ [Normal n]) = Some nd" "nd_kind nd = KDir" for nd
  proof (rule ends)
    show "phys w (s @ [Normal n])" using Cons.prems nd by (simp add: phys_snoc)
    show "empty_target w (d @ [Normal n])"
      using Cons.prems(2) fresh fresh [of "[]"] by (auto simp: empty_target_def entry_at_def split: if_splits)
    show "apart (s @ [Normal n]) (d @ [Normal n])" by (rule apart_snoc [OF Cons.prems(3)])
    show "wf_below w (s @ [Normal n])" by (rule wf_below_sub [OF Cons.prems(4)])
    show "card (below w (s @ [Normal n])) < fuel" using below_child [OF e] Cons.prems(9) by simp
  qed (rule Cons.prems(5))
  have "\<exists>w1. copy_entry rec (s @ [Normal n]) (d @ [Normal n]) w = Some (Inr (), w1)"
    by (rule copy_entry_succeeds) (use Cons.prems(5,1,2) e fresh dir in auto)
  then obtain w1 where c: "copy_entry rec (s @ [Normal n]) (d @ [Normal n]) w = Some (Inr (), w1)" by blast
  have cp: "copied w (s @ [Normal n]) (d @ [Normal n]) (Inr ()) w1"
    using Cons.prems by (intro copy_entry_copied [OF rec _ _ _ _ e fresh c]) auto
  then have keep: "\<And>q. \<not> prefix (d @ [Normal n]) q \<Longrightarrow> entry_at w1 q = entry_at w q" unfolding copied_def by auto
  have k: "phys w1 s \<and> phys w1 d \<and> wf_below w1 s \<and> (\<forall>rel. entry_at w1 (s @ rel) = entry_at w (s @ rel))"
    by (rule kept_apart [OF keep Cons.prems(1-4)])
  have b: "below w1 s = below w s" using k Cons.prems(1) by (intro below_same) (auto simp: phys_def)
  have es: "entry w1 (s @ [Normal m]) = entry w (s @ [Normal m])" for m
    using k [THEN conjunct2, THEN conjunct2, THEN conjunct2, rule_format, of "[Normal m]"] Cons.prems(1)
    by (simp add: entry_at_def)
  have sib: "\<And>m rel. m \<in> set ns \<Longrightarrow> entry_at w1 (d @ Normal m # rel) = entry_at w (d @ Normal m # rel)"
    using Cons.prems(6) by (intro keep sibling) auto
  have "\<exists>w'. copy_entries rec s d ns w1 = Some (Inr (), w')"
    by (rule Cons.IH) (use k b es sib Cons.prems copied_faultless [OF cp] in auto)
  with c show ?case by auto
qed simp

lemma create_missing_succeeds:
  assumes w: "faultless w" and t: "empty_target w d"
  shows "fst (create_missing d w) = Inr ()" "fst (create_dir_all d w) = Inr ()"
proof -
  from t obtain q b where d: "d = q @ [Normal b]" and q: "phys w q" by (auto simp: empty_target_def)
  have "fst (create_dir_all d w) = Inr () \<and> (phys w d \<longrightarrow> path_exists w d)"
  proof (cases "phys w d")
    case True
    from node_of_phys [OF True, of True] phys_entry [OF True] q have dir: "path_is_dir w d" "path_exists w d"
      using w by (auto simp: path_is_dir_def path_exists_def metadata_def d)
    have "sys_mkdir d w = (Inl AlreadyExists, w)"
      using phys_entry [OF True] w by (auto simp: sys_mkdir_def phys_resolve [OF True])
    with dir show ?thesis by (subst create_dir_all.simps) (simp add: d)
  next
    case False
    with t have "entry w d = None" by (auto simp: empty_target_def)
    with q w d have "sys_mkdir d w = (Inr (), put_entry d (new_node w KDir 493) w)"
      by (simp add: sys_mkdir_def phys_resolve_name(1) entry_at_def)
    with False show ?thesis by (subst create_dir_all.simps) (simp add: d)
  qed
  then show "fst (create_missing d w) = Inr ()" "fst (create_dir_all d w) = Inr ()"
    by (simp_all add: create_missing_def)
qed

lemma copy_dir_recursive_succeeds:
  "phys w s \<Longrightarrow> empty_target w d \<Longrightarrow> apart s d \<Longrightarrow> wf_below w s \<Longrightarrow> faultless w \<Longrightarrow> card (below w s) < fuel \<Longrightarrow>
     \<exists>w'. copy_dir_recursive fuel s d w = Some (Inr (), w')"
proof (induction fuel arbitrary: w s d)
  case (Suc fuel)
  obtain w1 where m: "create_missing d w = (Inr (), w1)"
    using create_missing_succeeds(1) [OF Suc.prems(5,2)] by (metis prod.collapse)
  with create_missing_target [OF Suc.prems(2) m] have made: "phys w1 d" "empty_target w1 d" "w1 = w\<lparr>w_fs := w_fs w1\<rparr>"
    "\<And>q. q \<noteq> d \<Longrightarrow> entry w1 q = entry w q" by auto
  have fl: "faultless w1"
    using Suc.prems(5) made(3) unfolding faultless_def by (metis world.select_convs(5) world.surjective world.update_convs(1))
  have same: "entry_at w1 (s @ rel) = entry_at w (s @ rel)" for rel
    using made(4) [of "s @ rel"] apart_below [OF Suc.prems(3), of rel] by (auto simp: entry_at_def)
  have s1: "phys w1 s"
    using Suc.prems(1) by (rule phys_mono) (use made(4) Suc.prems(3) in \<open>auto simp: apart_def\<close>)
  have wf1: "wf_below w1 s" using Suc.prems(4) same by (simp add: wf_below_def)
  have b: "below w1 s = below w s" using same s1 by (intro below_same) (auto simp: phys_def)
  have none1: "\<And>rel. rel \<noteq> [] \<Longrightarrow> entry_at w1 (d @ rel) = None"
    using made(2) by (simp add: empty_target_def)
  have "s \<noteq> [RootDir]"
    using Suc.prems(2,3) by (auto simp: apart_def empty_target_def phys_def) (auto simp: prefix_def neq_Nil_conv)
  with node_of_phys [OF s1, of True] phys_entry [OF s1] fl obtain names where r: "read_dir s w1 = Inr names"
    by (auto simp: read_dir_def)
  note n = read_dir_names [OF s1 r]
  have "\<exists>w2. copy_entries (copy_dir_recursive fuel) s d names w1 = Some (Inr (), w2)"
    by (rule copy_entries_succeeds [OF copy_dir_recursive_copied Suc.IH s1 made(1) Suc.prems(3) wf1 fl n(1)])
      (use n(2) none1 b Suc.prems(6) in auto)
  with m r show ?case by auto
qed simp

section \<open>Nothing is ever replaced\<close>

text \<open>No call of a copy removes an entry or changes what kind of entry it is.\<close>

fun same_kind :: "node_kind \<Rightarrow> node_kind \<Rightarrow> bool" where
  "same_kind (KFile _) (KFile _) = True"
| "same_kind a b = (a = b)"

definition keeps :: "world \<Rightarrow> world \<Rightarrow> bool" where
  "keeps w w' \<longleftrightarrow> (\<forall>q nd. entry w q = Some nd \<longrightarrow>
     (\<exists>nd'. entry w' q = Some nd' \<and> same_kind (nd_kind nd) (nd_kind nd')))"

lemma same_kind_refl [simp]: "same_kind k k"
  by (cases k) auto

lemma same_kind_trans: "same_kind a b \<Longrightarrow> same_kind b c \<Longrightarrow> same_kind a c"
  by (cases a; cases b; cases c) auto

lemma same_kind_simps [simp]:
  "same_kind KDir k \<longleftrightarrow> k = KDir" "same_kind (KLink t) k \<longleftrightarrow> k = KLink t"
  "same_kind (KFile x) k \<longleftrightarrow> is_file_kind k"
  by (cases k; auto)+

lemma keeps_refl: "keeps w w"
  by (simp add: keeps_def)

lemma keeps_trans: "keeps a b \<Longrightarrow> keeps b c \<Longrightarrow> keeps a c"
  unfolding keeps_def by (meson same_kind_trans)

lemma keeps_put:
  "(\<And>m. entry w q = Some m \<Longrightarrow> same_kind (nd_kind m) (nd_kind n)) \<Longrightarrow> keeps w (put_entry q n w)"
  by (auto simp: keeps_def)

lemma keeps_fs_copy: "keeps w (snd (fs_copy s d w))"
proof -
  have put: "keeps w (put_entry q (old\<lparr>nd_kind := k, nd_mode := m\<rparr>) w)" "keeps w (put_entry q (old\<lparr>nd_kind := k\<rparr>) w)"
    if "case entry_at w q of None \<Rightarrow> True | Some m \<Rightarrow> is_file_kind (nd_kind m)" "is_file_kind k" for q old k m
    using that by (auto intro!: keeps_put simp: entry_at_def split: option.splits if_splits)
      (metis is_file_kind.elims(2) same_kind_simps(3))+
  show ?thesis
    by (auto simp: fs_copy_def keeps_refl put Let_def split: sum.split option.split)
qed

lemma keeps_set_mode: "keeps w (snd (fs_set_mode p m w))"
  by (auto simp: fs_set_mode_def guarded_def node_of_def try_res_def keeps_refl entry_at_def
      split: sum.splits option.splits if_splits intro!: keeps_put)

lemma keeps_symlink: "keeps w (snd (fs_symlink t p w))"
  by (auto simp: fs_symlink_def guarded_def keeps_refl entry_at_def split: sum.split option.split
      intro!: keeps_put)

lemma keeps_mkdir: "keeps w (snd (sys_mkdir p w))"
  by (auto simp: sys_mkdir_def guarded_def keeps_refl entry_at_def split: sum.split option.split
      intro!: keeps_put)

lemma keeps_create_dir_all: "keeps w (snd (create_dir_all p w))"
proof (induction p w rule: create_dir_all.induct)
  case (1 p w)
  obtain r w1 where m: "sys_mkdir p w = (r, w1)" by (cases "sys_mkdir p w")
  have k: "keeps w w1" using keeps_mkdir [of w p] m by simp
  show ?case
  proof (cases "\<exists>q. p \<noteq> [] \<and> r = Inl NotFound \<and> path_parent p = Some q")
    case True
    then obtain q where q: "p \<noteq> []" "r = Inl NotFound" "path_parent p = Some q" by blast
    obtain r2 w2 where c: "create_dir_all q w1 = (r2, w2)" by (cases "create_dir_all q w1")
    have "keeps w1 w2" using "1.IH" [OF q(1) m [symmetric] q(2) _ q(3)] c by simp
    moreover have "keeps w2 (snd (sys_mkdir p w2))" by (rule keeps_mkdir)
    ultimately show ?thesis using k q m c
      by (subst create_dir_all.simps) (cases r2; auto split: sum.split prod.split intro: keeps_trans)
  next
    case False
    with k m show ?thesis
      by (subst create_dir_all.simps) (auto simp: keeps_refl split: sum.split option.split)
  qed
qed

lemma keeps_entry:
  assumes "\<And>s d w r w'. rec s d w = Some (r, w') \<Longrightarrow> keeps w w'"
    and c: "copy_entry rec s d w = Some (r, w')"
  shows "keeps w w'"
proof -
  have link: "keeps w (snd (copy_symlink s d w))"
    using keeps_symlink [of w] keeps_refl by (auto simp: copy_symlink_def try_st_def split: sum.split)
  have perm: "keeps v (copy_permissions s d v)" for v
    using keeps_set_mode keeps_refl by (auto simp: copy_permissions_def split: sum.split)
  have regular: "keeps w (snd (copy_file_with_permissions s d w))"
    using keeps_fs_copy [of w s d] perm keeps_trans
    by (auto simp: copy_file_with_permissions_def try_st_def split: sum.split)
  from c show ?thesis
    using assms(1) link regular keeps_refl
    by (auto simp: copy_entry_def split: sum.splits node_kind.splits)
qed

lemma keeps_entries:
  assumes "\<And>s d w r w'. rec s d w = Some (r, w') \<Longrightarrow> keeps w w'"
  shows "copy_entries rec s d names w = Some (r, w') \<Longrightarrow> keeps w w'"
proof (induction names arbitrary: w)
  case (Cons n ns)
  then obtain r1 w1 where c: "copy_entry rec (s @ [Normal n]) (d @ [Normal n]) w = Some (r1, w1)"
    by (auto split: option.splits)
  have "keeps w w1" by (rule keeps_entry [OF assms c])
  with c Cons show ?case by (cases r1) (auto intro: keeps_trans)
qed (simp add: keeps_refl)

lemma phys_keeps: "phys w p \<Longrightarrow> keeps w w' \<Longrightarrow> phys w' p"
  by (erule phys_mono) (fastforce simp: keeps_def)

lemma copy_entries_stuck:
  assumes rec: "\<And>s d w r w'. rec s d w = Some (r, w') \<Longrightarrow> keeps w w'"
  shows "phys w s \<Longrightarrow> phys w d \<Longrightarrow> n \<in> set names \<Longrightarrow> entry w (s @ [Normal n]) = Some nd \<Longrightarrow> nd_kind nd = KLink t \<Longrightarrow>
    entry w (d @ [Normal n]) \<noteq> None \<Longrightarrow> copy_entries rec s d names w \<noteq> Some (Inr (), w')"
proof (induction names arbitrary: w nd)
  case (Cons m ms)
  show ?case
  proof
    assume run: "copy_entries rec s d (m # ms) w = Some (Inr (), w')"
    then obtain r1 w1 where c: "copy_entry rec (s @ [Normal m]) (d @ [Normal m]) w = Some (r1, w1)"
      by (auto split: option.splits)
    with run have later: "r1 = Inr ()" "copy_entries rec s d ms w1 = Some (Inr (), w')" by (cases r1; auto)+
    have k: "keeps w w1" by (rule keeps_entry [OF rec c])
    show False
    proof (cases "m = n")
      case True
      have "fst (copy_symlink (s @ [Normal n]) (d @ [Normal n]) w) \<noteq> Inr ()"
        using Cons.prems
        by (auto simp: copy_symlink_def read_link_def fs_symlink_def guarded_def node_of_name phys_resolve_name(1)
            entry_at_def split: option.split)
      with c later(1) True Cons.prems show False
        by (auto simp: copy_entry_def symlink_metadata_def node_of_name guarded_def split: option.splits)
    next
      case False
      from k Cons.prems(4,5) obtain nd' where nd': "entry w1 (s @ [Normal n]) = Some nd'" "nd_kind nd' = KLink t"
        unfolding keeps_def by fastforce
      from k Cons.prems(6) have "entry w1 (d @ [Normal n]) \<noteq> None" unfolding keeps_def by fastforce
      with Cons.IH [OF phys_keeps [OF Cons.prems(1) k] phys_keeps [OF Cons.prems(2) k] _ nd'] later(2) False Cons.prems(3)
      show False by simp
    qed
  qed
qed simp

lemma copy_permissions_keeps: "keeps w (copy_permissions s d w)"
  using keeps_set_mode keeps_refl by (auto simp: copy_permissions_def split: sum.split)

lemma copy_dir_recursive_keeps: "copy_dir_recursive fuel s d w = Some (r, w') \<Longrightarrow> keeps w w'"
proof (induction fuel arbitrary: s d w r w')
  case (Suc fuel)
  obtain r0 w1 where m: "create_missing d w = (r0, w1)" by (cases "create_missing d w")
  then have k: "keeps w w1"
    using keeps_create_dir_all [of w d] keeps_refl [of w] by (auto simp: create_missing_def split: if_splits)
  show ?case
  proof (cases "\<exists>names. r0 = Inr () \<and> read_dir s w1 = Inr names")
    case True
    then obtain names where n: "r0 = Inr ()" "read_dir s w1 = Inr names" by blast
    with Suc.prems m obtain r2 w2 where e: "copy_entries (copy_dir_recursive fuel) s d names w1 = Some (r2, w2)"
      by (auto split: option.splits)
    have "keeps w1 w2" by (rule keeps_entries [OF Suc.IH e])
    moreover have "w' = w2 \<or> w' = copy_permissions s d w2" using Suc.prems m n e by (cases r2) auto
    ultimately show ?thesis using k copy_permissions_keeps keeps_trans by blast
  next
    case False
    with Suc.prems m k show ?thesis by (auto split: sum.splits)
  qed
qed simp

section \<open>Properties\<close>

text \<open>
  C18. Copying a tree to a place that is missing or empty ends with the fuel the code is given here, and
  does what it should: nothing outside the destination changes, everything that appears there has a
  counterpart in the source, and when the copy succeeds the two trees have the same directories,
  links and files, with the same targets, contents and file modes. Any call may fail on the way; if
  none does, the copy succeeds.
\<close>

theorem copy_dir_recursive_correct:
  assumes "phys w s" "empty_target w d" "apart s d" "wf_below w s"
  shows "\<exists>r w'. copy_dir_recursive (copy_fuel w) s d w = Some (r, w') \<and> copied w s d r w' \<and>
    (faultless w \<longrightarrow> r = Inr ())"
proof -
  have "card (below w s) < copy_fuel w" using below_card [of w s] by (simp add: copy_fuel_def)
  from copy_dir_recursive_ends [OF assms this] copy_dir_recursive_succeeds [OF assms _ this] obtain r w' where
    c: "copy_dir_recursive (copy_fuel w) s d w = Some (r, w')" "faultless w \<longrightarrow> r = Inr ()" by force
  have "copied w s d r w'"
    by (rule copy_dir_recursive_copied [unfolded rec_ok_def, rule_format, OF assms c(1)])
  with c show ?thesis by blast
qed

text \<open>A tree with a directory, a file and a link, for the witnesses.\<close>

definition copy_demo :: world where
  "copy_demo =
     \<lparr>w_fs = map (\<lambda>(p, k). (RootDir # map Normal p, \<lparr>nd_kind = k, nd_mode = 493, nd_uid = 0, nd_gid = 0\<rparr>))
        [([''c''], KDir), ([''s''], KDir), ([''s'', ''bin''], KDir), ([''s'', ''bin'', ''pg''], KFile ''elf''),
         ([''s'', ''so''], KLink [Normal ''so.5''])],
      w_cwd = [RootDir], w_env = Map.empty, w_euid = 0, w_faults = (\<lambda>_. None), w_residue = (\<lambda>_. [])\<rparr>"

lemma fs_wf_subtree: "fs_wf w \<Longrightarrow> s \<noteq> [] \<Longrightarrow> wf_below w s"
  unfolding wf_below_def using fs_wfD [of w "s @ rel" for rel] by (auto simp: neq_Nil_conv)

lemma copy_demo_facts:
  "phys copy_demo [RootDir, Normal ''s'']" "phys copy_demo [RootDir, Normal ''c'']"
  "wf_below copy_demo [RootDir, Normal ''s'']"
  "empty_target copy_demo [RootDir, Normal ''c'', Normal ''v'']"
proof -
  have root: "phys copy_demo ([RootDir] @ [Normal n]) \<longleftrightarrow> (\<exists>nd. entry copy_demo ([RootDir] @ [Normal n]) = Some nd \<and>
    nd_kind nd = KDir)" for n by (simp only: phys_snoc) (simp add: phys_root)
  show s: "phys copy_demo [RootDir, Normal ''s'']" and c: "phys copy_demo [RootDir, Normal ''c'']"
    using root [of "''s''"] root [of "''c''"] by (simp_all add: entry_def copy_demo_def)
  have "fs_wf copy_demo" by (rule fs_check_wf) code_simp
  then show "wf_below copy_demo [RootDir, Normal ''s'']" by (rule fs_wf_subtree) simp
  have "entry_at copy_demo ([RootDir, Normal ''c'', Normal ''v''] @ rel) = None" for rel
    by (simp add: entry_at_def entry_def copy_demo_def)
  moreover from this [of "[]"] have "entry copy_demo [RootDir, Normal ''c'', Normal ''v''] = None"
    by (simp add: entry_at_def)
  ultimately show "empty_target copy_demo [RootDir, Normal ''c'', Normal ''v'']"
    using c by (auto simp: empty_target_def intro: exI [of _ "[RootDir, Normal ''c'']"])
qed

theorem copy_dir_recursive_correct_witness:
  "\<exists>w'. copy_dir_recursive (copy_fuel copy_demo) [RootDir, Normal ''s''] [RootDir, Normal ''c'', Normal ''v'']
      copy_demo = Some (Inr (), w') \<and>
     copied copy_demo [RootDir, Normal ''s''] [RootDir, Normal ''c'', Normal ''v''] (Inr ()) w'"
proof -
  have "faultless copy_demo" by (simp add: faultless_def copy_demo_def)
  with copy_dir_recursive_correct [OF copy_demo_facts(1,4) _ copy_demo_facts(3)] show ?thesis
    by (fastforce simp: apart_def)
qed

text \<open>
  A copy is not repeatable over an earlier attempt: where the source has a symbolic link and
  the destination already has an entry of that name, a copy never succeeds.
\<close>

theorem copy_stops_at_existing_link:
  assumes "phys w s" "phys w d" "entry w (s @ [Normal n]) = Some nd" "nd_kind nd = KLink t"
    and "entry w (d @ [Normal n]) \<noteq> None"
  shows "copy_dir_recursive fuel s d w \<noteq> Some (Inr (), w')"
proof
  assume run: "copy_dir_recursive fuel s d w = Some (Inr (), w')"
  then obtain k where fuel: "fuel = Suc k" by (cases fuel) auto
  obtain r0 w1 where m: "create_missing d w = (r0, w1)" by (cases "create_missing d w")
  then have w1: "w1 = w"
    using create_dir_all_existing [OF assms(2)] by (auto simp: create_missing_def split: if_splits)
  from run fuel m obtain names where n: "r0 = Inr ()" "read_dir s w1 = Inr names"
    by (auto split: sum.splits)
  with run fuel m obtain w2 where "copy_entries (copy_dir_recursive k) s d names w1 = Some (Inr (), w2)"
    by (auto split: sum.splits option.splits)
  moreover have "n \<in> set names" using read_dir_names(2) [OF assms(1)] n w1 assms(3) by auto
  then have "copy_entries (copy_dir_recursive k) s d names w \<noteq> Some (Inr (), w2)" for w2
    using copy_dir_recursive_keeps assms by (intro copy_entries_stuck) auto
  ultimately show False using w1 by blast
qed

definition stale_demo :: world where
  "stale_demo = put_entry [RootDir, Normal ''c'', Normal ''so'']
     \<lparr>nd_kind = KLink [Normal ''so.5''], nd_mode = 511, nd_uid = 0, nd_gid = 0\<rparr> copy_demo"

theorem copy_stops_at_existing_link_witness:
  "\<forall>w'. copy_dir_recursive 10 [RootDir, Normal ''s''] [RootDir, Normal ''c''] stale_demo \<noteq> Some (Inr (), w')"
proof (rule allI, rule copy_stops_at_existing_link)
  have none: "entry copy_demo [RootDir, Normal ''c'', Normal ''so''] = None" by (simp add: entry_def copy_demo_def)
  show "phys stale_demo [RootDir, Normal ''s'']" "phys stale_demo [RootDir, Normal ''c'']"
    unfolding stale_demo_def using copy_demo_facts none by (simp_all add: phys_put)
  show "entry stale_demo ([RootDir, Normal ''s''] @ [Normal ''so'']) =
      Some \<lparr>nd_kind = KLink [Normal ''so.5''], nd_mode = 493, nd_uid = 0, nd_gid = 0\<rparr>"
    by (simp add: stale_demo_def) (simp add: copy_demo_def entry_def)
  show "entry stale_demo ([RootDir, Normal ''c''] @ [Normal ''so'']) \<noteq> None" by (simp add: stale_demo_def)
qed simp

end
