(* ===== verification/Cache_Ops.thy ===== *)
theory Cache_Ops
  imports Cache_Copy Bootstrap_Env
begin

text \<open>
  The shared cache of PostgreSQL binaries: where it is (\<open>src/src/cache/config.rs\<close>), its lock
  files (\<open>src/src/cache/lock.rs\<close>), looking an entry up and filling one
  (\<open>src/src/cache/operations/lookup.rs\<close>, \<open>populate.rs\<close>). The version type and its parser come from
  the \<open>semver\<close> crate and are a parameter, as are the home directory of the \<open>dirs\<close> crate and the
  results \<open>flock\<close> gives one after the other.
\<close>

section \<open>Where the cache is\<close>

definition cache_subdir :: string where "cache_subdir = ''pg-embedded/binaries''"

definition resolve_from_env :: "world \<Rightarrow> pathbuf option" where
  "resolve_from_env w =
     (case env_var ''PG_BINARY_CACHE_DIR'' w of
        Inl _ \<Rightarrow> None
      | Inr raw \<Rightarrow> let trimmed = trim raw in if trimmed = [] then None else Some trimmed)"

definition resolve_from_xdg_cache :: "world \<Rightarrow> pathbuf option" where
  "resolve_from_xdg_cache w =
     (case env_var ''XDG_CACHE_HOME'' w of
        Inl _ \<Rightarrow> None
      | Inr raw \<Rightarrow> let trimmed = trim raw in
          if trimmed = [] then None else Some (join_path trimmed cache_subdir))"

definition resolve_from_home :: "(world \<Rightarrow> pathbuf option) \<Rightarrow> world \<Rightarrow> pathbuf option" where
  "resolve_from_home home_dir w =
     (case home_dir w of
        None \<Rightarrow> None
      | Some home \<Rightarrow>
          if utf8_valid home then Some (join_path (join_path home ''.cache'') cache_subdir) else None)"

text \<open>\<open>std::env::temp_dir\<close>.\<close>

definition temp_dir :: "world \<Rightarrow> pathbuf" where
  "temp_dir w = (case var_os ''TMPDIR'' w of Some d \<Rightarrow> d | None \<Rightarrow> ''/tmp'')"

definition resolve_cache_dir :: "(string \<Rightarrow> string) \<Rightarrow> (world \<Rightarrow> pathbuf option) \<Rightarrow> world \<Rightarrow> pathbuf" where
  "resolve_cache_dir lossy home_dir w =
     (case resolve_from_env w of
        Some dir \<Rightarrow> dir
      | None \<Rightarrow>
          (case resolve_from_xdg_cache w of
             Some dir \<Rightarrow> dir
           | None \<Rightarrow>
               (case resolve_from_home home_dir w of
                  Some dir \<Rightarrow> dir
                | None \<Rightarrow>
                    let temp_path = join_path (join_path (temp_dir w) ''pg-embedded'') ''binaries'' in
                    if utf8_valid temp_path then temp_path else lossy temp_path)))"

section \<open>Locks\<close>

datatype lock_type = Exclusive | Shared

record cache_lock =
  cl_file :: path
  cl_type :: lock_type

definition locks_subdir :: string where "locks_subdir = ''.locks''"

definition validate_version :: "string \<Rightarrow> io_kind + unit" where
  "validate_version version =
     (case components version of [Normal _] \<Rightarrow> Inr () | _ \<Rightarrow> Inl InvalidInput)"

definition lock_path :: "pathbuf \<Rightarrow> string \<Rightarrow> pathbuf" where
  "lock_path cache_dir version = join_path (join_path cache_dir locks_subdir) (version @ ''.lock'')"

text \<open>Opening for reading and writing, creating the file but not truncating it.\<close>

definition open_or_create :: "path \<Rightarrow> unit io" where
  "open_or_create p w =
     (case guarded w (SysOpen p) (resolve True w p) of
        Inl k \<Rightarrow> (Inl k, w)
      | Inr q \<Rightarrow>
          (case entry_at w q of
             None \<Rightarrow> (Inr (), put_entry q (new_node w (KFile []) 420) w)
           | Some n \<Rightarrow> if is_file_kind (nd_kind n) then (Inr (), w) else (Inl OtherIo, w)))"

text \<open>The loop around \<open>flock\<close>: the calls give their results in order, \<open>None\<close> for success; when they
  run out the process is still waiting.\<close>

fun flock_loop :: "io_kind option list \<Rightarrow> (io_kind + unit) option" where
  "flock_loop [] = None"
| "flock_loop (None # rs) = Some (Inr ())"
| "flock_loop (Some err # rs) = (if err \<noteq> Interrupted then Some (Inl err) else flock_loop rs)"

definition acquire ::
  "io_kind option list \<Rightarrow> pathbuf \<Rightarrow> string \<Rightarrow> lock_type \<Rightarrow> world \<Rightarrow> ((io_kind + cache_lock) \<times> world) option" where
  "acquire flock cache_dir version lock_type w =
     (case validate_version version of
        Inl k \<Rightarrow> Some (Inl k, w)
      | Inr _ \<Rightarrow>
          (case create_dir_all (components (join_path cache_dir locks_subdir)) w of
             (Inl k, w1) \<Rightarrow> Some (Inl k, w1)
           | (Inr _, w1) \<Rightarrow>
               (case open_or_create (components (lock_path cache_dir version)) w1 of
                  (Inl k, w2) \<Rightarrow> Some (Inl k, w2)
                | (Inr _, w2) \<Rightarrow>
                    map_option (\<lambda>r. (case r of
                        Inl k \<Rightarrow> Inl k
                      | Inr _ \<Rightarrow> Inr \<lparr>cl_file = components (lock_path cache_dir version), cl_type = lock_type\<rparr>, w2))
                      (flock_loop flock))))"

definition acquire_exclusive where "acquire_exclusive flock cache_dir version = acquire flock cache_dir version Exclusive"
definition acquire_shared where "acquire_shared flock cache_dir version = acquire flock cache_dir version Shared"

section \<open>Lookup\<close>

text \<open>Versions and requirements: parsing, printing and matching.\<close>

record 'v version_api =
  va_parse :: "string \<Rightarrow> 'v option"
  va_show :: "'v \<Rightarrow> string"
  va_matches :: "string \<Rightarrow> 'v \<Rightarrow> bool"
  va_parse_req :: "string \<Rightarrow> string option"

datatype cache_lookup = Hit pathbuf | Miss

definition completion_marker :: string where "completion_marker = ''.complete''"

definition is_cache_entry_complete :: "world \<Rightarrow> pathbuf \<Rightarrow> bool" where
  "is_cache_entry_complete w version_dir \<longleftrightarrow>
     path_exists w (components (join_path version_dir completion_marker)) \<and>
     path_is_dir w (components (join_path version_dir ''bin''))"

definition check_cache :: "pathbuf \<Rightarrow> string \<Rightarrow> world \<Rightarrow> cache_lookup" where
  "check_cache cache_dir version w =
     (let version_dir = join_path cache_dir version in
      if is_cache_entry_complete w version_dir then Hit version_dir else Miss)"

definition read_cache_directory :: "pathbuf \<Rightarrow> world \<Rightarrow> string list option" where
  "read_cache_directory cache_dir w =
     (case read_dir (components cache_dir) w of Inl _ \<Rightarrow> None | Inr names \<Rightarrow> Some names)"

definition try_parse_cache_entry ::
  "'v version_api \<Rightarrow> pathbuf \<Rightarrow> string \<Rightarrow> world \<Rightarrow> string \<Rightarrow> ('v \<times> pathbuf) option" where
  "try_parse_cache_entry VA cache_dir version_req w dir_name =
     (if \<not> utf8_valid dir_name \<or> prefix ''.'' dir_name then None
      else case va_parse VA dir_name of
        None \<Rightarrow> None
      | Some version \<Rightarrow>
          if \<not> va_matches VA version_req version then None
          else let path = join_path cache_dir dir_name in
            if \<not> utf8_valid path then None
            else if is_cache_entry_complete w path then Some (version, path) else None)"

text \<open>\<open>max_by\<close> keeps the last of the greatest.\<close>

fun max_version :: "('v::linorder \<times> pathbuf) list \<Rightarrow> ('v \<times> pathbuf) option" where
  "max_version [] = None"
| "max_version (e # es) = Some (fold (\<lambda>b a. if fst a \<le> fst b then b else a) es e)"

definition find_matching_cached_version ::
  "'v::linorder version_api \<Rightarrow> pathbuf \<Rightarrow> string \<Rightarrow> world \<Rightarrow> (string \<times> pathbuf) option" where
  "find_matching_cached_version VA cache_dir version_req w =
     (case read_cache_directory cache_dir w of
        None \<Rightarrow> None
      | Some names \<Rightarrow>
          (case max_version (List.map_filter (try_parse_cache_entry VA cache_dir version_req w) names) of
             None \<Rightarrow> None
           | Some (version, path) \<Rightarrow> Some (va_show VA version, path)))"

definition try_use_cache :: "pathbuf \<Rightarrow> string \<Rightarrow> pathbuf \<Rightarrow> world \<Rightarrow> (bool \<times> world) option" where
  "try_use_cache cache_dir version target w =
     (case check_cache cache_dir version w of
        Miss \<Rightarrow> Some (False, w)
      | Hit source_dir \<Rightarrow> map_option (\<lambda>(r, w1). (is_ok r, w1)) (copy_from_cache source_dir target w))"

section \<open>Filling an entry\<close>

definition write_completion_marker :: "pathbuf \<Rightarrow> world \<Rightarrow> (bootstrap_error + unit) \<times> world" where
  "write_completion_marker cache_path w =
     map_err_st (\<lambda>k. bootstrap_from_report (Ctx ''failed to write cache completion marker'' (IoErr k)))
       (write_file (components (join_path cache_path completion_marker)) [] w)"

definition populate_cache :: "pathbuf \<Rightarrow> pathbuf \<Rightarrow> string \<Rightarrow> world \<Rightarrow> ((bootstrap_error + unit) \<times> world) option" where
  "populate_cache source cache_dir version w =
     (let version_dir = join_path cache_dir version in
      case create_dir_all (components version_dir) w of
        (Inl k, w1) \<Rightarrow>
          Some (Inl (bootstrap_from_report (Ctx ''failed to create cache directory'' (IoErr k))), w1)
      | (Inr _, w1) \<Rightarrow>
          (case copy_dir_recursive (copy_fuel w1) (components source) (components version_dir) w1 of
             None \<Rightarrow> None
           | Some (Inl k, w2) \<Rightarrow>
               Some (Inl (bootstrap_from_report (Ctx ''failed to copy binaries to cache'' (IoErr k))), w2)
           | Some (Inr _, w2) \<Rightarrow> Some (write_completion_marker version_dir w2)))"

definition try_populate_cache :: "pathbuf \<Rightarrow> pathbuf \<Rightarrow> string \<Rightarrow> world \<Rightarrow> world option" where
  "try_populate_cache source cache_dir version w = map_option snd (populate_cache source cache_dir version w)"

section \<open>Lock paths\<close>

lemma split_on_last:
  "d \<notin> set t \<Longrightarrow> split_on d (s @ t) = butlast (split_on d s) @ [last (split_on d s) @ t]"
proof (induction s)
  case Nil
  then show ?case by (simp add: split_on_no_sep)
next
  case (Cons c s)
  then show ?case by (cases "split_on d s") (auto split: list.splits)
qed

lemma validate_version_ok: "validate_version v = Inr () \<longleftrightarrow> (\<exists>n. components v = [Normal n])"
  by (auto simp: validate_version_def split: list.splits component.splits)

lemma lock_suffix_not_abs: "components v = [Normal n] \<Longrightarrow> \<not> is_abs (v @ ''.lock'')"
  by (cases v) (auto simp: components_def is_abs_def)

lemma accepted_segments:
  assumes "components v = [Normal n]"
  shows "hd (split_on (CHR ''/'') v) \<noteq> ''.''"
    "filter (\<lambda>x. x \<noteq> [] \<and> x \<noteq> ''.'') (split_on (CHR ''/'') v) = [n]" "n \<noteq> ''..''"
proof -
  have na: "\<not> is_abs v" "hd (split_on (CHR ''/'') v) \<noteq> ''.''"
    using assms by (auto simp: components_def split: if_splits)
  then show "hd (split_on (CHR ''/'') v) \<noteq> ''.''" by simp
  from assms na have b: "body_comps (split_on (CHR ''/'') v) = [Normal n]" by (simp add: components_def)
  then obtain m where m: "filter (\<lambda>x. x \<noteq> [] \<and> x \<noteq> ''.'') (split_on (CHR ''/'') v) = [m]" "seg_comp m = Normal n"
    by (auto simp: body_comps_def)
  then have "m = n" "m \<noteq> ''..''" by (auto simp: seg_comp_def split: if_splits)
  with m show "filter (\<lambda>x. x \<noteq> [] \<and> x \<noteq> ''.'') (split_on (CHR ''/'') v) = [n]" "n \<noteq> ''..''" by simp_all
qed

lemma lock_file_components:
  assumes "components v = [Normal n]"
  shows "\<exists>names. names \<noteq> [] \<and> length names \<le> 2 \<and> components (v @ ''.lock'') = map Normal names \<and>
    hd (split_on (CHR ''/'') (v @ ''.lock'')) \<noteq> ''.'' \<and> (CHR ''/'' \<notin> set v \<longrightarrow> names = [v @ ''.lock''])"
proof -
  let ?segs = "split_on (CHR ''/'') v" and ?P = "\<lambda>x::string. x \<noteq> [] \<and> x \<noteq> ''.''"
  note acc = accepted_segments [OF assms]
  have ne: "?segs \<noteq> []" by simp
  have sp: "split_on (CHR ''/'') (v @ ''.lock'') = butlast ?segs @ [last ?segs @ ''.lock'']"
    by (rule split_on_last) simp
  let ?init = "filter ?P (butlast ?segs)" and ?l = "last ?segs @ ''.lock''"
  have fl: "?init @ filter ?P [last ?segs] = [n]"
    using acc(2) append_butlast_last_id [OF ne] by (metis filter_append)
  then have init: "?init = [] \<or> ?init = [n]" by (cases ?init) auto
  have l: "?l \<noteq> ''..''" "?P ?l" by (auto simp: append_eq_Cons_conv)
  have hd': "hd (split_on (CHR ''/'') (v @ ''.lock'')) \<noteq> ''.''"
  proof (cases "butlast ?segs")
    case Nil
    then show ?thesis using l(2) by (simp add: sp)
  next
    case (Cons a as)
    then have "hd ?segs = a" using append_butlast_last_id [OF ne] by (metis hd_append2 list.distinct(1) list.sel(1))
    with Cons acc(1) show ?thesis by (simp add: sp)
  qed
  have "components (v @ ''.lock'') = map Normal (?init @ [?l])"
  proof -
    have "filter ?P (split_on (CHR ''/'') (v @ ''.lock'')) = ?init @ [?l]" by (simp add: sp)
    then have "components (v @ ''.lock'') = map seg_comp (?init @ [?l])"
      using hd' lock_suffix_not_abs [OF assms] by (simp add: components_def body_comps_def)
    moreover have "seg_comp ?l = Normal ?l" "seg_comp n = Normal n" using l(1) acc(3) by (simp_all add: seg_comp_def)
    ultimately show ?thesis using init by (elim disjE) (simp_all only: map_append list.map append_Nil append_Cons)
  qed
  moreover have "?init @ [?l] = [v @ ''.lock'']" if "CHR ''/'' \<notin> set v"
    using that by (simp add: split_on_no_sep)
  moreover have "length (?init @ [?l]) \<le> 2" using init by auto
  ultimately show ?thesis using hd' by (intro exI [of _ "?init @ [?l]"]) simp
qed

text \<open>
  A version that is accepted keeps its lock file in the lock directory: below it there are one or
  two names and nothing that leads out. For a version without a separator it is one name; with a
  trailing separator, which is accepted too, the lock file moves into a directory of that name.
\<close>

theorem accepted_version_stays_in_locks:
  assumes "validate_version v = Inr ()"
  shows "(\<exists>names. names \<noteq> [] \<and> length names \<le> 2 \<and>
      components (lock_path cache_dir v) = components cache_dir @ Normal ''.locks'' # map Normal names \<and>
      (CHR ''/'' \<notin> set v \<longrightarrow> names = [v @ ''.lock''])) \<and>
    validate_version ''17.4.0/'' = Inr () \<and>
    components (lock_path ''c'' ''17.4.0/'') = [Normal ''c'', Normal ''.locks'', Normal ''17.4.0'', Normal ''.lock'']"
proof
  from assms obtain n where n: "components v = [Normal n]" by (auto simp: validate_version_ok)
  from lock_file_components [OF n] obtain names where names: "names \<noteq> []" "length names \<le> 2"
    "components (v @ ''.lock'') = map Normal names" "hd (split_on (CHR ''/'') (v @ ''.lock'')) \<noteq> ''.''"
    "CHR ''/'' \<notin> set v \<longrightarrow> names = [v @ ''.lock'']" by blast
  have "components (join_path cache_dir locks_subdir) = components cache_dir @ [Normal ''.locks'']"
    unfolding locks_subdir_def by (rule components_join_simple) (simp add: simple_name_def)
  then have "components (lock_path cache_dir v) = components cache_dir @ Normal ''.locks'' # map Normal names"
    using components_join [OF lock_suffix_not_abs [OF n] names(4)] names(3) by (simp add: lock_path_def locks_subdir_def)
  with names show "\<exists>names. names \<noteq> [] \<and> length names \<le> 2 \<and>
      components (lock_path cache_dir v) = components cache_dir @ Normal ''.locks'' # map Normal names \<and>
      (CHR ''/'' \<notin> set v \<longrightarrow> names = [v @ ''.lock''])" by blast
next
  show "validate_version ''17.4.0/'' = Inr () \<and>
    components (lock_path ''c'' ''17.4.0/'') = [Normal ''c'', Normal ''.locks'', Normal ''17.4.0'', Normal ''.lock'']"
    by (simp add: validate_version_def lock_path_def locks_subdir_def join_path_def components_def is_abs_def
        body_comps_def seg_comp_def)
qed

theorem accepted_version_stays_in_locks_witness:
  "components (lock_path ''/c'' ''17.4.0'') = [RootDir, Normal ''c'', Normal ''.locks'', Normal ''17.4.0.lock'']"
proof -
  have v: "validate_version ''17.4.0'' = Inr ()"
    by (simp add: validate_version_def components_def is_abs_def body_comps_def seg_comp_def)
  have c: "components ''/c'' = [RootDir, Normal ''c'']"
    by (simp add: components_def is_abs_def body_comps_def seg_comp_def)
  from accepted_version_stays_in_locks [OF v, of "''/c''"] show ?thesis by (auto simp: c)
qed

lemma flock_loop_interrupts: "flock_loop (replicate n (Some Interrupted) @ rs) = flock_loop rs"
  by (induction n) auto

lemma flock_loop_done: "r \<noteq> Some Interrupted \<Longrightarrow>
    flock_loop (r # rs) = Some (case r of None \<Rightarrow> Inr () | Some k \<Rightarrow> Inl k)"
  by (cases r) auto

text \<open>
  Waiting for a lock is only ended by a call of \<open>flock\<close> that is not interrupted: any number of
  interrupted calls before it makes no difference to the outcome, and as long as all calls are
  interrupted an accepted version's lock is neither taken nor refused by them.
\<close>

theorem acquire_retries_interrupts:
  "(r \<noteq> Some Interrupted \<longrightarrow>
     acquire (replicate n (Some Interrupted) @ r # rs) cache_dir v t w = acquire [r] cache_dir v t w \<and>
     (\<exists>res w'. acquire [r] cache_dir v t w = Some (res, w') \<and>
        (is_ok res \<longrightarrow> res = Inr \<lparr>cl_file = components (lock_path cache_dir v), cl_type = t\<rparr> \<and> r = None) \<and>
        (\<not> is_ok (validate_version v) \<longrightarrow> res = Inl InvalidInput \<and> w' = w))) \<and>
   (case acquire (replicate n (Some Interrupted)) cache_dir v t w of
      None \<Rightarrow> validate_version v = Inr () | Some (res, w') \<Rightarrow> \<not> is_ok res)"
proof (intro conjI impI)
  assume r: "r \<noteq> Some Interrupted"
  show "acquire (replicate n (Some Interrupted) @ r # rs) cache_dir v t w = acquire [r] cache_dir v t w"
    by (simp only: acquire_def flock_loop_interrupts flock_loop_done [OF r])
  show "\<exists>res w'. acquire [r] cache_dir v t w = Some (res, w') \<and>
        (is_ok res \<longrightarrow> res = Inr \<lparr>cl_file = components (lock_path cache_dir v), cl_type = t\<rparr> \<and> r = None) \<and>
        (\<not> is_ok (validate_version v) \<longrightarrow> res = Inl InvalidInput \<and> w' = w)"
    unfolding acquire_def flock_loop_done [OF r]
    by (auto simp: validate_version_def split: sum.split option.split list.split component.split prod.split)
next
  have "flock_loop (replicate n (Some Interrupted)) = None"
    using flock_loop_interrupts [of n "[]"] by simp
  then show "case acquire (replicate n (Some Interrupted)) cache_dir v t w of
      None \<Rightarrow> validate_version v = Inr () | Some (res, w') \<Rightarrow> \<not> is_ok res"
    by (auto simp: acquire_def split: sum.splits prod.splits)
qed

theorem acquire_retries_interrupts_witness:
  "acquire (replicate 3 (Some Interrupted) @ [None]) ''/c'' ''17.4.0'' Shared copy_demo =
     acquire [None] ''/c'' ''17.4.0'' Shared copy_demo"
  using acquire_retries_interrupts [of None 3 "[]"] by simp

section \<open>Lookup and population\<close>

lemma map_filter_set: "x \<in> set (List.map_filter f xs) \<longleftrightarrow> (\<exists>y\<in>set xs. f y = Some x)"
  by (force simp: List.map_filter_def)

lemma max_fold:
  fixes e :: "'v::linorder \<times> pathbuf"
  shows "fold (\<lambda>b a. if fst a \<le> fst b then b else a) es e \<in> set (e # es) \<and>
    (\<forall>x\<in>set (e # es). fst x \<le> fst (fold (\<lambda>b a. if fst a \<le> fst b then b else a) es e))"
proof (induction es arbitrary: e)
  case (Cons b es)
  from Cons.IH [of "if fst e \<le> fst b then b else e"] show ?case
    by (auto split: if_splits)
qed simp

lemma max_version_some:
  "max_version es = Some m \<Longrightarrow> m \<in> set es \<and> (\<forall>x\<in>set es. fst x \<le> fst m)"
  using max_fold by (cases es) (simp_all, blast)

lemma max_version_none: "max_version es = None \<longleftrightarrow> es = []"
  by (cases es) auto

definition usable_entry :: "'v version_api \<Rightarrow> pathbuf \<Rightarrow> string \<Rightarrow> world \<Rightarrow> string \<Rightarrow> 'v \<Rightarrow> bool" where
  "usable_entry VA cache_dir req w name v \<longleftrightarrow>
     utf8_valid name \<and> \<not> prefix ''.'' name \<and> va_parse VA name = Some v \<and> va_matches VA req v \<and>
     utf8_valid (join_path cache_dir name) \<and> is_cache_entry_complete w (join_path cache_dir name)"

lemma try_parse_cache_entry_Some:
  "try_parse_cache_entry VA c req w name = Some (v, p) \<longleftrightarrow> usable_entry VA c req w name v \<and> p = join_path c name"
  by (auto simp: try_parse_cache_entry_def usable_entry_def Let_def split: option.splits)

text \<open>
  C19. The search for a cached version returns a complete entry whose version matches, the highest of
  those that are there; a lookup under the version it names hits that entry, because versions print
  as they parse. It returns nothing only when the directory cannot be listed or has no such entry.
\<close>

theorem cache_lookup_best:
  fixes VA :: "'v::linorder version_api"
  assumes prints: "\<And>n v. va_parse VA n = Some v \<Longrightarrow> va_show VA v = n"
    and list: "read_dir (components cache_dir) w = Inr names"
  shows "case find_matching_cached_version VA cache_dir req w of
      None \<Rightarrow> \<forall>n\<in>set names. \<forall>v. \<not> usable_entry VA cache_dir req w n v
    | Some (s, p) \<Rightarrow> s \<in> set names \<and> p = join_path cache_dir s \<and> check_cache cache_dir s w = Hit p \<and>
        (\<exists>v. usable_entry VA cache_dir req w s v \<and>
           (\<forall>n\<in>set names. \<forall>v'. usable_entry VA cache_dir req w n v' \<longrightarrow> v' \<le> v))"
proof -
  let ?es = "List.map_filter (try_parse_cache_entry VA cache_dir req w) names"
  have mem: "(v, p) \<in> set ?es \<longleftrightarrow> (\<exists>n\<in>set names. usable_entry VA cache_dir req w n v \<and> p = join_path cache_dir n)"
    for v p by (simp add: map_filter_set try_parse_cache_entry_Some)
  have names: "read_cache_directory cache_dir w = Some names" using list by (simp add: read_cache_directory_def)
  show ?thesis
  proof (cases "max_version ?es")
    case None
    then have "?es = []" by (simp add: max_version_none)
    with mem have "\<not> usable_entry VA cache_dir req w n v" if "n \<in> set names" for n v
      using that by (metis empty_iff empty_set)
    with names None show ?thesis by (simp add: find_matching_cached_version_def)
  next
    case (Some m)
    obtain v p where m: "m = (v, p)" by (cases m)
    from max_version_some [OF Some] have best: "(v, p) \<in> set ?es" "\<forall>x\<in>set ?es. fst x \<le> v" by (auto simp: m)
    then obtain n where n: "n \<in> set names" "usable_entry VA cache_dir req w n v" "p = join_path cache_dir n"
      using mem by blast
    from n(2) have s: "va_show VA v = n" by (simp add: usable_entry_def prints)
    have top: "v' \<le> v" if "n' \<in> set names" "usable_entry VA cache_dir req w n' v'" for n' v'
      using best(2) mem that by (metis fst_conv)
    have "check_cache cache_dir n w = Hit p"
      using n by (simp add: check_cache_def usable_entry_def Let_def)
    with names Some m n s top show ?thesis
      by (auto simp: find_matching_cached_version_def)
  qed
qed

definition text_versions :: "string version_api" where
  "text_versions = \<lparr>va_parse = Some, va_show = (\<lambda>v. v), va_matches = (\<lambda>_ _. True), va_parse_req = Some\<rparr>"

definition entry_demo :: world where
  "entry_demo =
     \<lparr>w_fs = map (\<lambda>(p, k). (RootDir # map Normal p, \<lparr>nd_kind = k, nd_mode = 493, nd_uid = 0, nd_gid = 0\<rparr>))
        [([''c''], KDir), ([''c'', ''16''], KDir), ([''c'', ''17''], KDir), ([''c'', ''17'', ''.complete''], KFile []),
         ([''c'', ''17'', ''bin''], KDir)],
      w_cwd = [RootDir], w_env = Map.empty, w_euid = 0, w_faults = (\<lambda>_. None), w_residue = (\<lambda>_. [])\<rparr>"

lemma entry_demo_components:
  "components ''/c'' = [RootDir, Normal ''c'']"
  "components ''/c/17/.complete'' = [RootDir, Normal ''c'', Normal ''17'', Normal ''.complete'']"
  "components ''/c/17/bin'' = [RootDir, Normal ''c'', Normal ''17'', Normal ''bin'']"
  by (simp_all add: components_def is_abs_def body_comps_def seg_comp_def)

lemma entry_demo_list: "read_dir (components ''/c'') entry_demo = Inr [''16'', ''17'']"
  by (simp add: entry_demo_components read_dir_def guarded_def node_of_def resolve_def entry_at_def entry_def
      children_def List.map_filter_def entry_demo_def)

lemma entry_demo_entries:
  "entry entry_demo [RootDir, Normal ''c''] = Some root_node"
  "entry entry_demo [RootDir, Normal ''c'', Normal ''17''] = Some root_node"
  "entry entry_demo [RootDir, Normal ''c'', Normal ''17'', Normal ''.complete''] = Some (root_node\<lparr>nd_kind := KFile []\<rparr>)"
  "entry entry_demo [RootDir, Normal ''c'', Normal ''17'', Normal ''bin''] = Some root_node"
  "w_faults entry_demo = (\<lambda>_. None)" "nd_kind root_node = KDir"
  by (simp_all add: entry_demo_def entry_def root_node_def)

lemma entry_demo_usable: "usable_entry text_versions ''/c'' ''^17'' entry_demo ''17'' ''17''"
  by (simp add: usable_entry_def text_versions_def join_path_def is_abs_def byte_def is_cache_entry_complete_def
      completion_marker_def entry_demo_components path_exists_def path_is_dir_def metadata_def guarded_def
      node_of_def resolve_def entry_at_def entry_demo_entries)

theorem cache_lookup_best_witness:
  "\<exists>s p. find_matching_cached_version text_versions ''/c'' ''^17'' entry_demo = Some (s, p) \<and>
     check_cache ''/c'' s entry_demo = Hit p"
proof -
  have "\<And>n v. va_parse text_versions n = Some v \<Longrightarrow> va_show text_versions v = n" by (simp add: text_versions_def)
  from cache_lookup_best [OF this entry_demo_list, where req = "''^17''"] entry_demo_usable show ?thesis
    by (cases "find_matching_cached_version text_versions ''/c'' ''^17'' entry_demo") auto
qed

text \<open>Where an entry is to be filled: the cache and the source are real directories, apart from each
  other, and the entry is missing or empty.\<close>

definition fresh_entry :: "world \<Rightarrow> pathbuf \<Rightarrow> string \<Rightarrow> pathbuf \<Rightarrow> bool" where
  "fresh_entry w cache_dir version source \<longleftrightarrow>
     empty_target w (components (join_path cache_dir version)) \<and> phys w (components source) \<and>
     apart (components source) (components (join_path cache_dir version)) \<and> wf_below w (components source) \<and>
     entry w (components source @ [Normal completion_marker]) = None"

lemma marker_components:
  "components (join_path d completion_marker) = components d @ [Normal completion_marker]"
  "components (join_path d ''bin'') = components d @ [Normal ''bin'']"
  by (rule components_join_simple; simp add: simple_name_def completion_marker_def)+

lemma write_marker:
  assumes d: "phys w (components d)" and none: "entry w (components d @ [Normal completion_marker]) = None"
  shows "(\<exists>e. write_completion_marker d w = (Inl e, w)) \<or>
    write_completion_marker d w =
      (Inr (), put_entry (components d @ [Normal completion_marker]) (new_node w (KFile []) 420) w)"
  using phys_resolve_name(2) [OF d, of completion_marker] none d
  by (auto simp: write_completion_marker_def marker_components write_file_def guarded_def entry_at_def
      split: option.splits)

lemma copied_absent:
  assumes "copied w s d r w'" and "phys w s" and "entry w (s @ [c]) = None"
  shows "entry_at w' (d @ [c]) = None"
proof -
  have "entry_at w (s @ [c]) = None" using assms(2,3) by (simp add: entry_at_def)
  with assms(1) show ?thesis unfolding copied_def by blast
qed

text \<open>The three ways a population can go.\<close>

lemma populate_cases:
  assumes f: "fresh_entry w cache_dir version source"
    and run: "populate_cache source cache_dir version w = Some (r, w')"
    and s: "s = components source" and d: "d = components (join_path cache_dir version)"
  shows "(\<exists>e. r = Inl e \<and> w' = w) \<or> (\<exists>e k. r = Inl e \<and> copied w s d k w' \<and> phys w' d) \<or>
    (\<exists>w2. r = Inr () \<and> copied w s d (Inr ()) w2 \<and> phys w2 d \<and>
      w' = put_entry (d @ [Normal completion_marker]) (new_node w2 (KFile []) 420) w2)"
proof -
  have t: "empty_target w d" and ps: "phys w s" and ap: "apart s d" and wf: "wf_below w s"
    and m: "entry w (s @ [Normal completion_marker]) = None"
    using f by (simp_all add: fresh_entry_def s d)
  obtain r1 w1 where c: "create_dir_all d w = (r1, w1)" by (cases "create_dir_all d w")
  from create_dir_all_target [OF t c] consider k where "r1 = Inl k" "w1 = w"
    | "r1 = Inr ()" "phys w1 d" "empty_target w1 d" "w1 = w\<lparr>w_fs := w_fs w1\<rparr>" "\<And>q. q \<noteq> d \<Longrightarrow> entry w1 q = entry w q"
    by blast
  then show ?thesis
  proof cases
    case 1
    with run c show ?thesis by (auto simp: populate_cache_def d [symmetric])
  next
    case made: 2
    have same: "entry_at w1 (s @ rel) = entry_at w (s @ rel)" for rel
      using made(5) [of "s @ rel"] apart_below [OF ap, of rel] by (auto simp: entry_at_def)
    have s1: "phys w1 s"
      using ps by (rule phys_mono) (use made(5) ap in \<open>auto simp: apart_def\<close>)
    have wf1: "wf_below w1 s" using wf same by (simp add: wf_below_def)
    from copy_dir_recursive_ends [OF s1 made(3) ap wf1, of "copy_fuel w1"] below_card [of w1 s] obtain r2 w2 where
      cp: "copy_dir_recursive (copy_fuel w1) s d w1 = Some (r2, w2)" by (auto simp: copy_fuel_def)
    have "copied w1 s d r2 w2"
      by (rule copy_dir_recursive_copied [unfolded rec_ok_def, rule_format, OF s1 made(3) ap wf1 cp])
    with copied_start [OF made(4,5) ap] have copied: "copied w s d r2 w2" by blast
    have p2: "phys w2 d" by (rule phys_keeps [OF made(2) copy_dir_recursive_keeps [OF cp]])
    show ?thesis
    proof (cases r2)
      case (Inl k)
      with run c made(1) cp copied p2 show ?thesis by (auto simp: populate_cache_def s [symmetric] d [symmetric])
    next
      case (Inr u)
      have "entry_at w2 (d @ [Normal completion_marker]) = None"
        by (rule copied_absent [OF copied ps m])
      then have none: "entry w2 (d @ [Normal completion_marker]) = None"
        using p2 by (simp add: entry_at_def)
      have run': "write_completion_marker (join_path cache_dir version) w2 = (r, w')"
        using run c made(1) cp Inr by (simp add: populate_cache_def s [symmetric] d [symmetric])
      from write_marker [OF p2 [unfolded d] none [unfolded d]] run' copied p2 Inr show ?thesis
        by (auto simp: d [symmetric])
    qed
  qed
qed


lemma copy_demo_fresh:
  "components ''/s'' = [RootDir, Normal ''s'']" "components (join_path ''/c'' ''v'') = [RootDir, Normal ''c'', Normal ''v'']"
  "fresh_entry copy_demo ''/c'' ''v'' ''/s''"
proof -
  show s: "components ''/s'' = [RootDir, Normal ''s'']" and
    d: "components (join_path ''/c'' ''v'') = [RootDir, Normal ''c'', Normal ''v'']"
    by (simp_all add: components_def is_abs_def body_comps_def seg_comp_def join_path_def)
  have "entry copy_demo [RootDir, Normal ''s'', Normal ''.complete''] = None" by (simp add: entry_def copy_demo_def)
  with copy_demo_facts show "fresh_entry copy_demo ''/c'' ''v'' ''/s''"
    by (simp add: fresh_entry_def s d apart_def completion_marker_def)
qed

lemma populate_returns:
  assumes f: "fresh_entry w cache_dir version source"
  shows "\<exists>r w'. populate_cache source cache_dir version w = Some (r, w')"
proof -
  let ?s = "components source" and ?d = "components (join_path cache_dir version)"
  have t: "empty_target w ?d" and ps: "phys w ?s" and ap: "apart ?s ?d" and wf: "wf_below w ?s"
    using f by (simp_all add: fresh_entry_def)
  obtain r1 w1 where c: "create_dir_all ?d w = (r1, w1)" by (cases "create_dir_all ?d w")
  from create_dir_all_target [OF t c] consider k where "r1 = Inl k"
    | "r1 = Inr ()" "phys w1 ?d" "empty_target w1 ?d" "\<And>q. q \<noteq> ?d \<Longrightarrow> entry w1 q = entry w q" by blast
  then show ?thesis
  proof cases
    case made: 2
    have same: "entry_at w1 (?s @ rel) = entry_at w (?s @ rel)" for rel
      using made(4) [of "?s @ rel"] apart_below [OF ap, of rel] by (auto simp: entry_at_def)
    have s1: "phys w1 ?s"
      using ps by (rule phys_mono) (use made(4) ap in \<open>auto simp: apart_def\<close>)
    have "wf_below w1 ?s" using wf same by (simp add: wf_below_def)
    moreover have "card (below w1 ?s) < copy_fuel w1" using below_card [of w1 ?s] by (simp add: copy_fuel_def)
    ultimately have "copy_dir_recursive (copy_fuel w1) ?s ?d w1 \<noteq> None"
      by (rule copy_dir_recursive_ends [OF s1 made(3) ap])
    with c made(1) show ?thesis
      by (auto simp: populate_cache_def Let_def split: sum.split)
  qed (use c in \<open>auto simp: populate_cache_def\<close>)
qed


lemma populate_succeeds:
  assumes f: "fresh_entry w cache_dir version source" and fl: "faultless w"
  shows "\<exists>w'. populate_cache source cache_dir version w = Some (Inr (), w')"
proof -
  let ?s = "components source" and ?d = "components (join_path cache_dir version)"
  have t: "empty_target w ?d" and ps: "phys w ?s" and ap: "apart ?s ?d" and wf: "wf_below w ?s"
    and none: "entry w (?s @ [Normal completion_marker]) = None"
    using f by (simp_all add: fresh_entry_def)
  obtain w1 where c: "create_dir_all ?d w = (Inr (), w1)"
    using create_missing_succeeds(2) [OF fl t] by (metis prod.collapse)
  from create_dir_all_target [OF t c] have made: "phys w1 ?d" "empty_target w1 ?d" "w1 = w\<lparr>w_fs := w_fs w1\<rparr>"
    "\<And>q. q \<noteq> ?d \<Longrightarrow> entry w1 q = entry w q" by auto
  have fl1: "faultless w1"
    using fl made(3) unfolding faultless_def by (metis world.select_convs(5) world.surjective world.update_convs(1))
  have same: "entry_at w1 (?s @ rel) = entry_at w (?s @ rel)" for rel
    using made(4) [of "?s @ rel"] apart_below [OF ap, of rel] by (auto simp: entry_at_def)
  have s1: "phys w1 ?s"
    using ps by (rule phys_mono) (use made(4) ap in \<open>auto simp: apart_def\<close>)
  have wf1: "wf_below w1 ?s" using wf same by (simp add: wf_below_def)
  have "card (below w1 ?s) < copy_fuel w1" using below_card [of w1 ?s] by (simp add: copy_fuel_def)
  from copy_dir_recursive_succeeds [OF s1 made(2) ap wf1 fl1 this] obtain w2 where
    cp: "copy_dir_recursive (copy_fuel w1) ?s ?d w1 = Some (Inr (), w2)" by blast
  have cpd: "copied w1 ?s ?d (Inr ()) w2"
    by (rule copy_dir_recursive_copied [unfolded rec_ok_def, rule_format, OF s1 made(2) ap wf1 cp])
  have p2: "phys w2 ?d" by (rule phys_keeps [OF made(1) copy_dir_recursive_keeps [OF cp]])
  have "entry w1 (?s @ [Normal completion_marker]) = None"
    using same [of "[Normal completion_marker]"] none s1 by (simp add: entry_at_def)
  from copied_absent [OF cpd s1 this] have "entry w2 (?d @ [Normal completion_marker]) = None"
    using p2 by (simp add: entry_at_def)
  with copied_faultless [OF cpd fl1] phys_resolve_name(2) [OF p2, of completion_marker] p2 have
    "fst (write_completion_marker (join_path cache_dir version) w2) = Inr ()"
    by (simp add: write_completion_marker_def marker_components write_file_def entry_at_def)
  then obtain w3 where "write_completion_marker (join_path cache_dir version) w2 = (Inr (), w3)"
    by (metis prod.collapse)
  with c cp show ?thesis by (simp add: populate_cache_def Let_def del: copy_dir_recursive.simps)
qed

text \<open>
  C17. Filling an entry and copying it back is the identity: when no call fails, both succeed, and the
  installation that went through the cache has every directory, link and file that was put there; the
  only addition is the marker.
\<close>

theorem cache_round_trip:
  assumes f: "fresh_entry w cache_dir version source" and fl: "faultless w"
    and t: "empty_target w (components target)"
    and ap: "apart (components (join_path cache_dir version)) (components target)"
  shows "\<exists>w1 w2. populate_cache source cache_dir version w = Some (Inr (), w1) \<and>
    copy_from_cache (join_path cache_dir version) target w1 = Some (Inr (), w2) \<and>
    (\<forall>rel. rel \<noteq> [Normal completion_marker] \<longrightarrow>
       map_option shape (entry_at w2 (components target @ rel)) =
       map_option shape (entry_at w (components source @ rel)))"
proof -
  let ?s = "components source" and ?d = "components (join_path cache_dir version)" and ?t = "components target"
  let ?m = "?d @ [Normal completion_marker]"
  from populate_succeeds [OF f fl] obtain w1 where put: "populate_cache source cache_dir version w = Some (Inr (), w1)"
    by blast
  have wf: "wf_below w ?s" using f by (simp add: fresh_entry_def)
  from populate_cases [OF f put refl refl] obtain v where v: "copied w ?s ?d (Inr ()) v" "phys v ?d"
    "w1 = put_entry ?m (new_node v (KFile []) 420) v" by auto
  have shape1: "map_option shape (entry_at w1 (?d @ r)) = map_option shape (entry_at w (?s @ r))"
    if "r \<noteq> [Normal completion_marker]" for r
    using v that by (simp add: copied_def)
  have fl1: "faultless w1" using copied_faultless [OF v(1) fl] by (simp add: v(3) faultless_def)
  have out: "entry_at w1 q = entry_at w q" if "\<not> prefix ?d q" for q
    using v(1) that by (auto simp: v(3) copied_def)
  have p1: "phys w1 ?d"
    unfolding v(3) using v(2) by (rule phys_mono) (auto dest: prefix_length_le)
  have wf1: "wf_below w1 ?d"
    unfolding wf_below_def
  proof (intro allI impI)
    fix r c n assume e: "entry_at w1 (?d @ r @ [c]) = Some n"
    show "(\<exists>m. c = Normal m) \<and> (\<exists>k. entry_at w1 (?d @ r) = Some k \<and> nd_kind k = KDir)"
    proof (cases "r @ [c] = [Normal completion_marker]")
      case True
      with phys_entry [OF p1] p1 show ?thesis by (cases "?d = [RootDir]") (use f in \<open>auto simp: fresh_entry_def empty_target_def phys_def\<close>)
    next
      case False
      then have "map_option shape (entry_at w (?s @ r @ [c])) = Some (shape n)" using shape1 [of "r @ [c]"] e by simp
      then obtain n' where "entry_at w (?s @ r @ [c]) = Some n'" by (auto simp: map_option_eq_Some)
      from wf_belowD [OF wf this] obtain m k where c: "c = Normal m" and
        k: "entry_at w (?s @ r) = Some k" "nd_kind k = KDir" by blast
      have r: "r \<noteq> [Normal completion_marker]"
      proof
        assume "r = [Normal completion_marker]"
        with k f show False by (auto simp: fresh_entry_def entry_at_def split: if_splits)
      qed
      from shape1 [OF r] k obtain k' where "entry_at w1 (?d @ r) = Some k'" "nd_kind k' = KDir"
        by (auto simp: shape_def)
      with c show ?thesis by blast
    qed
  qed
  have t1: "empty_target w1 ?t"
  proof -
    from t obtain q b where q: "?t = q @ [Normal b]" "phys w q" by (auto simp: empty_target_def)
    have same: "entry w1 r = entry w r" if "prefix r ?t" "r \<noteq> [RootDir]" for r
      using out [of r] that ap by (auto simp: apart_def entry_at_def dest: prefix_order.trans)
    have "phys w1 p" if "phys w p" "prefix p ?t" for p
      using that(1) by (rule phys_mono) (use same that(2) prefix_order.trans in fastforce)
    moreover have "entry w1 ?t = entry w ?t" using same [of ?t] q by auto
    moreover have "entry_at w1 (?t @ rel) = entry_at w (?t @ rel)" for rel
      by (rule out) (use apart_below [OF apart_sym [OF ap], of rel] in simp)
    ultimately show ?thesis using t q by (auto simp: empty_target_def)
  qed
  obtain u where c: "create_dir_all ?t w1 = (Inr (), u)"
    using create_missing_succeeds(2) [OF fl1 t1] by (metis prod.collapse)
  from create_dir_all_target [OF t1 c] have u: "phys u ?t" "empty_target u ?t" "u = w1\<lparr>w_fs := w_fs u\<rparr>"
    "\<And>q. q \<noteq> ?t \<Longrightarrow> entry u q = entry w1 q" by auto
  have same: "entry_at u (?d @ r) = entry_at w1 (?d @ r)" for r
    using u(4) [of "?d @ r"] apart_below [OF ap, of r] by (auto simp: entry_at_def)
  have flu: "faultless u"
    using fl1 u(3) unfolding faultless_def by (metis world.select_convs(5) world.surjective world.update_convs(1))
  have pu: "phys u ?d" using p1 by (rule phys_mono) (use u(4) ap in \<open>auto simp: apart_def\<close>)
  have wfu: "wf_below u ?d" using wf1 same by (simp add: wf_below_def)
  from copy_dir_recursive_correct [OF pu u(2) ap wfu] flu obtain w2 where
    run: "copy_dir_recursive (copy_fuel u) ?d ?t u = Some (Inr (), w2)" and cp: "copied u ?d ?t (Inr ()) w2"
    by auto
  have "copy_from_cache (join_path cache_dir version) target w1 = Some (Inr (), w2)"
    using c run by (simp add: copy_from_cache_def del: copy_dir_recursive.simps)
  moreover have "map_option shape (entry_at w2 (?t @ rel)) = map_option shape (entry_at w (?s @ rel))"
    if "rel \<noteq> [Normal completion_marker]" for rel
    using cp same [of rel] shape1 [OF that] unfolding copied_def by simp
  ultimately show ?thesis using put by blast
qed

lemma copy_demo_target: "components ''/t'' = [RootDir, Normal ''t'']" "empty_target copy_demo [RootDir, Normal ''t'']"
proof -
  show "components ''/t'' = [RootDir, Normal ''t'']"
    by (simp add: components_def is_abs_def body_comps_def seg_comp_def)
  have "entry_at copy_demo ([RootDir, Normal ''t''] @ rel) = None" for rel
    by (simp add: entry_at_def entry_def copy_demo_def)
  moreover from this [of "[]"] have "entry copy_demo [RootDir, Normal ''t''] = None"
    by (simp add: entry_at_def)
  ultimately show "empty_target copy_demo [RootDir, Normal ''t'']"
    using phys_root by (auto simp: empty_target_def intro: exI [of _ "[RootDir]"])
qed

theorem cache_round_trip_witness:
  "\<exists>w1 w2. populate_cache ''/s'' ''/c'' ''v'' copy_demo = Some (Inr (), w1) \<and>
    copy_from_cache (join_path ''/c'' ''v'') ''/t'' w1 = Some (Inr (), w2) \<and>
    map_option nd_kind (entry_at w2 [RootDir, Normal ''t'', Normal ''bin'', Normal ''pg'']) = Some (KFile ''elf'')"
proof -
  have e: "entry_at copy_demo [RootDir, Normal ''s'', Normal ''bin'', Normal ''pg''] =
      Some (root_node\<lparr>nd_kind := KFile ''elf''\<rparr>)"
    by (simp add: entry_at_def entry_def copy_demo_def root_node_def)
  have fl: "faultless copy_demo" by (simp add: faultless_def copy_demo_def)
  have t: "empty_target copy_demo (components ''/t'')" by (simp add: copy_demo_target)
  have ap: "apart (components (join_path ''/c'' ''v'')) (components ''/t'')"
    by (simp add: copy_demo_target(1) copy_demo_fresh(2) apart_def)
  from cache_round_trip [OF copy_demo_fresh(3) fl t ap] obtain w1 w2 where
    r: "populate_cache ''/s'' ''/c'' ''v'' copy_demo = Some (Inr (), w1)"
    "copy_from_cache (join_path ''/c'' ''v'') ''/t'' w1 = Some (Inr (), w2)"
    "map_option shape (entry_at w2 (components ''/t'' @ [Normal ''bin'', Normal ''pg''])) =
     map_option shape (entry_at copy_demo (components ''/s'' @ [Normal ''bin'', Normal ''pg'']))" by blast
  from r(3) e have "map_option nd_kind (entry_at w2 [RootDir, Normal ''t'', Normal ''bin'', Normal ''pg'']) =
      Some (KFile ''elf'')"
    by (auto simp: copy_demo_target copy_demo_fresh shape_def)
  with r(1,2) show ?thesis by blast
qed

end
