(* ===== verification/Installation.thy ===== *)
theory Installation
  imports Cache_Ops Cleanup
begin

text \<open>
  The installation directory and the port of the server after the worker has run,
  \<open>src/src/cluster/installation.rs\<close>. Reading \<open>postmaster.pid\<close> is retried while the server writes it;
  the model reads the world of each attempt from a sequence of worlds. The asynchronous variants of
  the source are the same functions with a different sleep.
\<close>

section \<open>The installed directory\<close>

definition has_bin :: "world \<Rightarrow> pathbuf \<Rightarrow> bool" where
  "has_bin w p \<longleftrightarrow> path_is_dir w (components (join_path p ''bin''))"

definition candidate_version :: "'v version_api \<Rightarrow> pathbuf \<Rightarrow> 'v option" where
  "candidate_version VA p =
     (case file_name (components p) of
        None \<Rightarrow> None
      | Some n \<Rightarrow> if utf8_valid n then va_parse VA n else None)"

definition candidate_le :: "'v::linorder version_api \<Rightarrow> pathbuf \<Rightarrow> pathbuf \<Rightarrow> bool" where
  "candidate_le VA a b =
     (case (candidate_version VA a, candidate_version VA b) of
        (Some va, Some vb) \<Rightarrow> va \<le> vb
      | (Some _, None) \<Rightarrow> False
      | (None, Some _) \<Rightarrow> True
      | (None, None) \<Rightarrow> components a \<le> components b)"

text \<open>A stable sort by a comparison, as \<open>sort_by\<close>.\<close>

fun insert_by :: "('a \<Rightarrow> 'a \<Rightarrow> bool) \<Rightarrow> 'a \<Rightarrow> 'a list \<Rightarrow> 'a list" where
  "insert_by le x [] = [x]"
| "insert_by le x (y # ys) = (if le x y then x # y # ys else y # insert_by le x ys)"

definition sort_by :: "('a \<Rightarrow> 'a \<Rightarrow> bool) \<Rightarrow> 'a list \<Rightarrow> 'a list" where
  "sort_by le xs = foldr (insert_by le) xs []"

definition pop_last :: "'a list \<Rightarrow> 'a option" where
  "pop_last xs = (if xs = [] then None else Some (last xs))"

text \<open>The type of a directory entry is its own, a link to a directory is not one.\<close>

definition installed_candidate :: "pathbuf \<Rightarrow> world \<Rightarrow> string \<Rightarrow> pathbuf option" where
  "installed_candidate install_dir w name =
     (case symlink_metadata w (components (join_path install_dir name)) of
        Inl _ \<Rightarrow> None
      | Inr n \<Rightarrow>
          if nd_kind n \<noteq> KDir then None
          else let path = join_path install_dir name in if has_bin w path then Some path else None)"

definition resolve_installed_dir :: "'v::linorder version_api \<Rightarrow> settings \<Rightarrow> world \<Rightarrow> pathbuf option" where
  "resolve_installed_dir VA s w =
     (let install_dir = st_installation_dir s in
      if has_bin w install_dir then Some install_dir
      else if st_trust_installation_dir s then Some install_dir
      else case read_dir (components install_dir) w of
        Inl _ \<Rightarrow> None
      | Inr names \<Rightarrow>
          pop_last (sort_by (candidate_le VA) (List.map_filter (installed_candidate install_dir w) names)))"

definition refresh_worker_installation_dir ::
  "'v::linorder version_api \<Rightarrow> bootstrap_settings \<Rightarrow> world \<Rightarrow> bootstrap_settings" where
  "refresh_worker_installation_dir VA b w =
     (if bs_privileges b \<noteq> Root then b
      else case resolve_installed_dir VA (bs_settings b) w of
        None \<Rightarrow> b
      | Some installed_dir \<Rightarrow> b\<lparr>bs_settings := (bs_settings b)\<lparr>st_installation_dir := installed_dir\<rparr>\<rparr>)"

section \<open>The port\<close>

definition postmaster_port_attempts :: nat where "postmaster_port_attempts = 10"
definition postmaster_port_delay :: duration where "postmaster_port_delay = from_millis 100"

definition read_pid_file_contents :: "path \<Rightarrow> world \<Rightarrow> bootstrap_error + string option" where
  "read_pid_file_contents pid_path w =
     (case read_to_string pid_path w of
        Inr contents \<Rightarrow> Inr (Some contents)
      | Inl k \<Rightarrow> if k = NotFound then Inr None
                 else Inl (bootstrap_msg ''failed to read postmaster pid''))"

definition parse_port_from_pid_contents :: "string \<Rightarrow> nat option" where
  "parse_port_from_pid_contents contents =
     (case nth_opt (str_lines contents) 3 of
        None \<Rightarrow> None
      | Some port_line \<Rightarrow> parse_unsigned 65535 (trim port_line))"

definition read_postmaster_port :: "path \<Rightarrow> world \<Rightarrow> bootstrap_error + nat option" where
  "read_postmaster_port pid_path w =
     try_res (read_pid_file_contents pid_path w)
       (\<lambda>contents. Inr (case contents of None \<Rightarrow> None | Some c \<Rightarrow> parse_port_from_pid_contents c))"

text \<open>\<open>ws i\<close> is the world at attempt \<open>i\<close>; the argument counts the attempts that are left.\<close>

fun port_attempts :: "path \<Rightarrow> (nat \<Rightarrow> world) \<Rightarrow> nat \<Rightarrow> nat \<Rightarrow> bootstrap_error + nat option" where
  "port_attempts pid_path ws i 0 = Inr None"
| "port_attempts pid_path ws i (Suc left) =
     try_res (read_postmaster_port pid_path (ws i))
       (\<lambda>r. case r of Some port \<Rightarrow> Inr (Some port) | None \<Rightarrow> port_attempts pid_path ws (Suc i) left)"

definition read_postmaster_port_with_retry :: "path \<Rightarrow> (nat \<Rightarrow> world) \<Rightarrow> bootstrap_error + nat option" where
  "read_postmaster_port_with_retry pid_path ws = port_attempts pid_path ws 0 postmaster_port_attempts"

definition refresh_worker_port ::
  "(nat \<Rightarrow> world) \<Rightarrow> bootstrap_settings \<Rightarrow> (bootstrap_error + unit) \<times> bootstrap_settings" where
  "refresh_worker_port ws b =
     (if bs_privileges b \<noteq> Root then (Inr (), b)
      else let pid_path = components (join_path (st_data_dir (bs_settings b)) ''postmaster.pid'') in
        case read_postmaster_port_with_retry pid_path ws of
          Inl e \<Rightarrow> (Inl e, b)
        | Inr (Some port) \<Rightarrow> (Inr (), b\<lparr>bs_settings := (bs_settings b)\<lparr>st_port := port\<rparr>\<rparr>)
        | Inr None \<Rightarrow> (Inr (), b))"

section \<open>Lemmas\<close>

lemma insert_by_set [simp]: "set (insert_by le x ys) = insert x (set ys)"
  by (induction ys) auto

lemma sort_by_set: "set (sort_by le xs) = set xs"
  by (induction xs) (simp_all add: sort_by_def)

lemma insert_by_sorted:
  assumes tot: "\<And>a b. le a b \<or> le b a" and trans: "\<And>a b c. le a b \<Longrightarrow> le b c \<Longrightarrow> le a c"
  shows "sorted_wrt le ys \<Longrightarrow> sorted_wrt le (insert_by le x ys)"
  by (induction ys) (use tot in \<open>auto intro: trans\<close>)

lemma sort_by_sorted:
  assumes "\<And>a b. le a b \<or> le b a" and "\<And>a b c. le a b \<Longrightarrow> le b c \<Longrightarrow> le a c"
  shows "sorted_wrt le (sort_by le xs)"
  by (induction xs) (simp_all add: sort_by_def insert_by_sorted [OF assms])

lemma sorted_wrt_last: "sorted_wrt le xs \<Longrightarrow> x \<in> set xs \<Longrightarrow> x = last xs \<or> le x (last xs)"
  by (induction xs) auto

lemma candidate_le_total: "candidate_le VA a b \<or> candidate_le VA b a"
  by (auto simp: candidate_le_def split: option.split)

lemma candidate_le_trans: "candidate_le VA a b \<Longrightarrow> candidate_le VA b c \<Longrightarrow> candidate_le VA a c"
  by (auto simp: candidate_le_def split: option.splits)

definition is_candidate :: "pathbuf \<Rightarrow> world \<Rightarrow> pathbuf \<Rightarrow> bool" where
  "is_candidate install_dir w p \<longleftrightarrow> (case read_dir (components install_dir) w of
       Inl _ \<Rightarrow> False | Inr names \<Rightarrow> \<exists>n\<in>set names. installed_candidate install_dir w n = Some p)"

lemma resolve_installed_dir_search:
  assumes "\<not> has_bin w (st_installation_dir s)" "\<not> st_trust_installation_dir s"
  shows "case resolve_installed_dir VA s w of
      None \<Rightarrow> \<forall>p. \<not> is_candidate (st_installation_dir s) w p
    | Some p \<Rightarrow> is_candidate (st_installation_dir s) w p \<and>
        (\<forall>q. is_candidate (st_installation_dir s) w q \<longrightarrow> candidate_le VA q p)"
proof (cases "read_dir (components (st_installation_dir s)) w")
  case (Inl k)
  with assms show ?thesis by (simp add: resolve_installed_dir_def is_candidate_def)
next
  case (Inr names)
  let ?cs = "List.map_filter (installed_candidate (st_installation_dir s) w) names"
  have mem: "q \<in> set ?cs \<longleftrightarrow> is_candidate (st_installation_dir s) w q" for q
    by (simp add: is_candidate_def Inr map_filter_set)
  have r: "resolve_installed_dir VA s w = pop_last (sort_by (candidate_le VA) ?cs)"
    using assms Inr by (simp add: resolve_installed_dir_def)
  have srt: "sorted_wrt (candidate_le VA) (sort_by (candidate_le VA) ?cs)"
    by (rule sort_by_sorted [OF candidate_le_total candidate_le_trans])
  show ?thesis
  proof (cases "?cs = []")
    case True
    with mem show ?thesis by (simp add: r sort_by_def pop_last_def)
  next
    case False
    then have ne: "sort_by (candidate_le VA) ?cs \<noteq> []" by (metis set_empty sort_by_set)
    then have "last (sort_by (candidate_le VA) ?cs) \<in> set ?cs" by (metis last_in_set sort_by_set)
    moreover have "candidate_le VA q (last (sort_by (candidate_le VA) ?cs))" if "q \<in> set ?cs" for q
      using sorted_wrt_last [OF srt, of q] that candidate_le_total [of VA q q] by (auto simp: sort_by_set)
    ultimately show ?thesis using ne mem by (simp add: r pop_last_def)
  qed
qed

text \<open>
  The installed directory is the configured one when it holds \<open>bin\<close> or is trusted. Otherwise it is
  a subdirectory with \<open>bin\<close>: one named by a version if there is any, and then the highest; without
  versions the last by name. It is missing only if there is no such subdirectory.
\<close>

theorem installed_dir_best:
  fixes VA :: "'v::linorder version_api"
  shows "if has_bin w (st_installation_dir s) \<or> st_trust_installation_dir s
    then resolve_installed_dir VA s w = Some (st_installation_dir s)
    else case resolve_installed_dir VA s w of
      None \<Rightarrow> \<forall>p. \<not> is_candidate (st_installation_dir s) w p
    | Some p \<Rightarrow> is_candidate (st_installation_dir s) w p \<and>
        (\<forall>q. is_candidate (st_installation_dir s) w q \<longrightarrow>
          (case (candidate_version VA q, candidate_version VA p) of
             (Some vq, vp) \<Rightarrow> \<exists>v. vp = Some v \<and> vq \<le> v
           | (None, None) \<Rightarrow> components q \<le> components p
           | (None, Some _) \<Rightarrow> True))"
proof (cases "has_bin w (st_installation_dir s) \<or> st_trust_installation_dir s")
  case True
  then show ?thesis by (auto simp: resolve_installed_dir_def Let_def)
next
  case False
  with resolve_installed_dir_search [of w s VA] show ?thesis
    by (auto simp: candidate_le_def split: option.splits)
qed

definition dir_settings :: "pathbuf \<Rightarrow> settings" where
  "dir_settings d = demo_settings\<lparr>st_installation_dir := d\<rparr>"

lemma dir_demo: "\<not> has_bin entry_demo ''/c''" "is_candidate ''/c'' entry_demo ''/c/17''"
proof -
  have c: "components ''/c/bin'' = [RootDir, Normal ''c'', Normal ''bin'']"
    "components ''/c/17'' = [RootDir, Normal ''c'', Normal ''17'']"
    by (simp_all add: components_def is_abs_def body_comps_def seg_comp_def)
  have none: "entry entry_demo [RootDir, Normal ''c'', Normal ''bin''] = None" by (simp add: entry_def entry_demo_def)
  show "\<not> has_bin entry_demo ''/c''"
    by (simp add: has_bin_def join_path_def is_abs_def c path_is_dir_def metadata_def guarded_def node_of_def
        resolve_def entry_at_def entry_demo_entries none)
  have "installed_candidate ''/c'' entry_demo ''17'' = Some ''/c/17''"
    by (simp add: installed_candidate_def has_bin_def join_path_def is_abs_def c entry_demo_components path_is_dir_def
        metadata_def symlink_metadata_def guarded_def node_of_def resolve_def entry_at_def entry_demo_entries)
  with entry_demo_list show "is_candidate ''/c'' entry_demo ''/c/17''" by (simp add: is_candidate_def)
qed

theorem installed_dir_best_witness:
  "\<exists>p. resolve_installed_dir text_versions (dir_settings ''/c'') entry_demo = Some p \<and>
     is_candidate ''/c'' entry_demo p"
proof -
  have "\<not> (has_bin entry_demo (st_installation_dir (dir_settings ''/c'')) \<or>
      st_trust_installation_dir (dir_settings ''/c''))"
    using dir_demo by (simp add: dir_settings_def demo_settings_def)
  with installed_dir_best [of entry_demo "dir_settings ''/c''" text_versions] dir_demo show ?thesis
    by (auto simp: dir_settings_def split: option.splits)
qed

section \<open>The port\<close>

lemma pid_file_line:
  assumes "CHR 0x0A \<notin> set pid" "CHR 0x0A \<notin> set dir" "CHR 0x0A \<notin> set start" and "port \<le> 65535"
  shows "parse_port_from_pid_contents
      (pid @ CHR 0x0A # dir @ CHR 0x0A # start @ CHR 0x0A # show_nat port @ CHR 0x0A # rest) = Some port \<and>
    parse_port_from_pid_contents (pid @ CHR 0x0A # dir @ CHR 0x0A # start) = None"
proof
  let ?nl = "CHR 0x0A"
  have digits: "?nl \<notin> set (show_nat port)" "CHR 0x0D \<notin> set (show_nat port)"
    using show_nat_digit [of _ port] by (fastforce simp: byte_def)+
  then have last: "last (show_nat port) \<noteq> CHR 0x0D" by (metis last_in_set show_nat_nonempty)
  obtain R l where R: "split_on ?nl rest = R @ [l]" by (metis append_butlast_last_id split_on_nonempty)
  have "split_on ?nl (pid @ ?nl # dir @ ?nl # start @ ?nl # show_nat port @ ?nl # rest) =
      [pid, dir, start, show_nat port] @ R @ [l]"
    using assms digits R by (simp add: split_on_append)
  then have "nth_opt (str_lines (pid @ ?nl # dir @ ?nl # start @ ?nl # show_nat port @ ?nl # rest)) 3 =
      Some (show_nat port)"
    using last by (simp add: str_lines_def nth_opt_def chomp_cr_def nth_append)
  then show "parse_port_from_pid_contents
      (pid @ ?nl # dir @ ?nl # start @ ?nl # show_nat port @ ?nl # rest) = Some port"
    using assms(4) by (simp add: parse_port_from_pid_contents_def parse_unsigned_show)
  have "split_on ?nl (pid @ ?nl # dir @ ?nl # start) = [pid, dir, start]"
    using assms by (simp add: split_on_append split_on_no_sep)
  then show "parse_port_from_pid_contents (pid @ ?nl # dir @ ?nl # start) = None"
    by (simp add: parse_port_from_pid_contents_def str_lines_def nth_opt_def)
qed

text \<open>
  The port of a pid file is read back: whatever stands on the first three lines and after the
  fourth, a port printed on the fourth is what is parsed. With fewer lines there is none.
\<close>

theorem pid_file_round_trip:
  assumes "CHR 0x0A \<notin> set pid" "CHR 0x0A \<notin> set dir" "CHR 0x0A \<notin> set start" and "port \<le> 65535"
  shows "parse_port_from_pid_contents
      (pid @ CHR 0x0A # dir @ CHR 0x0A # start @ CHR 0x0A # show_nat port @ CHR 0x0A # rest) = Some port \<and>
    parse_port_from_pid_contents (pid @ CHR 0x0A # dir @ CHR 0x0A # start) = None"
  using pid_file_line [OF assms] .

theorem pid_file_round_trip_witness:
  "parse_port_from_pid_contents
     (''12345'' @ CHR 0x0A # ''/d'' @ CHR 0x0A # ''1700000000'' @ CHR 0x0A # show_nat 54321 @ CHR 0x0A # []) = Some 54321"
  using pid_file_round_trip [of "''12345''" "''/d''" "''1700000000''" 54321 "[]"] by simp

lemma port_attempts_cases:
  "case port_attempts p ws i left of
     Inl e \<Rightarrow> \<exists>k<left. read_postmaster_port p (ws (i + k)) = Inl e \<and> (\<forall>j<k. read_postmaster_port p (ws (i + j)) = Inr None)
   | Inr (Some port) \<Rightarrow> \<exists>k<left. read_postmaster_port p (ws (i + k)) = Inr (Some port) \<and>
       (\<forall>j<k. read_postmaster_port p (ws (i + j)) = Inr None)
   | Inr None \<Rightarrow> \<forall>k<left. read_postmaster_port p (ws (i + k)) = Inr None"
proof (induction left arbitrary: i)
  case (Suc left)
  show ?case
  proof (cases "read_postmaster_port p (ws i)")
    case (Inl e)
    then show ?thesis by (auto intro!: exI [of _ 0])
  next
    case (Inr r)
    show ?thesis
    proof (cases r)
      case None
      have shift: "(\<forall>j<Suc k. read_postmaster_port p (ws (i + j)) = Inr None) \<longleftrightarrow>
          (\<forall>j<k. read_postmaster_port p (ws (Suc i + j)) = Inr None)" for k
        using None Inr by (auto simp: All_less_Suc2)
      from Suc.IH [of "Suc i"] None Inr shift show ?thesis
        by (auto split: sum.splits option.splits simp: All_less_Suc2 Ex_less_Suc2)
    next
      case (Some port)
      with Inr show ?thesis by (auto intro!: exI [of _ 0])
    qed
  qed
qed simp

text \<open>
  Reading the port ends with the first attempt that gives a port or an error; only when none of the
  ten does, the configured port stays. An ordinary user's settings are never touched, and nothing but
  the port is.
\<close>

theorem port_refresh:
  assumes run: "refresh_worker_port ws b = (r, b')"
    and pid: "pid = components (join_path (st_data_dir (bs_settings b)) ''postmaster.pid'')"
  shows "(bs_privileges b \<noteq> Root \<longrightarrow> r = Inr () \<and> b' = b) \<and>
    b' = b\<lparr>bs_settings := (bs_settings b)\<lparr>st_port := st_port (bs_settings b')\<rparr>\<rparr> \<and>
    (bs_privileges b = Root \<longrightarrow>
      (case r of
         Inl e \<Rightarrow> b' = b \<and> (\<exists>k<10. read_postmaster_port pid (ws k) = Inl e \<and>
           (\<forall>j<k. read_postmaster_port pid (ws j) = Inr None))
       | Inr _ \<Rightarrow> (\<exists>k<10. read_postmaster_port pid (ws k) = Inr (Some (st_port (bs_settings b'))) \<and>
             (\<forall>j<k. read_postmaster_port pid (ws j) = Inr None)) \<or>
           (b' = b \<and> (\<forall>k<10. read_postmaster_port pid (ws k) = Inr None))))"
  using run port_attempts_cases [where p = pid and ws = ws and i = 0 and left = 10]
  by (auto simp: refresh_worker_port_def pid [symmetric] read_postmaster_port_with_retry_def
      postmaster_port_attempts_def Let_def split: if_splits sum.splits option.splits)

definition pid_demo :: "nat \<Rightarrow> world" where
  "pid_demo i = entry_demo\<lparr>w_fs := (if i = 0 then [] else
     [([RootDir, Normal ''d''], root_node), ([RootDir, Normal ''d'', Normal ''postmaster.pid''],
        root_node\<lparr>nd_kind := KFile (''1'' @ CHR 0x0A # ''/d'' @ CHR 0x0A # ''2'' @ CHR 0x0A # show_nat 54321 @ CHR 0x0A # [])\<rparr>)])\<rparr>"

definition pid_bootstrap :: bootstrap_settings where
  "pid_bootstrap = \<lparr>bs_privileges = Root, bs_execution_mode = Subprocess, bs_settings = demo_settings,
     bs_environment = from_components \<lparr>xd_home = ''/i'', xd_cache = ''/i/cache'', xd_runtime = ''/i/run''\<rparr> ''/i/.pgpass''
       \<lparr>tz_dir = None, tz_zone = ''UTC''\<rparr>,
     bs_worker_binary = Some ''/w'', bs_setup_timeout = from_secs 180, bs_start_timeout = from_secs 60,
     bs_shutdown_timeout = from_secs 15, bs_cleanup_mode = DataOnly, bs_binary_cache_dir = None\<rparr>"

lemma pid_demo_reads:
  "read_postmaster_port [RootDir, Normal ''d'', Normal ''postmaster.pid''] (pid_demo 0) = Inr None"
  "i > 0 \<Longrightarrow> read_postmaster_port [RootDir, Normal ''d'', Normal ''postmaster.pid''] (pid_demo i) = Inr (Some 54321)"
proof -
  show "read_postmaster_port [RootDir, Normal ''d'', Normal ''postmaster.pid''] (pid_demo 0) = Inr None"
    by (simp add: read_postmaster_port_def read_pid_file_contents_def read_to_string_def guarded_def node_of_def
        resolve_def entry_def pid_demo_def entry_demo_def)
  let ?c = "''1'' @ CHR 0x0A # ''/d'' @ CHR 0x0A # ''2'' @ CHR 0x0A # show_nat 54321 @ CHR 0x0A # []"
  have u: "utf8_valid ?c"
    by (rule utf8_valid_ascii) (auto simp: byte_def dest!: show_nat_digit)
  assume "i > 0"
  then have "read_to_string [RootDir, Normal ''d'', Normal ''postmaster.pid''] (pid_demo i) = Inr ?c"
    using u by (simp add: read_to_string_def guarded_def node_of_def resolve_def entry_def entry_at_def pid_demo_def
        root_node_def entry_demo_def del: utf8_valid.simps)
  then show "read_postmaster_port [RootDir, Normal ''d'', Normal ''postmaster.pid''] (pid_demo i) = Inr (Some 54321)"
    using pid_file_line [of "''1''" "''/d''" "''2''" 54321 "[]"]
    by (simp add: read_postmaster_port_def read_pid_file_contents_def)
qed

theorem port_refresh_witness:
  "st_port (bs_settings (snd (refresh_worker_port pid_demo pid_bootstrap))) = 54321"
proof -
  have pid: "[RootDir, Normal ''d'', Normal ''postmaster.pid''] =
      components (join_path (st_data_dir (bs_settings pid_bootstrap)) ''postmaster.pid'')"
    by (simp add: pid_bootstrap_def demo_settings_def components_def join_path_def is_abs_def body_comps_def seg_comp_def)
  obtain r b where run: "refresh_worker_port pid_demo pid_bootstrap = (r, b)"
    by (cases "refresh_worker_port pid_demo pid_bootstrap")
  note p = port_refresh [OF run pid]
  have reads: "read_postmaster_port [RootDir, Normal ''d'', Normal ''postmaster.pid''] (pid_demo k) =
      (if k = 0 then Inr None else Inr (Some 54321))" for k
    using pid_demo_reads by simp
  have root: "bs_privileges pid_bootstrap = Root" by (simp add: pid_bootstrap_def)
  from p root show ?thesis
    by (auto simp: run reads split: sum.splits if_splits) (drule spec [of _ 1], simp)
qed

end
