(* ===== verification/Cache_Use.thy ===== *)
theory Cache_Use
  imports Installation
begin

text \<open>
  Using and filling the shared cache around a cluster's setup,
  \<open>src/src/cluster/cache_integration.rs\<close>, and the protocol that processes follow with it: a reader
  takes the shared lock of an entry and looks again before it copies, a writer takes the exclusive
  lock and looks again before it fills the entry. The second part is a transition system of any number of
  processes at one entry, with the locks of \<open>flock\<close> and with processes that die.
\<close>

section \<open>Operations\<close>

definition set_exact_version :: "'v version_api \<Rightarrow> settings \<Rightarrow> string \<Rightarrow> settings" where
  "set_exact_version VA s version =
     (case va_parse_req VA (CHR ''='' # version) of
        Some exact_req \<Rightarrow> s\<lparr>st_version := exact_req\<rparr>
      | None \<Rightarrow> s)"

text \<open>\<open>None\<close> for a warning, otherwise the target directory with the changed settings.\<close>

definition copy_cached_binaries ::
  "pathbuf \<Rightarrow> string \<Rightarrow> settings \<Rightarrow> world \<Rightarrow> ((pathbuf \<times> settings) option \<times> world) option" where
  "copy_cached_binaries source_dir version s w =
     (if \<not> utf8_valid (st_installation_dir s) then Some (None, w)
      else let target_version_dir = join_path (st_installation_dir s) version in
        map_option (\<lambda>(r, w1). (case r of
            Inl _ \<Rightarrow> None
          | Inr _ \<Rightarrow> Some (target_version_dir,
              s\<lparr>st_installation_dir := target_version_dir, st_trust_installation_dir := True\<rparr>), w1))
          (copy_from_cache source_dir target_version_dir w))"

definition apply_cached_binaries ::
  "'v version_api \<Rightarrow> pathbuf \<Rightarrow> string \<Rightarrow> bootstrap_settings \<Rightarrow> world \<Rightarrow> ((bool \<times> bootstrap_settings) \<times> world) option" where
  "apply_cached_binaries VA source_dir version b w =
     map_option (\<lambda>(r, w1). (case r of
         None \<Rightarrow> (False, b)
       | Some (_, s) \<Rightarrow> (True, b\<lparr>bs_settings := set_exact_version VA s version\<rparr>), w1))
       (copy_cached_binaries source_dir version (bs_settings b) w)"

definition try_use_binary_cache ::
  "'v::linorder version_api \<Rightarrow> io_kind option list \<Rightarrow> pathbuf \<Rightarrow> string \<Rightarrow> bootstrap_settings \<Rightarrow> world \<Rightarrow>
     ((bool \<times> bootstrap_settings) \<times> world) option" where
  "try_use_binary_cache VA flock cache_dir version_req b w =
     (case find_matching_cached_version VA cache_dir version_req w of
        None \<Rightarrow> Some ((False, b), w)
      | Some (version, _) \<Rightarrow>
          (case acquire_shared flock cache_dir version w of
             None \<Rightarrow> None
           | Some (Inl _, w1) \<Rightarrow> Some ((False, b), w1)
           | Some (Inr _, w1) \<Rightarrow>
               (case check_cache cache_dir version w1 of
                  Hit source_dir \<Rightarrow> apply_cached_binaries VA source_dir version b w1
                | Miss \<Rightarrow> Some ((False, b), w1))))"

definition extract_version_from_path :: "'v version_api \<Rightarrow> pathbuf \<Rightarrow> string option" where
  "extract_version_from_path VA path =
     (case file_name (components path) of
        None \<Rightarrow> None
      | Some name \<Rightarrow> if utf8_valid name \<and> va_parse VA name \<noteq> None then Some name else None)"

definition try_populate_binary_cache ::
  "'v::linorder version_api \<Rightarrow> io_kind option list \<Rightarrow> pathbuf \<Rightarrow> settings \<Rightarrow> world \<Rightarrow> world option" where
  "try_populate_binary_cache VA flock cache_dir s w =
     (case resolve_installed_dir VA s w of
        None \<Rightarrow> Some w
      | Some installed_dir \<Rightarrow>
          (case extract_version_from_path VA installed_dir of
             None \<Rightarrow> Some w
           | Some version \<Rightarrow>
               if check_cache cache_dir version w \<noteq> Miss then Some w
               else (case acquire_exclusive flock cache_dir version w of
                  None \<Rightarrow> None
                | Some (Inl _, w1) \<Rightarrow> Some w1
                | Some (Inr _, w1) \<Rightarrow>
                    if check_cache cache_dir version w1 \<noteq> Miss then Some w1
                    else if \<not> utf8_valid installed_dir then Some w1
                    else map_option snd (populate_cache installed_dir cache_dir version w1))))"

section \<open>Effect on the settings\<close>

lemma sum_unit_case: "(case r of Inl e \<Rightarrow> f e | Inr u \<Rightarrow> g u) = (if is_ok r then g (projr r) else f (projl r))"
  by (cases r) auto

lemma copy_cached_binaries_effect:
  "copy_cached_binaries src v s w = Some (r, w') \<Longrightarrow>
     r = None \<or> r = Some (join_path (st_installation_dir s) v,
       s\<lparr>st_installation_dir := join_path (st_installation_dir s) v, st_trust_installation_dir := True\<rparr>)"
  by (auto simp: copy_cached_binaries_def Let_def sum_unit_case split: if_splits)

text \<open>
  Using the cache is all or nothing for the settings. If it does not work out, for whatever reason,
  the bootstrap settings are what they were. If it does, the installation directory is the version's
  directory in the old one, it is trusted, the requirement is pinned to the version found, and
  nothing else changed; the version is one the search found and its entry was complete under the lock.
\<close>

theorem use_cache_all_or_nothing:
  assumes run: "try_use_binary_cache VA flock cache_dir req b w = Some ((used, b'), w')"
  shows "(\<not> used \<longrightarrow> b' = b) \<and>
    (used \<longrightarrow> (\<exists>version p w1. find_matching_cached_version VA cache_dir req w = Some (version, p) \<and>
       acquire_shared flock cache_dir version w = Some (Inr \<lparr>cl_file = components (lock_path cache_dir version),
         cl_type = Shared\<rparr>, w1) \<and>
       check_cache cache_dir version w1 = Hit (join_path cache_dir version) \<and>
       bs_settings b' = set_exact_version VA ((bs_settings b)
         \<lparr>st_installation_dir := join_path (st_installation_dir (bs_settings b)) version,
          st_trust_installation_dir := True\<rparr>) version \<and>
       b' = b\<lparr>bs_settings := bs_settings b'\<rparr> \<and>
       st_data_dir (bs_settings b') = st_data_dir (bs_settings b) \<and>
       st_password_file (bs_settings b') = st_password_file (bs_settings b)))"
proof (cases "find_matching_cached_version VA cache_dir req w")
  case None
  with run show ?thesis by (simp add: try_use_binary_cache_def)
next
  case (Some vp)
  obtain version p where vp: "vp = (version, p)" by (cases vp)
  obtain r w1 where a: "acquire_shared flock cache_dir version w = Some (r, w1)"
    using run Some vp by (auto simp: try_use_binary_cache_def split: option.splits)
  show ?thesis
  proof (cases r)
    case (Inl e)
    with run Some vp a show ?thesis by (simp add: try_use_binary_cache_def)
  next
    case (Inr l)
    have l: "l = \<lparr>cl_file = components (lock_path cache_dir version), cl_type = Shared\<rparr>"
      using a Inr
      by (auto simp: acquire_shared_def acquire_def sum_unit_case split: if_splits prod.splits)
    show ?thesis
    proof (cases "check_cache cache_dir version w1")
      case (Hit d)
      then have d: "d = join_path cache_dir version" by (auto simp: check_cache_def Let_def split: if_splits)
      from run Some vp a Inr Hit obtain c where c: "copy_cached_binaries d version (bs_settings b) w1 = Some (c, w')"
        and b': "(used, b') = (case c of None \<Rightarrow> (False, b)
          | Some (_, s) \<Rightarrow> (True, b\<lparr>bs_settings := set_exact_version VA s version\<rparr>))"
        by (auto simp: try_use_binary_cache_def apply_cached_binaries_def)
      have exact: "st_data_dir (set_exact_version VA s version) = st_data_dir s"
        "st_password_file (set_exact_version VA s version) = st_password_file s" for s
        by (simp_all add: set_exact_version_def split: option.split)
      from copy_cached_binaries_effect [OF c] b' Some vp a Inr l Hit d exact show ?thesis by auto
    next
      case Miss
      with run Some vp a Inr show ?thesis by (simp add: try_use_binary_cache_def)
    qed
  qed
qed

definition use_demo :: bootstrap_settings where
  "use_demo = pid_bootstrap"

definition no_versions :: "string version_api" where
  "no_versions = text_versions\<lparr>va_parse := (\<lambda>_. None)\<rparr>"

lemma no_versions_none: "find_matching_cached_version no_versions c r w = None"
proof -
  have "List.map_filter (try_parse_cache_entry no_versions c r w) names = []" for names
    by (auto simp: List.map_filter_def try_parse_cache_entry_def no_versions_def filter_empty_conv)
  then show ?thesis by (simp add: find_matching_cached_version_def split: option.split)
qed

theorem use_cache_all_or_nothing_witness:
  "try_use_binary_cache no_versions [None] ''/c'' ''^17'' use_demo entry_demo = Some ((False, use_demo), entry_demo)"
proof -
  have "try_use_binary_cache no_versions [None] ''/c'' ''^17'' use_demo entry_demo = Some ((False, use_demo), entry_demo)"
    by (simp add: try_use_binary_cache_def no_versions_none)
  with use_cache_all_or_nothing [OF this] show ?thesis by simp
qed

section \<open>Any number of processes\<close>

text \<open>
  Where a process stands: looking for an entry with \<open>try_use_binary_cache\<close> (found, locked, copying) or
  filling one with \<open>try_populate_binary_cache\<close> (missing, locked, filling).
\<close>

datatype stage = Idle | Found | ReadLocked | Copying | Missing | WriteLocked | Filling

datatype entry_state = EntryAbsent | EntryPartial | EntryComplete

type_synonym pid = nat

record cache_state =
  cs_entry :: entry_state
  cs_stage :: "pid \<Rightarrow> stage"
  cs_lock :: "pid \<Rightarrow> lock_type option"

definition move :: "pid \<Rightarrow> stage \<Rightarrow> lock_type option \<Rightarrow> cache_state \<Rightarrow> cache_state" where
  "move p st l c = c\<lparr>cs_stage := (cs_stage c)(p := st), cs_lock := (cs_lock c)(p := l)\<rparr>"

definition initial_cache :: "cache_state \<Rightarrow> bool" where
  "initial_cache c \<longleftrightarrow> (\<forall>p. cs_stage c p = Idle \<and> cs_lock c p = None)"

text \<open>One process moves. A dying process loses its lock, because the kernel closes its files; what it
  has written stays.\<close>

inductive cache_step :: "cache_state \<Rightarrow> cache_state \<Rightarrow> bool" where
  find: "cs_stage c p = Idle \<Longrightarrow> cs_entry c = EntryComplete \<Longrightarrow> cache_step c (move p Found None c)"
| read_lock: "cs_stage c p = Found \<Longrightarrow> (\<forall>q. cs_lock c q \<noteq> Some Exclusive) \<Longrightarrow>
    cache_step c (move p ReadLocked (Some Shared) c)"
| read_refused: "cs_stage c p = Found \<Longrightarrow> cache_step c (move p Idle None c)"
| read_hit: "cs_stage c p = ReadLocked \<Longrightarrow> cs_entry c = EntryComplete \<Longrightarrow>
    cache_step c (move p Copying (Some Shared) c)"
| read_miss: "cs_stage c p = ReadLocked \<Longrightarrow> cs_entry c \<noteq> EntryComplete \<Longrightarrow> cache_step c (move p Idle None c)"
| read_done: "cs_stage c p = Copying \<Longrightarrow> cache_step c (move p Idle None c)"
| look: "cs_stage c p = Idle \<Longrightarrow> cs_entry c \<noteq> EntryComplete \<Longrightarrow> cache_step c (move p Missing None c)"
| write_lock: "cs_stage c p = Missing \<Longrightarrow> (\<forall>q. cs_lock c q = None) \<Longrightarrow>
    cache_step c (move p WriteLocked (Some Exclusive) c)"
| write_refused: "cs_stage c p = Missing \<Longrightarrow> cache_step c (move p Idle None c)"
| write_beaten: "cs_stage c p = WriteLocked \<Longrightarrow> cs_entry c = EntryComplete \<Longrightarrow> cache_step c (move p Idle None c)"
| fill: "cs_stage c p = WriteLocked \<Longrightarrow> cs_entry c \<noteq> EntryComplete \<Longrightarrow>
    cache_step c (move p Filling (Some Exclusive) (c\<lparr>cs_entry := EntryPartial\<rparr>))"
| mark: "cs_stage c p = Filling \<Longrightarrow> cache_step c (move p Idle None (c\<lparr>cs_entry := EntryComplete\<rparr>))"
| fill_failed: "cs_stage c p = Filling \<Longrightarrow> cache_step c (move p Idle None c)"
| die: "cache_step c (move p Idle None c)"

text \<open>The invariant: the locks are those of the stages and exclude each other as \<open>flock\<close>'s do.\<close>

fun stage_lock :: "stage \<Rightarrow> lock_type option" where
  "stage_lock ReadLocked = Some Shared"
| "stage_lock Copying = Some Shared"
| "stage_lock WriteLocked = Some Exclusive"
| "stage_lock Filling = Some Exclusive"
| "stage_lock _ = None"

definition cache_inv :: "cache_state \<Rightarrow> bool" where
  "cache_inv c \<longleftrightarrow>
     (\<forall>p. cs_lock c p = stage_lock (cs_stage c p)) \<and>
     (\<forall>p q. cs_lock c p = Some Exclusive \<longrightarrow> q \<noteq> p \<longrightarrow> cs_lock c q = None) \<and>
     (\<forall>p. cs_stage c p = Copying \<longrightarrow> cs_entry c = EntryComplete) \<and>
     (\<forall>p. cs_stage c p = Filling \<longrightarrow> cs_entry c = EntryPartial)"

lemma cache_inv_step: "cache_step c c' \<Longrightarrow> cache_inv c \<Longrightarrow> cache_inv c'"
proof (induction rule: cache_step.induct)
  case (mark c p)
  then have "cs_lock c p = Some Exclusive" by (simp add: cache_inv_def)
  then have "cs_stage c q \<noteq> Filling \<and> cs_stage c q \<noteq> Copying" if "q \<noteq> p" for q
    using mark that unfolding cache_inv_def by (metis option.distinct(1) stage_lock.simps(2,4))
  with mark show ?case by (auto simp: cache_inv_def move_def)
next
  case (fill c p)
  then have alone: "stage_lock (cs_stage c q) = None" if "q \<noteq> p" for q
    using that unfolding cache_inv_def by (metis stage_lock.simps(3))
  then have "cs_stage c q \<noteq> Filling \<and> cs_stage c q \<noteq> Copying" if "q \<noteq> p" for q
    using that by (metis option.distinct(1) stage_lock.simps(2,4))
  with fill alone show ?case by (auto simp: cache_inv_def move_def)
next
  case (read_hit c p)
  then have "stage_lock (cs_stage c q) \<noteq> Some Exclusive" if "q \<noteq> p" for q
    using that unfolding cache_inv_def by (metis option.distinct(1) stage_lock.simps(1))
  with read_hit show ?case by (auto simp: cache_inv_def move_def)
qed (auto simp: cache_inv_def move_def)

lemma cache_inv_reach: "cache_step\<^sup>*\<^sup>* c c' \<Longrightarrow> initial_cache c \<Longrightarrow> cache_inv c'"
proof (induction rule: rtranclp_induct)
  case base
  then show ?case by (simp add: initial_cache_def cache_inv_def)
qed (blast intro: cache_inv_step)



end
