(* ===== verification/Bootstrap_Prepare.thy ===== *)
theory Bootstrap_Prepare
  imports Bootstrap_Env Cleanup
begin

text \<open>
  Preparing the file system, \<open>src/src/bootstrap/prepare/mod.rs\<close>, and the whole bootstrap,
  \<open>src/src/bootstrap/mod.rs\<close>. As root the directories are made for and handed to \<open>nobody\<close>, as any
  other user they are made in place. Loading the configuration (\<open>PgEnvCfg::load\<close>) and binding a port
  are arguments, as are \<open>Settings::default\<close> and the version parser. The walk over the trees runs with the
  fuel that \<open>Privileges\<close> shows to be enough.
\<close>

section \<open>Operations\<close>

type_synonym 'a boot_step = "(bootstrap_error + 'a) \<times> world"

record settings_paths =
  sp_install_dir :: pathbuf
  sp_data_dir :: pathbuf
  sp_password_file :: pathbuf
  sp_install_default :: bool
  sp_data_default :: bool

record prepared_bootstrap =
  pb_settings :: settings
  pb_environment :: bootstrap_environment

text \<open>0o600, 0o755 and 0o700.\<close>

definition pgpass_mode :: nat where "pgpass_mode = 384"
definition mode_755 :: nat where "mode_755 = 493"
definition mode_700 :: nat where "mode_700 = 448"

definition root_bind_host :: "settings \<Rightarrow> string" where
  "root_bind_host s = (if st_host s = [] \<or> prefix ''/'' (st_host s) then ''127.0.0.1'' else st_host s)"

definition ensure_root_port :: "(string \<Rightarrow> io_kind + nat) \<Rightarrow> settings \<Rightarrow> bootstrap_error + settings" where
  "ensure_root_port bind s =
     (if st_port s > 0 then Inr s
      else case bind (root_bind_host s) of
        Inl k \<Rightarrow> Inl (bootstrap_msg ''failed to allocate port'')
      | Inr port \<Rightarrow> Inr (s\<lparr>st_port := port\<rparr>))"

definition settings_paths_from_settings ::
  "settings \<Rightarrow> bool \<Rightarrow> bool \<Rightarrow> bootstrap_error + (settings_paths \<times> settings)" where
  "settings_paths_from_settings s install_default data_default =
     (if \<not> utf8_valid (st_installation_dir s) then Inl (bootstrap_msg ''installation_dir must be valid UTF-8'')
      else if \<not> utf8_valid (st_data_dir s) then Inl (bootstrap_msg ''data_dir must be valid UTF-8'')
      else let password_file = join_path (st_installation_dir s) ''.pgpass'' in
        Inr (\<lparr>sp_install_dir = st_installation_dir s, sp_data_dir = st_data_dir s,
              sp_password_file = password_file, sp_install_default = install_default,
              sp_data_default = data_default\<rparr>,
             s\<lparr>st_password_file := password_file\<rparr>))"

definition resolve_settings_paths_for_uid ::
  "pg_env_cfg \<Rightarrow> nat \<Rightarrow> settings \<Rightarrow> bootstrap_error + (settings_paths \<times> settings)" where
  "resolve_settings_paths_for_uid cfg uid s =
     (case default_paths_for uid of
        (default_install_dir, default_data_dir) \<Rightarrow>
          let install_default = (pc_runtime_dir cfg = None);
              data_default = (pc_data_dir cfg = None);
              s1 = (if install_default then s\<lparr>st_installation_dir := default_install_dir\<rparr> else s);
              s2 = (if data_default then s1\<lparr>st_data_dir := default_data_dir\<rparr> else s1)
          in settings_paths_from_settings s2 install_default data_default)"

definition resolve_settings_paths_for_current_user ::
  "pg_env_cfg \<Rightarrow> settings \<Rightarrow> world \<Rightarrow> bootstrap_error + (settings_paths \<times> settings)" where
  "resolve_settings_paths_for_current_user cfg s w = resolve_settings_paths_for_uid cfg (w_euid w) s"

definition ensure_parents_for_paths ::
  "settings_paths \<Rightarrow> (pathbuf \<Rightarrow> world \<Rightarrow> unit boot_step) \<Rightarrow> world \<Rightarrow> unit boot_step" where
  "ensure_parents_for_paths paths ensure_parent w =
     try_st (if sp_install_default paths then ensure_parent (sp_install_dir paths) w else (Inr (), w))
       (\<lambda>_ w. if sp_data_default paths then ensure_parent (sp_data_dir paths) w else (Inr (), w))"

definition ensure_dir_with_mode :: "'h ext \<Rightarrow> pathbuf \<Rightarrow> nat \<Rightarrow> world \<Rightarrow> unit boot_step" where
  "ensure_dir_with_mode X p mode w =
     try_st (map_err_st bootstrap_from_report (ensure_dir_exists X (components p) w))
       (\<lambda>_ w. map_err_st bootstrap_from_report (set_permissions X (components p) mode w))"

definition ensure_pgpass_permissions :: "'h ext \<Rightarrow> pathbuf \<Rightarrow> world \<Rightarrow> unit boot_step" where
  "ensure_pgpass_permissions X p w =
     (case set_permissions X (components p) pgpass_mode w of
        (Inr _, w1) \<Rightarrow> (Inr (), w1)
      | (Inl err, w1) \<Rightarrow>
          if chain_has_io NotFound err then (Inr (), w1) else (Inl (bootstrap_from_report err), w1))"

definition prepare_xdg_dirs :: "'h ext \<Rightarrow> pathbuf \<Rightarrow> world \<Rightarrow> xdg_dirs boot_step" where
  "prepare_xdg_dirs X install_dir w =
     (let cache = join_path install_dir ''cache''; runtime = join_path install_dir ''run'' in
      try_st (ensure_dir_with_mode X cache mode_755 w) (\<lambda>_ w.
      try_st (ensure_dir_with_mode X runtime mode_700 w) (\<lambda>_ w.
      (Inr \<lparr>xd_home = install_dir, xd_cache = cache, xd_runtime = runtime\<rparr>, w))))"

definition dir_for_user :: "'h ext \<Rightarrow> pathbuf \<Rightarrow> user \<Rightarrow> nat \<Rightarrow> world \<Rightarrow> unit boot_step" where
  "dir_for_user X p u mode w = map_err_st bootstrap_from_privilege (ensure_dir_for_user X (components p) u mode w)"

definition ensure_xdg_dirs_owned_by_user :: "'h ext \<Rightarrow> xdg_dirs \<Rightarrow> user \<Rightarrow> world \<Rightarrow> unit boot_step" where
  "ensure_xdg_dirs_owned_by_user X xdg u w =
     try_st (dir_for_user X (xd_cache xdg) u mode_755 w)
       (\<lambda>_ w. dir_for_user X (xd_runtime xdg) u mode_700 w)"

definition ensure_parent_for_user :: "'h ext \<Rightarrow> user \<Rightarrow> pathbuf \<Rightarrow> world \<Rightarrow> unit boot_step" where
  "ensure_parent_for_user X u p w =
     (case path_parent (components p) of
        None \<Rightarrow> (Inr (), w)
      | Some parent \<Rightarrow> map_err_st bootstrap_from_privilege (ensure_dir_for_user X parent u mode_755 w))"

definition ensure_parent_exists :: "'h ext \<Rightarrow> pathbuf \<Rightarrow> world \<Rightarrow> unit boot_step" where
  "ensure_parent_exists X p w =
     (case path_parent (components p) of
        None \<Rightarrow> (Inr (), w)
      | Some parent \<Rightarrow> map_err_st bootstrap_from_report (ensure_dir_exists X parent w))"

definition ensure_pgpass_for_user :: "'h ext \<Rightarrow> pathbuf \<Rightarrow> user \<Rightarrow> world \<Rightarrow> unit boot_step" where
  "ensure_pgpass_for_user X p u w =
     try_st (map_err bootstrap_from_report (ambient_dir_and_path X (components p) w), w) (\<lambda>(dir, relative) w.
       if relative = [] then (Inl (bootstrap_msg ''PGPASSFILE cannot point at the root directory''), w)
       else case cap_open_nofollow X dir relative w of
         Inl k \<Rightarrow> if k = NotFound then (Inr (), w) else (Inl (bootstrap_msg ''open failed''), w)
       | Inr file \<Rightarrow>
           (case cap_file_metadata X file w of
              Inl k \<Rightarrow> (Inl (bootstrap_msg ''stat failed''), w)
            | Inr n \<Rightarrow>
                if \<not> is_file_kind (nd_kind n) then
                  (Inl (bootstrap_msg ''PGPASSFILE must reference a regular file''), w)
                else
                  try_st (map_err_st (\<lambda>k. bootstrap_msg ''fchown failed'') (nix_fchown X file (us_uid u) (us_gid u) w))
                    (\<lambda>_ w. map_err_st (\<lambda>k. bootstrap_msg ''fchmod failed'') (nix_fchmod X file pgpass_mode w))))"

definition own_tree :: "'h ext \<Rightarrow> pathbuf \<Rightarrow> user \<Rightarrow> world \<Rightarrow> (nat boot_step) option" where
  "own_tree X p u w =
     map_option (map_err_st bootstrap_from_privilege)
       (ensure_tree_owned_by_user X (length (w_fs w) + 1) (components p) u w)"

text \<open>The steps of \<open>bootstrap_with_root\<close> up to the walks over the trees.\<close>

definition root_directories ::
  "'h ext \<Rightarrow> settings_paths \<Rightarrow> user \<Rightarrow> world \<Rightarrow> (xdg_dirs \<times> timezone_env) boot_step" where
  "root_directories X paths u w =
     try_st (ensure_parents_for_paths paths (ensure_parent_for_user X u) w) (\<lambda>_ w.
     try_st (dir_for_user X (sp_install_dir paths) u mode_755 w) (\<lambda>_ w.
     try_st (map_err_st bootstrap_from_privilege
              (make_data_dir_private X (components (sp_data_dir paths)) u w)) (\<lambda>_ w.
     try_st (prepare_timezone_env w, w) (\<lambda>timezone w.
     try_st (prepare_xdg_dirs X (sp_install_dir paths) w) (\<lambda>xdg w.
     try_st (ensure_xdg_dirs_owned_by_user X xdg u w) (\<lambda>_ w.
     try_st (ensure_pgpass_for_user X (sp_password_file paths) u w) (\<lambda>_ w.
     (Inr (xdg, timezone), w))))))))"

definition root_trees :: "'h ext \<Rightarrow> settings_paths \<Rightarrow> user \<Rightarrow> world \<Rightarrow> (unit boot_step) option" where
  "root_trees X paths u w =
     (case own_tree X (sp_install_dir paths) u w of
        None \<Rightarrow> None
      | Some (Inl e, w1) \<Rightarrow> Some (Inl e, w1)
      | Some (Inr _, w1) \<Rightarrow>
          if sp_data_default paths then
            map_option (\<lambda>r. try_st r (\<lambda>_ w. (Inr (), w))) (own_tree X (sp_data_dir paths) u w1)
          else Some (Inr (), w1))"

definition bootstrap_with_root ::
  "'h ext \<Rightarrow> (string \<Rightarrow> io_kind + nat) \<Rightarrow> settings \<Rightarrow> pg_env_cfg \<Rightarrow> world \<Rightarrow> (prepared_bootstrap boot_step) option" where
  "bootstrap_with_root X bind s cfg w =
     (case ensure_root_port bind (s\<lparr>st_temporary := False\<rparr>) of
        Inl e \<Rightarrow> Some (Inl e, w)
      | Inr s1 \<Rightarrow>
          (case nix_user_from_name X ''nobody'' w of
             Inl k \<Rightarrow> Some (Inl (bootstrap_from_report (Ctx ''failed to resolve user nobody'' (Msg ''errno''))), w)
           | Inr None \<Rightarrow> Some (Inl (bootstrap_msg ''user nobody not found''), w)
           | Inr (Some u) \<Rightarrow>
               (case resolve_settings_paths_for_uid cfg (us_uid u) s1 of
                  Inl e \<Rightarrow> Some (Inl e, w)
                | Inr (paths, s2) \<Rightarrow>
                    (case root_directories X paths u w of
                       (Inl e, w1) \<Rightarrow> Some (Inl e, w1)
                     | (Inr (xdg, timezone), w1) \<Rightarrow>
                         map_option (\<lambda>r. try_st r (\<lambda>_ w2.
                             (Inr \<lparr>pb_settings = s2,
                                   pb_environment = from_components xdg (sp_password_file paths) timezone\<rparr>, w2)))
                           (root_trees X paths u w1)))))"

definition bootstrap_unprivileged ::
  "'h ext \<Rightarrow> settings \<Rightarrow> pg_env_cfg \<Rightarrow> world \<Rightarrow> prepared_bootstrap boot_step" where
  "bootstrap_unprivileged X s cfg w =
     try_st (resolve_settings_paths_for_current_user cfg s w, w) (\<lambda>(paths, s2) w.
     try_st (ensure_parents_for_paths paths (ensure_parent_exists X) w) (\<lambda>_ w.
     try_st (ensure_dir_with_mode X (sp_install_dir paths) mode_755 w) (\<lambda>_ w.
     try_st (ensure_dir_with_mode X (sp_data_dir paths) mode_700 w) (\<lambda>_ w.
     try_st (ensure_pgpass_permissions X (sp_password_file paths) w) (\<lambda>_ w.
     try_st (prepare_timezone_env w, w) (\<lambda>timezone w.
     try_st (prepare_xdg_dirs X (sp_install_dir paths) w) (\<lambda>xdg w.
     (Inr \<lparr>pb_settings = s2,
           pb_environment = from_components xdg (sp_password_file paths) timezone\<rparr>, w))))))))"

definition prepare_bootstrap ::
  "'h ext \<Rightarrow> (string \<Rightarrow> io_kind + nat) \<Rightarrow> execution_privileges \<Rightarrow> settings \<Rightarrow> pg_env_cfg \<Rightarrow> world \<Rightarrow>
     (prepared_bootstrap boot_step) option" where
  "prepare_bootstrap X bind privileges s cfg w =
     (case privileges of
        Root \<Rightarrow> bootstrap_with_root X bind s cfg w
      | Unprivileged \<Rightarrow> Some (bootstrap_unprivileged X s cfg w))"

section \<open>The whole bootstrap\<close>

datatype bootstrap_flavour = DefaultBootstrap | TestBootstrap

definition default_setup_timeout :: duration where "default_setup_timeout = from_secs 180"
definition default_start_timeout :: duration where "default_start_timeout = from_secs 60"

definition validate_backend_selection :: "(string \<Rightarrow> string) \<Rightarrow> world \<Rightarrow> bootstrap_error + unit" where
  "validate_backend_selection lossy w =
     (let raw = (case var_os ''PG_TEST_BACKEND'' w of None \<Rightarrow> [] | Some v \<Rightarrow> v);
          trimmed = trim (lossy raw)
      in if trimmed = [] \<or> trimmed = ''postgresql_embedded'' then Inr ()
         else Inl (bootstrap_msg ''SKIP-TEST-CLUSTER: unsupported PG_TEST_BACKEND''))"

text \<open>What is outside the repository, apart from the file-system calls.\<close>

record environment_api =
  ea_lossy :: "string \<Rightarrow> string"
  ea_load_cfg :: "world \<Rightarrow> config_error + pg_env_cfg"
  ea_parse_req :: "string \<Rightarrow> string option"
  ea_default_settings :: settings
  ea_bind :: "string \<Rightarrow> io_kind + nat"

text \<open>The configuration read before anything is prepared.\<close>

definition bootstrap_plan ::
  "'h ext \<Rightarrow> environment_api \<Rightarrow> bootstrap_flavour \<Rightarrow> world \<Rightarrow>
     bootstrap_error + (execution_privileges \<times> pg_env_cfg \<times> settings \<times> pathbuf option \<times> execution_mode \<times> duration)" where
  "bootstrap_plan X A kind w =
     try_res (if kind = TestBootstrap then validate_backend_selection (ea_lossy A) w else Inr ()) (\<lambda>_.
     let privileges = detect_execution_privileges w in
     try_res (map_err (\<lambda>e. case e of ConfigError r \<Rightarrow>
         bootstrap_from_report (Ctx ''failed to load configuration via OrthoConfig'' r)) (ea_load_cfg A w)) (\<lambda>cfg.
     try_res (map_err bootstrap_from_pg
        (case kind of
           DefaultBootstrap \<Rightarrow> to_settings (ea_parse_req A) (ea_default_settings A) cfg
         | TestBootstrap \<Rightarrow> to_settings_for_tests (ea_parse_req A) (ea_default_settings A) cfg)) (\<lambda>s.
     try_res (worker_binary_from_env X privileges w) (\<lambda>worker_binary.
     try_res (determine_execution_mode privileges worker_binary) (\<lambda>mode.
     try_res (shutdown_timeout_from_env w) (\<lambda>shutdown_timeout.
     Inr (privileges, cfg, s, worker_binary, mode, shutdown_timeout)))))))"

definition orchestrate_bootstrap ::
  "'h ext \<Rightarrow> environment_api \<Rightarrow> bootstrap_flavour \<Rightarrow> world \<Rightarrow> (bootstrap_settings boot_step) option" where
  "orchestrate_bootstrap X A kind w =
     (case bootstrap_plan X A kind w of
        Inl e \<Rightarrow> Some (Inl e, w)
      | Inr (privileges, cfg, s, worker_binary, mode, shutdown_timeout) \<Rightarrow>
          map_option (\<lambda>r. try_st r (\<lambda>prepared w1.
            (Inr \<lparr>bs_privileges = privileges, bs_execution_mode = mode,
                  bs_settings = pb_settings prepared, bs_environment = pb_environment prepared,
                  bs_worker_binary = worker_binary, bs_setup_timeout = default_setup_timeout,
                  bs_start_timeout = default_start_timeout, bs_shutdown_timeout = shutdown_timeout,
                  bs_cleanup_mode = default_cleanup_mode, bs_binary_cache_dir = pc_binary_cache_dir cfg\<rparr>, w1)))
            (prepare_bootstrap X (ea_bind A) privileges s cfg w))"

definition bootstrap_for_tests where
  "bootstrap_for_tests X A w = orchestrate_bootstrap X A TestBootstrap w"

section \<open>Lemmas\<close>

lemma pgpass_simple: "simple_name ''.pgpass''"
  by (simp add: simple_name_def)

lemma settings_paths_ok:
  assumes "settings_paths_from_settings s i d = Inr (paths, s')"
  shows "utf8_valid (st_installation_dir s)" "utf8_valid (st_data_dir s)"
    "s' = s\<lparr>st_password_file := join_path (st_installation_dir s) ''.pgpass''\<rparr>"
    "sp_install_dir paths = st_installation_dir s'" "sp_data_dir paths = st_data_dir s'"
    "sp_password_file paths = st_password_file s'" "sp_install_default paths = i" "sp_data_default paths = d"
  using assms by (auto simp: settings_paths_from_settings_def Let_def split: if_splits)

lemma resolve_paths_ok:
  assumes "resolve_settings_paths_for_uid cfg uid s = Inr (paths, s')"
  shows "st_password_file s' = join_path (st_installation_dir s') ''.pgpass''"
    "sp_install_dir paths = st_installation_dir s'" "sp_data_dir paths = st_data_dir s'"
    "sp_password_file paths = st_password_file s'" "utf8_valid (st_installation_dir s')"
    "st_temporary s' = st_temporary s" "st_port s' = st_port s"
    "pc_runtime_dir cfg = None \<Longrightarrow> st_installation_dir s' = fst (default_paths_for uid)"
    "pc_data_dir cfg = None \<Longrightarrow> st_data_dir s' = snd (default_paths_for uid)"
    "pc_runtime_dir cfg \<noteq> None \<Longrightarrow> st_installation_dir s' = st_installation_dir s"
    "pc_data_dir cfg \<noteq> None \<Longrightarrow> st_data_dir s' = st_data_dir s"
proof -
  obtain di dd where d: "default_paths_for uid = (di, dd)" by (cases "default_paths_for uid")
  let ?i = "pc_runtime_dir cfg = None" and ?d = "pc_data_dir cfg = None"
  let ?s1 = "if ?i then s\<lparr>st_installation_dir := di\<rparr> else s"
  let ?s2 = "if ?d then ?s1\<lparr>st_data_dir := dd\<rparr> else ?s1"
  from assms have "settings_paths_from_settings ?s2 ?i ?d = Inr (paths, s')"
    by (simp add: resolve_settings_paths_for_uid_def d Let_def)
  note ok = settings_paths_ok [OF this]
  show "st_password_file s' = join_path (st_installation_dir s') ''.pgpass''"
    "sp_install_dir paths = st_installation_dir s'" "sp_data_dir paths = st_data_dir s'"
    "sp_password_file paths = st_password_file s'" "utf8_valid (st_installation_dir s')"
    "st_temporary s' = st_temporary s" "st_port s' = st_port s"
    using ok by simp_all
  show "?i \<Longrightarrow> st_installation_dir s' = fst (default_paths_for uid)"
    "?d \<Longrightarrow> st_data_dir s' = snd (default_paths_for uid)"
    "\<not> ?i \<Longrightarrow> st_installation_dir s' = st_installation_dir s"
    "\<not> ?d \<Longrightarrow> st_data_dir s' = st_data_dir s"
    using ok(3) d by (cases "pc_runtime_dir cfg"; cases "pc_data_dir cfg"; simp)+
qed

lemma prepare_xdg_ok:
  "prepare_xdg_dirs X i w = (Inr xdg, w') \<Longrightarrow>
     xdg = \<lparr>xd_home = i, xd_cache = join_path i ''cache'', xd_runtime = join_path i ''run''\<rparr>"
  by (auto simp: prepare_xdg_dirs_def Let_def try_st_Inr)

lemma root_directories_ok:
  assumes "root_directories X paths u w = (Inr (xdg, timezone), w')"
  shows "xdg = \<lparr>xd_home = sp_install_dir paths, xd_cache = join_path (sp_install_dir paths) ''cache'',
    xd_runtime = join_path (sp_install_dir paths) ''run''\<rparr>"
  using assms by (auto simp: root_directories_def try_st_Inr dest!: prepare_xdg_ok)

lemma map_option_try_Inr:
  "map_option (\<lambda>r. try_st r k) m = Some (Inr y, w') \<longleftrightarrow>
     (\<exists>x w. m = Some (Inr x, w) \<and> k x w = (Inr y, w'))"
  by (cases m) (auto simp: try_st_Inr)

text \<open>What a prepared bootstrap says about paths: everything hangs below the installation directory.\<close>

definition consistent_paths :: "settings \<Rightarrow> bootstrap_environment \<Rightarrow> bool" where
  "consistent_paths s b \<longleftrightarrow>
     utf8_valid (st_installation_dir s) \<and>
     st_password_file s = join_path (st_installation_dir s) ''.pgpass'' \<and>
     ben_pgpass_file b = st_password_file s \<and> ben_home b = st_installation_dir s \<and>
     ben_xdg_cache_home b = join_path (st_installation_dir s) ''cache'' \<and>
     ben_xdg_runtime_dir b = join_path (st_installation_dir s) ''run''"

lemma bootstrap_with_root_ok:
  assumes "bootstrap_with_root X bind s cfg w = Some (Inr pb, w')"
  obtains u where "nix_user_from_name X ''nobody'' w = Inr (Some u)"
    "consistent_paths (pb_settings pb) (pb_environment pb)" "\<not> st_temporary (pb_settings pb)"
    "st_port s > 0 \<Longrightarrow> st_port (pb_settings pb) = st_port s"
    "st_port s = 0 \<Longrightarrow> bind (root_bind_host s) = Inr (st_port (pb_settings pb))"
    "pc_runtime_dir cfg = None \<Longrightarrow> st_installation_dir (pb_settings pb) = fst (default_paths_for (us_uid u))"
    "pc_data_dir cfg = None \<Longrightarrow> st_data_dir (pb_settings pb) = snd (default_paths_for (us_uid u))"
proof -
  from assms obtain s1 u paths s2 xdg timezone w1 where
    p: "ensure_root_port bind (s\<lparr>st_temporary := False\<rparr>) = Inr s1" and
    u: "nix_user_from_name X ''nobody'' w = Inr (Some u)" and
    r: "resolve_settings_paths_for_uid cfg (us_uid u) s1 = Inr (paths, s2)" and
    d: "root_directories X paths u w = (Inr (xdg, timezone), w1)" and
    pb: "pb = \<lparr>pb_settings = s2, pb_environment = from_components xdg (sp_password_file paths) timezone\<rparr>"
    by (auto simp: bootstrap_with_root_def map_option_try_Inr try_st_Inr split: sum.splits option.splits prod.splits)
  note res = resolve_paths_ok [OF r]
  from p have s1: "\<not> st_temporary s1" "st_port s > 0 \<Longrightarrow> st_port s1 = st_port s"
    "st_port s = 0 \<Longrightarrow> bind (root_bind_host s) = Inr (st_port s1)"
    by (auto simp: ensure_root_port_def root_bind_host_def split: if_splits sum.splits)
  show ?thesis
  proof (rule that [OF u])
    show "consistent_paths (pb_settings pb) (pb_environment pb)"
      using res root_directories_ok [OF d] by (simp add: consistent_paths_def pb from_components_def)
    show "\<not> st_temporary (pb_settings pb)" using res s1 by (simp add: pb)
    show "st_port s > 0 \<Longrightarrow> st_port (pb_settings pb) = st_port s" using res s1 by (simp add: pb)
    show "st_port s = 0 \<Longrightarrow> bind (root_bind_host s) = Inr (st_port (pb_settings pb))" using res s1 by (simp add: pb)
    show "pc_runtime_dir cfg = None \<Longrightarrow> st_installation_dir (pb_settings pb) = fst (default_paths_for (us_uid u))"
      "pc_data_dir cfg = None \<Longrightarrow> st_data_dir (pb_settings pb) = snd (default_paths_for (us_uid u))"
      using res by (simp_all add: pb)
  qed
qed

lemma bootstrap_unprivileged_ok:
  assumes "bootstrap_unprivileged X s cfg w = (Inr pb, w')"
  shows "consistent_paths (pb_settings pb) (pb_environment pb)"
proof -
  from assms obtain paths s2 xdg timezone w1 w2 where
    r: "resolve_settings_paths_for_uid cfg (w_euid w) s = Inr (paths, s2)" and
    x: "prepare_xdg_dirs X (sp_install_dir paths) w1 = (Inr xdg, w2)" and
    pb: "pb = \<lparr>pb_settings = s2, pb_environment = from_components xdg (sp_password_file paths) timezone\<rparr>"
    by (auto simp: bootstrap_unprivileged_def resolve_settings_paths_for_current_user_def try_st_Inr)
  from resolve_paths_ok [OF r] prepare_xdg_ok [OF x] show ?thesis
    by (simp add: consistent_paths_def pb from_components_def)
qed

text \<open>The password file stands directly in the installation directory, so there is never an
  installation root to remove.\<close>

lemma consistent_no_install_root:
  assumes "consistent_paths s b"
  shows "path_parent (components (st_password_file s)) = Some (components (st_installation_dir s))"
  using assms components_join_simple [OF pgpass_simple, of "st_installation_dir s"]
  by (simp add: consistent_paths_def)

lemma utf8_valid_join: "utf8_valid a \<Longrightarrow> utf8_valid b \<Longrightarrow> utf8_valid (join_path a b)"
proof -
  assume a: "utf8_valid a" and b: "utf8_valid b"
  have "utf8_valid (CHR ''/'' # b)" using b by (simp add: byte_def)
  with a b show ?thesis by (simp add: join_path_def utf8_valid_append del: utf8_valid.simps)
qed

section \<open>Properties\<close>

lemma bootstrap_plan_ok:
  assumes "bootstrap_plan X A kind w = Inr (privileges, cfg, s, worker, mode, timeout)"
  shows "privileges = detect_execution_privileges w"
    "worker_binary_from_env X privileges w = Inr worker"
    "determine_execution_mode privileges worker = Inr mode"
    "shutdown_timeout_from_env w = Inr timeout"
    "ea_load_cfg A w = Inr cfg"
  using assms by (auto simp: bootstrap_plan_def try_res_Inr Let_def)

lemma worker_binary_ok:
  assumes "worker_binary_from_env X privileges w = Inr (Some p)"
  shows "utf8_valid p \<or> privileges = Root" "validate_worker_path X p w = Inr ()"
  using assms
  by (auto simp: worker_binary_from_env_def try_res_Inr split: option.splits if_splits)

lemma validated_worker:
  assumes "validate_worker_path X p w = Inr ()"
  shows "\<exists>dir rel n. ambient_dir_and_path X (components p) w = Inr (dir, rel) \<and>
    cap_metadata X dir rel w = Inr n \<and> is_file_kind (nd_kind n) \<and> nd_mode n AND 73 \<noteq> 0"
proof -
  from assms obtain dir rel n where
    "ambient_dir_and_path X (components p) w = Inr (dir, rel)" "cap_metadata X dir rel w = Inr n"
    "is_file_kind (nd_kind n)" "nd_mode n AND 73 \<noteq> 0"
    by (auto simp: validate_worker_path_def validate_worker_binary_def try_res_Inr split: if_splits)
  then show ?thesis by blast
qed

lemma orchestrate_ok:
  assumes "orchestrate_bootstrap X A kind w = Some (Inr b, w')"
  obtains cfg s worker mode timeout pb where
    "bootstrap_plan X A kind w = Inr (bs_privileges b, cfg, s, worker, mode, timeout)"
    "prepare_bootstrap X (ea_bind A) (bs_privileges b) s cfg w = Some (Inr pb, w')"
    "bs_execution_mode b = mode" "bs_worker_binary b = worker" "bs_shutdown_timeout b = timeout"
    "bs_settings b = pb_settings pb" "bs_environment b = pb_environment pb" "bs_cleanup_mode b = DataOnly"
    "bs_setup_timeout b = from_secs 180" "bs_start_timeout b = from_secs 60"
proof (cases "bootstrap_plan X A kind w")
  case (Inl e)
  with assms show ?thesis by (simp add: orchestrate_bootstrap_def)
next
  case (Inr r)
  obtain privileges cfg s worker mode timeout where r: "r = (privileges, cfg, s, worker, mode, timeout)"
    by (cases r)
  with assms Inr obtain pb where pb: "prepare_bootstrap X (ea_bind A) privileges s cfg w = Some (Inr pb, w')"
    "b = \<lparr>bs_privileges = privileges, bs_execution_mode = mode,
       bs_settings = pb_settings pb, bs_environment = pb_environment pb,
       bs_worker_binary = worker, bs_setup_timeout = default_setup_timeout,
       bs_start_timeout = default_start_timeout, bs_shutdown_timeout = timeout,
       bs_cleanup_mode = default_cleanup_mode, bs_binary_cache_dir = pc_binary_cache_dir cfg\<rparr>"
    by (auto simp: orchestrate_bootstrap_def map_option_try_Inr try_st_Inr)
  with Inr r that [of cfg s worker mode timeout pb] show ?thesis
    by (simp add: default_cleanup_mode_def default_setup_timeout_def default_start_timeout_def)
qed

text \<open>
  A bootstrap that succeeds as root runs the server through a subprocess, with a worker binary
  that was an executable regular file when it was checked; as any other user it runs in process. The
  shutdown timeout is in bounds and the default cleanup removes the data directory only.
\<close>

theorem bootstrap_mode_matches_privileges:
  assumes "orchestrate_bootstrap X A kind w = Some (Inr b, w')"
  shows "(w_euid w = 0 \<longrightarrow> bs_privileges b = Root \<and> bs_execution_mode b = Subprocess \<and>
      (\<exists>p dir rel n. bs_worker_binary b = Some p \<and> ambient_dir_and_path X (components p) w = Inr (dir, rel) \<and>
         cap_metadata X dir rel w = Inr n \<and> is_file_kind (nd_kind n) \<and> nd_mode n AND 73 \<noteq> 0)) \<and>
    (w_euid w \<noteq> 0 \<longrightarrow> bs_privileges b = Unprivileged \<and> bs_execution_mode b = InProcess) \<and>
    from_secs 1 \<le> bs_shutdown_timeout b \<and> bs_shutdown_timeout b \<le> from_secs 600 \<and>
    bs_cleanup_mode b = DataOnly"
proof -
  from assms obtain cfg s worker mode timeout pb where
    plan: "bootstrap_plan X A kind w = Inr (bs_privileges b, cfg, s, worker, mode, timeout)" and
    b: "bs_execution_mode b = mode" "bs_worker_binary b = worker" "bs_shutdown_timeout b = timeout"
      "bs_cleanup_mode b = DataOnly"
    by (rule orchestrate_ok)
  note p = bootstrap_plan_ok [OF plan]
  have timeout: "from_secs 1 \<le> timeout \<and> timeout \<le> from_secs 600"
    using p(4)
    by (auto simp: shutdown_timeout_from_env_def env_var_def Let_def from_secs_def default_shutdown_timeout_def
        max_shutdown_timeout_secs_def split: option.splits if_splits sum.splits var_error.splits)
  have root: "bs_privileges b = Root \<and> mode = Subprocess \<and> (\<exists>q. worker = Some q)" if "w_euid w = 0"
    using p(1,3) that by (auto simp: detect_execution_privileges_def determine_execution_mode_def split: if_splits)
  have user: "bs_privileges b = Unprivileged \<and> mode = InProcess" if "w_euid w \<noteq> 0"
    using p(1,3) that by (auto simp: detect_execution_privileges_def determine_execution_mode_def)
  have worker: "\<exists>dir rel n. ambient_dir_and_path X (components q) w = Inr (dir, rel) \<and>
      cap_metadata X dir rel w = Inr n \<and> is_file_kind (nd_kind n) \<and> nd_mode n AND 73 \<noteq> 0"
    if "worker = Some q" for q
    using validated_worker worker_binary_ok(2) p(2) that by blast
  show ?thesis using root user worker timeout b by blast
qed

text \<open>An instance for the witnesses: every call succeeds, the worker is an executable file, and
  nothing changes.\<close>

definition noop_ext :: "unit ext" where
  "noop_ext =
     \<lparr>cap_open = (\<lambda>_ _. Inr ()), cap_create_dir_all = (\<lambda>_ _ w. (Inr (), w)),
      cap_set_permissions = (\<lambda>_ _ _ w. (Inr (), w)), cap_dir_metadata = (\<lambda>_ _. Inr root_node),
      cap_metadata = (\<lambda>_ _ _. Inr (root_node\<lparr>nd_kind := KFile ''elf''\<rparr>)),
      cap_entries = (\<lambda>_ _. Inr []), cap_read_dir = (\<lambda>_ _ _. Inr []), cap_exists = (\<lambda>_ _ _. True),
      cap_remove_dir_all = (\<lambda>_ _ w. (Inr (), w)), cap_read = (\<lambda>_ _ _. Inr []),
      cap_open_nofollow = (\<lambda>_ _ _. Inl NotFound), cap_file_metadata = (\<lambda>_ _. Inr root_node),
      nix_chown = (\<lambda>_ _ _ w. (Inr (), w)), nix_fchown = (\<lambda>_ _ _ w. (Inr (), w)),
      nix_fchmod = (\<lambda>_ _ w. (Inr (), w)),
      nix_user_from_name = (\<lambda>_ _. Inr (Some nobody))\<rparr>"

definition boot_world :: world where
  "boot_world =
     \<lparr>w_fs = [([RootDir, Normal ''z''], root_node)], w_cwd = [RootDir],
      w_env = map_of [(''TZDIR'', ''/z''), (''PG_EMBEDDED_WORKER'', ''/w'')],
      w_euid = 0, w_faults = (\<lambda>_. None), w_residue = (\<lambda>_. [])\<rparr>"

definition boot_cfg :: pg_env_cfg where
  "boot_cfg = \<lparr>pc_version_req = None, pc_port = Some 5433, pc_superuser = None, pc_password = None,
     pc_data_dir = Some ''/d'', pc_runtime_dir = Some ''/i'', pc_locale = None, pc_encoding = None,
     pc_binary_cache_dir = None\<rparr>"

definition boot_api :: environment_api where
  "boot_api = \<lparr>ea_lossy = (\<lambda>s. s), ea_load_cfg = (\<lambda>_. Inr boot_cfg), ea_parse_req = Some,
     ea_default_settings = demo_settings, ea_bind = (\<lambda>_. Inr 5432)\<rparr>"

lemma noop_open [simp]: "cap_open noop_ext p w = Inr ()" by (simp add: noop_ext_def)

lemma noop_ambient:
  "ambient_dir_and_path noop_ext p w =
     Inr ((), if is_absolute p then (case path_parent p of None \<Rightarrow> [] | Some q \<Rightarrow> [last p]) else p)"
  by (auto simp: ambient_dir_and_path_def split: option.splits dest!: strip_prefix_parent)

lemma noop_ancestor: "find_existing_ancestor noop_ext p w = Inr ((), [])"
proof -
  obtain l where "ancestors p = p # l" by (cases p rule: rev_cases) (auto simp: ancestors.simps split: option.splits)
  then show ?thesis by (simp add: find_existing_ancestor_def strip_prefix_def)
qed

lemma noop_steps [simp]:
  "ensure_dir_exists noop_ext p w = (Inr (), w)"
  "set_permissions noop_ext p m w = (Inr (), w)"
  "ensure_dir_for_user noop_ext p u m w = (Inr (), w)"
proof -
  show e: "ensure_dir_exists noop_ext p w = (Inr (), w)" for p
    by (simp add: ensure_dir_exists_def noop_ancestor ensure_dir_exists_inner_def)
  show s: "set_permissions noop_ext p m w = (Inr (), w)" for p
    by (simp add: set_permissions_def noop_ambient set_permissions_inner_def noop_ext_def [THEN arg_cong [where f = cap_set_permissions]])
  show "ensure_dir_for_user noop_ext p u m w = (Inr (), w)"
    by (simp add: ensure_dir_for_user_def ensure_dir_for_user_inner_def e s chown_entry_def noop_ext_def [THEN arg_cong [where f = nix_chown]])
qed

lemma noop_tree: "own_tree noop_ext p u w = Some (Inr 0, w)"
proof -
  have "cap_entries noop_ext d w = Inr []" for d by (simp add: noop_ext_def)
  then show ?thesis by (simp add: own_tree_def ensure_tree_owned_by_user_def open_directory_if_exists_def)
qed

lemma boot_components:
  "components ''/z'' = [RootDir, Normal ''z'']" "components ''/w'' = [RootDir, Normal ''w'']"
  "components ''/i/.pgpass'' = [RootDir, Normal ''i'', Normal ''.pgpass'']"
  by (simp_all add: components_def is_abs_def body_comps_def seg_comp_def)

lemma boot_plan:
  "\<exists>s. bootstrap_plan noop_ext boot_api TestBootstrap boot_world =
     Inr (Root, boot_cfg, s, Some ''/w'', Subprocess, from_secs 15) \<and>
     st_port s = 5433 \<and> st_installation_dir s = ''/i'' \<and> st_data_dir s = ''/d'' \<and>
     st_socket_dir s = st_socket_dir demo_settings"
proof -
  have m: "cap_metadata noop_ext d rel w = Inr (root_node\<lparr>nd_kind := KFile ''elf''\<rparr>)" for d rel w
    by (simp add: noop_ext_def)
  have v: "validate_worker_path noop_ext ''/w'' boot_world = Inr ()"
    by (simp add: validate_worker_path_def validate_worker_binary_def noop_ambient m root_node_def
        boot_components is_absolute_def path_parent_def)
  have w: "worker_binary_from_env noop_ext Root boot_world = Inr (Some ''/w'')"
    using v by (simp add: worker_binary_from_env_def var_os_def boot_world_def byte_def)
  have t: "shutdown_timeout_from_env boot_world = Inr (from_secs 15)"
    by (simp add: shutdown_timeout_from_env_def env_var_def var_os_def boot_world_def default_shutdown_timeout_def)
  have b: "validate_backend_selection (ea_lossy boot_api) boot_world = Inr ()"
    by (simp add: validate_backend_selection_def var_os_def boot_world_def boot_api_def trim_nil)
  have p: "detect_execution_privileges boot_world = Root" "determine_execution_mode Root (Some ''/w'') = Inr Subprocess"
    "ea_load_cfg boot_api boot_world = Inr boot_cfg"
    by (simp_all add: detect_execution_privileges_def determine_execution_mode_def boot_world_def boot_api_def)
  have frame: "\<exists>c. apply_worker_limits t = t\<lparr>st_configuration := c\<rparr>" for t
    unfolding apply_worker_limits_def using or_insert_frame by blast
  have "to_settings_for_tests (ea_parse_req boot_api) (ea_default_settings boot_api) boot_cfg =
    Inr (apply_worker_limits (demo_settings\<lparr>st_timeout := None, st_port := 5433, st_data_dir := ''/d'',
      st_installation_dir := ''/i''\<rparr>))"
    by (simp add: to_settings_for_tests_def to_settings_with_context_def apply_version_def apply_connection_def
        apply_paths_def apply_locale_def boot_cfg_def Let_def boot_api_def)
  then obtain c where "to_settings_for_tests (ea_parse_req boot_api) (ea_default_settings boot_api) boot_cfg =
    Inr (demo_settings\<lparr>st_timeout := None, st_port := 5433, st_data_dir := ''/d'', st_installation_dir := ''/i'',
      st_configuration := c\<rparr>)"
    using frame by metis
  then obtain s where s: "to_settings_for_tests (ea_parse_req boot_api) (ea_default_settings boot_api) boot_cfg = Inr s"
    "st_port s = 5433" "st_installation_dir s = ''/i''" "st_data_dir s = ''/d''"
    "st_socket_dir s = st_socket_dir demo_settings"
    by simp
  show ?thesis by (simp add: bootstrap_plan_def b p w t s)
qed

lemma boot_run:
  obtains b where "orchestrate_bootstrap noop_ext boot_api TestBootstrap boot_world = Some (Inr b, boot_world)"
    "bs_privileges b = Root" "st_data_dir (bs_settings b) = ''/d''" "st_installation_dir (bs_settings b) = ''/i''"
    "st_password_file (bs_settings b) = ''/i/.pgpass''" "st_socket_dir (bs_settings b) = st_socket_dir demo_settings"
    "bs_execution_mode b = Subprocess" "bs_worker_binary b = Some ''/w''" "bs_binary_cache_dir b = None"
    "bs_environment b = \<lparr>ben_home = ''/i'', ben_xdg_cache_home = ''/i/cache'', ben_xdg_runtime_dir = ''/i/run'',
       ben_pgpass_file = ''/i/.pgpass'', ben_tz_dir = Some ''/z'', ben_timezone = ''UTC''\<rparr>"
proof -
  from boot_plan obtain s where s: "bootstrap_plan noop_ext boot_api TestBootstrap boot_world =
     Inr (Root, boot_cfg, s, Some ''/w'', Subprocess, from_secs 15)"
    "st_port s = 5433" "st_installation_dir s = ''/i''" "st_data_dir s = ''/d''"
    "st_socket_dir s = st_socket_dir demo_settings" by blast
  let ?s = "s\<lparr>st_temporary := False, st_password_file := ''/i/.pgpass''\<rparr>"
  let ?paths = "\<lparr>sp_install_dir = ''/i'', sp_data_dir = ''/d'', sp_password_file = ''/i/.pgpass'',
    sp_install_default = False, sp_data_default = False\<rparr>"
  have port: "ensure_root_port bind (s\<lparr>st_temporary := False\<rparr>) = Inr (s\<lparr>st_temporary := False\<rparr>)" for bind
    using s(2) by (simp add: ensure_root_port_def)
  have user: "nix_user_from_name noop_ext n w = Inr (Some nobody)" for n w by (simp add: noop_ext_def)
  have paths: "resolve_settings_paths_for_uid boot_cfg uid (s\<lparr>st_temporary := False\<rparr>) = Inr (?paths, ?s)" for uid
    using s(3,4) by (simp add: resolve_settings_paths_for_uid_def settings_paths_from_settings_def boot_cfg_def
      Let_def byte_def join_path_def is_abs_def split: prod.split)
  have pgpass: "ensure_pgpass_for_user noop_ext ''/i/.pgpass'' u w = (Inr (), w)" for u w
  proof -
    have "cap_open_nofollow noop_ext d rel w = Inl NotFound" for d rel by (simp add: noop_ext_def)
    then show ?thesis
      by (simp add: ensure_pgpass_for_user_def noop_ambient boot_components path_parent_def is_absolute_def)
  qed
  have exists: "path_exists boot_world (components ''/z'')"
    by (simp add: path_exists_def metadata_def node_of_def resolve_def boot_components guarded_def boot_world_def
        entry_def entry_at_def root_node_def)
  let ?t = "\<lparr>tz_dir = Some ''/z'', tz_zone = ''UTC''\<rparr>"
  have tz: "prepare_timezone_env boot_world = Inr ?t"
    using exists by (simp add: prepare_timezone_env_def var_os_def env_var_def boot_world_def byte_def)
  have dirs: "\<exists>xdg. root_directories noop_ext ?paths u boot_world = (Inr (xdg, ?t), boot_world)" for u
    by (simp add: root_directories_def ensure_parents_for_paths_def dir_for_user_def make_data_dir_private_def tz
        prepare_xdg_dirs_def ensure_dir_with_mode_def ensure_xdg_dirs_owned_by_user_def pgpass Let_def)
  then obtain xdg where dirs: "root_directories noop_ext ?paths nobody boot_world = (Inr (xdg, ?t), boot_world)"
    by blast
  from root_directories_ok [OF this]
  have xdg: "xdg = \<lparr>xd_home = ''/i'', xd_cache = ''/i/cache'', xd_runtime = ''/i/run''\<rparr>"
    by (simp add: join_path_def is_abs_def)
  have trees: "root_trees noop_ext ?paths u w = Some (Inr (), w)" for u w
    by (simp add: root_trees_def noop_tree)
  show ?thesis
    by (rule that, simp add: orchestrate_bootstrap_def s(1) prepare_bootstrap_def bootstrap_with_root_def port user
        paths dirs trees) (simp_all add: s(3,4,5) boot_cfg_def xdg from_components_def)
qed

theorem bootstrap_mode_matches_privileges_witness:
  "\<exists>b w'. orchestrate_bootstrap noop_ext boot_api TestBootstrap boot_world = Some (Inr b, w') \<and>
     bs_execution_mode b = Subprocess"
proof -
  obtain b where b: "orchestrate_bootstrap noop_ext boot_api TestBootstrap boot_world = Some (Inr b, boot_world)"
    by (rule boot_run)
  moreover have "w_euid boot_world = 0" by (simp add: boot_world_def)
  ultimately show ?thesis using bootstrap_mode_matches_privileges [OF b] by blast
qed

text \<open>
  The prepared settings and environment agree: the password file is \<open>.pgpass\<close> in the
  installation directory, which is also the home; cache and runtime directory are its \<open>cache\<close> and
  \<open>run\<close>. As root the settings are not temporary (the server outlives the worker) and have a port; a
  configured port is kept.
\<close>

theorem bootstrap_paths_agree:
  assumes "orchestrate_bootstrap X A kind w = Some (Inr b, w')"
  shows "consistent_paths (bs_settings b) (bs_environment b) \<and>
    (bs_privileges b = Root \<longrightarrow> \<not> st_temporary (bs_settings b) \<and>
       ((\<forall>h port. ea_bind A h = Inr port \<longrightarrow> port > 0) \<longrightarrow> st_port (bs_settings b) > 0))"
proof -
  from assms obtain cfg s worker mode timeout pb where
    pr: "prepare_bootstrap X (ea_bind A) (bs_privileges b) s cfg w = Some (Inr pb, w')" and
    b: "bs_settings b = pb_settings pb" "bs_environment b = pb_environment pb"
    by (rule orchestrate_ok)
  show ?thesis
  proof (cases "bs_privileges b")
    case Root
    with pr have "bootstrap_with_root X (ea_bind A) s cfg w = Some (Inr pb, w')"
      by (simp add: prepare_bootstrap_def)
    from bootstrap_with_root_ok [OF this] b show ?thesis by (metis bot_nat_0.not_eq_extremum)
  next
    case Unprivileged
    with pr have "bootstrap_unprivileged X s cfg w = (Inr pb, w')" by (simp add: prepare_bootstrap_def)
    from bootstrap_unprivileged_ok [OF this] b Unprivileged show ?thesis by simp
  qed
qed

theorem bootstrap_paths_agree_witness:
  "\<exists>b. orchestrate_bootstrap noop_ext boot_api TestBootstrap boot_world = Some (Inr b, boot_world) \<and>
     \<not> st_temporary (bs_settings b) \<and> consistent_paths (bs_settings b) (bs_environment b)"
proof -
  obtain b where b: "orchestrate_bootstrap noop_ext boot_api TestBootstrap boot_world = Some (Inr b, boot_world)"
    "bs_privileges b = Root"
    by (rule boot_run)
  with bootstrap_paths_agree [OF b(1)] show ?thesis by blast
qed

text \<open>
  After a bootstrap, removing everything means removing the data and the installation directory:
  the rule for an installation root around the password file never applies, neither in process nor
  in the worker.
\<close>

theorem bootstrap_has_no_install_root:
  assumes "orchestrate_bootstrap X A kind w = Some (Inr b, w')"
  shows "cleanup_targets Full (bs_settings b) =
      [components (st_data_dir (bs_settings b)), components (st_installation_dir (bs_settings b))] \<and>
    extract_install_root (bs_settings b) (components (st_installation_dir (bs_settings b))) = Some None"
proof -
  from assms obtain cfg s worker mode timeout pb where
    pr: "prepare_bootstrap X (ea_bind A) (bs_privileges b) s cfg w = Some (Inr pb, w')" and
    b: "bs_settings b = pb_settings pb" "bs_environment b = pb_environment pb"
    by (rule orchestrate_ok)
  have c: "consistent_paths (bs_settings b) (bs_environment b)"
  proof (cases "bs_privileges b")
    case Root
    with pr have "bootstrap_with_root X (ea_bind A) s cfg w = Some (Inr pb, w')"
      by (simp add: prepare_bootstrap_def)
    from bootstrap_with_root_ok [OF this] b show ?thesis by metis
  next
    case Unprivileged
    with pr have "bootstrap_unprivileged X s cfg w = (Inr pb, w')" by (simp add: prepare_bootstrap_def)
    from bootstrap_unprivileged_ok [OF this] b show ?thesis by simp
  qed
  have u: "utf8_valid (st_password_file (bs_settings b))"
    using c utf8_valid_join [of "st_installation_dir (bs_settings b)" "''.pgpass''"]
    by (simp add: consistent_paths_def byte_def)
  from consistent_no_install_root [OF c] u show ?thesis
    by (simp add: cleanup_targets_def should_remove_data_def should_remove_install_def
        should_remove_install_root_def extract_install_root_def)
qed

theorem bootstrap_has_no_install_root_witness:
  "\<exists>b. orchestrate_bootstrap noop_ext boot_api TestBootstrap boot_world = Some (Inr b, boot_world) \<and>
     length (cleanup_targets Full (bs_settings b)) = 2"
proof -
  obtain b where b: "orchestrate_bootstrap noop_ext boot_api TestBootstrap boot_world = Some (Inr b, boot_world)"
    by (rule boot_run)
  with bootstrap_has_no_install_root [OF b] show ?thesis by force
qed

text \<open>
  Nothing is touched before the plan stands: when the backend, the configuration, the version,
  the worker, the mode or the shutdown timeout is rejected, or when a directory of an ordinary user is
  not UTF-8, the bootstrap ends with the error in the world it started from.
\<close>

theorem bootstrap_rejects_before_effects:
  shows "(\<forall>e. bootstrap_plan X A kind w = Inl e \<longrightarrow> orchestrate_bootstrap X A kind w = Some (Inl e, w)) \<and>
    (\<forall>e s cfg. resolve_settings_paths_for_current_user cfg s w = Inl e \<longrightarrow>
       bootstrap_unprivileged X s cfg w = (Inl e, w)) \<and>
    (w_euid w = 0 \<longrightarrow> w_env w ''PG_EMBEDDED_WORKER'' = None \<longrightarrow> w_env w ''PATH'' = None \<longrightarrow>
       (\<exists>e. orchestrate_bootstrap X A kind w = Some (Inl e, w)))"
proof (intro conjI allI impI)
  fix e assume "bootstrap_plan X A kind w = Inl e"
  then show "orchestrate_bootstrap X A kind w = Some (Inl e, w)" by (simp add: orchestrate_bootstrap_def)
next
  fix e s cfg assume "resolve_settings_paths_for_current_user cfg s w = Inl e"
  then show "bootstrap_unprivileged X s cfg w = (Inl e, w)" by (simp add: bootstrap_unprivileged_def)
next
  assume r: "w_euid w = 0" "w_env w ''PG_EMBEDDED_WORKER'' = None" "w_env w ''PATH'' = None"
  have "bootstrap_plan X A kind w \<noteq> Inr (privileges, cfg, s, worker, mode, timeout)"
    for privileges cfg s worker mode timeout
  proof
    assume "bootstrap_plan X A kind w = Inr (privileges, cfg, s, worker, mode, timeout)"
    note p = bootstrap_plan_ok [OF this]
    with r have "privileges = Root" "worker = None"
      by (auto simp: detect_execution_privileges_def worker_binary_from_env_def var_os_def
          discover_worker_from_path_def discover_worker_from_path_value_def)
    with p(3) show False by (simp add: determine_execution_mode_def)
  qed
  then obtain e where "bootstrap_plan X A kind w = Inl e"
    by (cases "bootstrap_plan X A kind w") (metis prod.exhaust)+
  then show "\<exists>e. orchestrate_bootstrap X A kind w = Some (Inl e, w)" by (simp add: orchestrate_bootstrap_def)
qed


definition lone_world :: world where
  "lone_world = boot_world\<lparr>w_env := Map.empty\<rparr>"

theorem bootstrap_rejects_before_effects_witness:
  "\<exists>e. orchestrate_bootstrap noop_ext boot_api TestBootstrap lone_world = Some (Inl e, lone_world)"
proof -
  have "w_euid lone_world = 0 \<and> w_env lone_world ''PG_EMBEDDED_WORKER'' = None \<and> w_env lone_world ''PATH'' = None"
    by (simp add: lone_world_def boot_world_def)
  then show ?thesis
    using bootstrap_rejects_before_effects [of noop_ext boot_api TestBootstrap lone_world] by blast
qed

end
