(* ===== verification/Env_Guard.thy ===== *)
theory Env_Guard
  imports Scoped_Env
begin

text \<open>
  The public face of the environment guards, \<open>src/src/env/mod.rs\<close>, and the bounded change summary it
  logs, \<open>src/src/env/summary.rs\<close>. \<open>scoped_apply\<close> is \<open>ScopedEnv::apply\<close> (with its debug assertion on
  every name before anything else happens) and \<open>scoped_apply_os\<close> is \<open>ScopedEnv::apply_os\<close>.
  The summary functions work on bytes: \<open>utf8_chars\<close> gives the characters, \<open>char_indices\<close> numbers
  them by byte offset. The lemmas show that the summary keeps a prefix of whole characters of
  bounded length and that the count it reports accounts for every change.
\<close>

section \<open>The change summary\<close>

fun char_indices :: "nat \<Rightarrow> string list \<Rightarrow> (nat \<times> string) list" where
  "char_indices i [] = []"
| "char_indices i (ch # chs) = (i, ch) # char_indices (i + length ch) chs"

fun cut_loop :: "nat \<Rightarrow> nat \<Rightarrow> nat option \<Rightarrow> (nat \<times> string) list \<Rightarrow> nat \<times> nat option" where
  "cut_loop max_len cut_at comma [] = (cut_at, comma)"
| "cut_loop max_len cut_at comma ((idx, ch) # rest) =
     (if idx \<ge> max_len then (cut_at, comma)
      else let cut' = idx + length ch in
           cut_loop max_len cut' (if ch = '','' then Some cut' else comma) rest)"

text \<open>\<open>usize::saturating_mul\<close>.\<close>

definition saturating_mul :: "nat \<Rightarrow> nat \<Rightarrow> nat" where
  "saturating_mul a b = min (2 ^ 64 - 1) (a * b)"

definition find_preferred_cut_point :: "string \<Rightarrow> nat \<Rightarrow> nat" where
  "find_preferred_cut_point changes max_len =
     (case cut_loop max_len 0 None (char_indices 0 (utf8_chars changes)) of
        (cut_at, Some pos) \<Rightarrow> if saturating_mul pos 2 > max_len then pos else cut_at
      | (cut_at, None) \<Rightarrow> cut_at)"

definition more_suffix :: "nat \<Rightarrow> string" where
  "more_suffix remaining = ''+ '' @ show_nat remaining @ '' more''"

definition append_truncation_suffix :: "string \<Rightarrow> nat \<Rightarrow> nat \<Rightarrow> string" where
  "append_truncation_suffix truncated shown_changes change_count =
     (if change_count > shown_changes then
        truncated @ (if truncated \<noteq> [] \<and> \<not> suffix '','' truncated then '', '' else []) @
        more_suffix (change_count - shown_changes)
      else if \<not> suffix ''...'' truncated then truncated @ ''...''
      else truncated)"

definition strip_comma :: "string \<Rightarrow> string" where
  "strip_comma s = (if suffix '','' s then butlast s else s)"

definition count_commas :: "string \<Rightarrow> nat" where
  "count_commas s = length (filter (\<lambda>c. c = '','') (utf8_chars s))"

definition kept_changes :: "string \<Rightarrow> nat \<Rightarrow> string" where
  "kept_changes changes max_len =
     trim_end (concat (map snd (takeWhile (\<lambda>(idx, _). idx < find_preferred_cut_point changes max_len)
       (char_indices 0 (utf8_chars changes)))))"

definition truncate_env_changes_summary :: "string \<Rightarrow> nat \<Rightarrow> nat \<Rightarrow> string" where
  "truncate_env_changes_summary changes max_len change_count =
     (if length changes \<le> max_len then changes
      else let truncated = kept_changes changes max_len;
               shown_changes = count_commas (strip_comma truncated) + 1
           in append_truncation_suffix truncated shown_changes change_count)"

definition max_env_changes_summary_len :: nat where
  "max_env_changes_summary_len = 512"

section \<open>The guard's constructors\<close>

text \<open>The summary that \<open>apply_owned_with_state\<close> logs; \<open>lossy\<close> is \<open>OsStr::to_string_lossy\<close>.\<close>

definition env_changes :: "(string \<Rightarrow> string) \<Rightarrow> var_change list \<Rightarrow> string" where
  "env_changes lossy vars = join_with '', ''
     (map (\<lambda>(key, value). lossy key @ ''='' @ (if value \<noteq> None then ''set'' else ''unset'')) vars)"

definition logged_changes :: "(string \<Rightarrow> string) \<Rightarrow> var_change list \<Rightarrow> string" where
  "logged_changes lossy vars =
     truncate_env_changes_summary (env_changes lossy vars) max_env_changes_summary_len (length vars)"

text \<open>A new guard: its index and the number of changes it reports when dropped.\<close>

definition scoped_apply_os :: "nat \<Rightarrow> var_change list \<Rightarrow> scope_state \<Rightarrow> (nat \<times> nat) ctl \<times> scope_state" where
  "scoped_apply_os t vars s =
     (case enter_scope t vars s of
        (Returned index, s1) \<Rightarrow> (Returned (index, length vars), s1)
      | (Panic, s1) \<Rightarrow> (Panic, s1)
      | (WouldBlock, s1) \<Rightarrow> (WouldBlock, s1))"

definition scoped_apply :: "nat \<Rightarrow> var_change list \<Rightarrow> scope_state \<Rightarrow> (nat \<times> nat) ctl \<times> scope_state" where
  "scoped_apply t vars s =
     (if list_ex (\<lambda>(key, _). \<not> (key \<noteq> [] \<and> \<not> contains_equals key)) vars then (Panic, s)
      else scoped_apply_os t vars s)"

definition drop_scoped_env :: "nat \<Rightarrow> nat \<times> nat \<Rightarrow> scope_state \<Rightarrow> unit ctl \<times> scope_state" where
  "drop_scoped_env t guard s = exit_scope t (fst guard) s"

section \<open>Lemmas on the summary\<close>

lemma cut_loop_boundary:
  "cut_loop m i comma (char_indices i cs) = (c, k) \<Longrightarrow> \<forall>x\<in>set cs. length x \<le> 4 \<Longrightarrow> i \<le> m + 3 \<Longrightarrow>
     (\<exists>n. c = i + length (concat (take n cs))) \<and> c \<le> m + 3 \<and>
     (k = comma \<or> (\<exists>n p. k = Some p \<and> p = i + length (concat (take n cs)) \<and> p \<le> m + 3))"
proof (induction cs arbitrary: i comma)
  case Nil
  then show ?case by auto
next
  case (Cons ch cs)
  show ?case
  proof (cases "i \<ge> m")
    case True
    with Cons.prems have "c = i + length (concat (take 0 (ch # cs)))" "c \<le> m + 3" "k = comma" by auto
    then show ?thesis by blast
  next
    case False
    let ?j = "i + length ch"
    let ?comma = "if ch = '','' then Some ?j else comma"
    have l: "cut_loop m ?j ?comma (char_indices ?j cs) = (c, k)"
      using Cons.prems(1) False by (simp add: Let_def)
    have "?j \<le> m + 3" using Cons.prems(2) False by auto
    with Cons.IH [OF l] Cons.prems(2) have
      1: "\<exists>n. c = ?j + length (concat (take n cs))" "c \<le> m + 3" and
      2: "k = ?comma \<or> (\<exists>n p. k = Some p \<and> p = ?j + length (concat (take n cs)) \<and> p \<le> m + 3)"
      by auto
    have shift: "?j + length (concat (take n cs)) = i + length (concat (take (Suc n) (ch # cs)))" for n
      by simp
    have j: "?j = i + length (concat (take 1 (ch # cs)))" by simp
    have k: "k = comma \<or> (\<exists>n p. k = Some p \<and> p = i + length (concat (take n (ch # cs))) \<and> p \<le> m + 3)"
    proof (cases "k = ?comma")
      case True
      show ?thesis
      proof (cases "ch = '',''")
        case True
        with \<open>k = ?comma\<close> have "k = Some ?j" by simp
        with j \<open>?j \<le> m + 3\<close> show ?thesis by blast
      next
        case False
        with \<open>k = ?comma\<close> show ?thesis by simp
      qed
    next
      case False
      with 2 obtain n p where "k = Some p" "p = ?j + length (concat (take n cs))" "p \<le> m + 3" by blast
      then show ?thesis unfolding shift by blast
    qed
    from 1(1) obtain n where "c = ?j + length (concat (take n cs))" ..
    then have "\<exists>n. c = i + length (concat (take n (ch # cs)))" unfolding shift by blast
    with 1(2) k show ?thesis by blast
  qed
qed

lemma take_until_boundary:
  "\<forall>x\<in>set cs. x \<noteq> [] \<Longrightarrow>
   concat (map snd (takeWhile (\<lambda>(idx, _). idx < i + length (concat (take n cs))) (char_indices i cs)))
     = concat (take n cs)"
proof (induction cs arbitrary: i n)
  case (Cons ch cs)
  show ?case
  proof (cases n)
    case (Suc m)
    have "i < i + length (concat (take n (ch # cs)))" using Cons.prems Suc by simp
    moreover have "i + length (concat (take n (ch # cs))) = (i + length ch) + length (concat (take m cs))"
      using Suc by simp
    ultimately show ?thesis
      using Cons.IH [of "i + length ch" m] Cons.prems Suc by (simp add: add.assoc)
  qed simp
qed simp

lemma kept_changes_prefix:
  assumes "utf8_valid changes"
  shows "\<exists>n. kept_changes changes m = trim_end (concat (take n (utf8_chars changes)))
     \<and> length (concat (take n (utf8_chars changes))) \<le> m + 3"
proof -
  let ?cs = "utf8_chars changes"
  obtain c k where l: "cut_loop m 0 None (char_indices 0 ?cs) = (c, k)" by fastforce
  from cut_loop_boundary [OF l utf8_chars_length [OF assms]]
  have "\<exists>n. find_preferred_cut_point changes m = length (concat (take n ?cs)) \<and>
      length (concat (take n ?cs)) \<le> m + 3"
    by (auto simp: find_preferred_cut_point_def l split: option.splits)
  then obtain n where n: "find_preferred_cut_point changes m = length (concat (take n ?cs))"
    "length (concat (take n ?cs)) \<le> m + 3" by blast
  then have "kept_changes changes m = trim_end (concat (take n ?cs))"
    using take_until_boundary [of ?cs 0 n] utf8_chars_nonempty
    by (fastforce simp: kept_changes_def)
  with n(2) show ?thesis by blast
qed

section \<open>Properties\<close>

text \<open>
  The logged summary is the changes themselves when they fit. Otherwise it is a prefix of them
  of at most three bytes over the limit (the character that crosses it is kept whole), followed by
  \<open>...\<close>, by nothing when that is there already, or by the number of changes left out, which
  together with the entries the prefix shows accounts for every change.
\<close>

theorem env_summary_bounded:
  assumes "utf8_valid changes"
  shows "(length changes \<le> m \<longrightarrow> truncate_env_changes_summary changes m n = changes) \<and>
    (m < length changes \<longrightarrow>
      (\<exists>kept sfx. truncate_env_changes_summary changes m n = kept @ sfx \<and>
         prefix kept changes \<and> length kept \<le> m + 3 \<and>
         (sfx \<in> {[], ''...''} \<or>
          (\<exists>left > 0. (sfx = more_suffix left \<or> sfx = '', '' @ more_suffix left) \<and>
             count_commas (strip_comma kept) + 1 + left = n))))"
proof (intro conjI impI)
  assume "length changes \<le> m"
  then show "truncate_env_changes_summary changes m n = changes"
    by (simp add: truncate_env_changes_summary_def)
next
  assume m: "m < length changes"
  let ?cs = "utf8_chars changes" and ?kept = "kept_changes changes m"
  let ?shown = "count_commas (strip_comma ?kept) + 1"
  let ?sfx = "if n > ?shown
      then (if ?kept \<noteq> [] \<and> \<not> suffix '','' ?kept then '', '' else []) @ more_suffix (n - ?shown)
      else if suffix ''...'' ?kept then [] else ''...''"
  obtain i where i: "?kept = trim_end (concat (take i ?cs))" "length (concat (take i ?cs)) \<le> m + 3"
    using kept_changes_prefix [OF assms] by blast
  have "prefix (concat (take i ?cs)) (concat (take i ?cs) @ concat (drop i ?cs))" by simp
  then have p: "prefix (concat (take i ?cs)) changes"
    by (metis append_take_drop_id concat_append concat_utf8_chars)
  have pre: "prefix ?kept changes"
    using prefix_order.trans [OF trim_end_prefix p] i(1) by simp
  have len: "length ?kept \<le> m + 3"
    using trim_end_length [of "concat (take i ?cs)"] i by simp
  have eq: "truncate_env_changes_summary changes m n = ?kept @ ?sfx"
    using m by (simp add: truncate_env_changes_summary_def append_truncation_suffix_def Let_def)
  have "?sfx \<in> {[], ''...''} \<or> (\<exists>left > 0. (?sfx = more_suffix left \<or> ?sfx = '', '' @ more_suffix left) \<and>
      ?shown + left = n)"
  proof (cases "n > ?shown")
    case True
    then show ?thesis by (intro disjI2 exI [of _ "n - ?shown"]) auto
  qed simp
  with eq pre len show "\<exists>kept sfx. truncate_env_changes_summary changes m n = kept @ sfx \<and>
         prefix kept changes \<and> length kept \<le> m + 3 \<and>
         (sfx \<in> {[], ''...''} \<or>
          (\<exists>left > 0. (sfx = more_suffix left \<or> sfx = '', '' @ more_suffix left) \<and>
             count_commas (strip_comma kept) + 1 + left = n))"
    by blast
qed

lemma ascii_valid: "list_all (\<lambda>c. byte c < 128) s \<Longrightarrow> utf8_valid s"
  by (induction s) auto

theorem env_summary_bounded_witness:
  "\<exists>kept sfx. truncate_env_changes_summary ''ALPHA=set, BETA=unset, GAMMA=set'' 16 3 = kept @ sfx \<and>
     prefix kept ''ALPHA=set, BETA=unset, GAMMA=set'' \<and> length kept \<le> 19"
proof -
  have "utf8_valid ''ALPHA=set, BETA=unset, GAMMA=set''"
    by (rule ascii_valid) (simp add: byte_def)
  moreover have "(16::nat) < length ''ALPHA=set, BETA=unset, GAMMA=set''" by simp
  ultimately show ?thesis
    using env_summary_bounded [of "''ALPHA=set, BETA=unset, GAMMA=set''" 16 3] by auto
qed

text \<open>
  \<open>ScopedEnv::apply\<close> checks every name before it takes the mutex, so a bad name leaves the
  thread and the process as they were; with valid names and values it is \<open>apply_os\<close>, and on a
  thread in order the only other outcome is waiting for the mutex.
\<close>

theorem scoped_apply_checks_first:
  assumes inv: "scope_inv t s"
  shows "(list_ex (\<lambda>(key, _). \<not> validate_env_key key) vars \<longrightarrow> scoped_apply t vars s = (Panic, s)) \<and>
    (list_all valid_var vars \<longrightarrow> scoped_apply t vars s = scoped_apply_os t vars s \<and>
       (fst (scoped_apply t vars s) = WouldBlock \<or>
        (\<exists>i s1. scoped_apply t vars s = (Returned (i, length vars), s1) \<and>
           pr_env (fst s1) = override_env (pr_env (fst s)) vars)))"
proof (intro conjI impI)
  assume "list_ex (\<lambda>(key, _). \<not> validate_env_key key) vars"
  then show "scoped_apply t vars s = (Panic, s)"
    by (simp add: scoped_apply_def validate_env_key_def)
next
  assume v: "list_all valid_var vars"
  then have "\<not> list_ex (\<lambda>(key, _). \<not> (key \<noteq> [] \<and> \<not> contains_equals key)) vars"
    by (auto simp: list_ex_iff list_all_iff valid_var_def validate_env_key_def)
  then show eq: "scoped_apply t vars s = scoped_apply_os t vars s"
    unfolding scoped_apply_def by (simp only: if_False)
  obtain p ts where s: "s = (p, ts)" by (cases s)
  show "fst (scoped_apply t vars s) = WouldBlock \<or>
      (\<exists>i s1. scoped_apply t vars s = (Returned (i, length vars), s1) \<and>
         pr_env (fst s1) = override_env (pr_env (fst s)) vars)"
  proof -
    obtain saved where lp: "apply_loop vars [] (pr_env p) = (Returned saved, override_env (pr_env p) vars)"
      using apply_loop_valid [OF v] by blast
    from inv [unfolded s] show ?thesis
    proof (cases rule: acquire_cases)
      case held
      then show ?thesis using lp
        by (simp add: eq [unfolded s] s scoped_apply_os_def enter_scope_def apply_env_vars_def)
    next
      case taken
      then show ?thesis using lp
        by (simp add: eq [unfolded s] s scoped_apply_os_def enter_scope_def apply_env_vars_def)
    next
      case blocked
      then show ?thesis by (simp add: eq [unfolded s] s scoped_apply_os_def enter_scope_def)
    qed
  qed
qed

theorem scoped_apply_checks_first_witness:
  "scoped_apply 0 [(''A'', Some ''1''), (''B=C'', None)] (demo_proc, new_thread_state)
     = (Panic, (demo_proc, new_thread_state)) \<and>
   scope_inv 0 (demo_proc, new_thread_state)"
proof -
  have i: "scope_inv 0 (demo_proc, new_thread_state)"
    by (rule scope_inv_new) (simp add: demo_proc_def)
  have "list_ex (\<lambda>(key, _). \<not> validate_env_key key) [(''A'', Some ''1''), (''B=C'', None)]"
    by (simp add: validate_env_key_def contains_equals_def)
  with scoped_apply_checks_first [OF i, of "[(''A'', Some ''1''), (''B=C'', None)]"] i
  show ?thesis by blast
qed

end
