(* ===== verification/Cluster_Start.thy ===== *)
theory Cluster_Start
  imports Pg_Worker Cache_Use Bootstrap_Prepare Env_Guard
begin

text \<open>
  Starting a cluster: who runs a lifecycle operation (\<open>src/src/cluster/worker_invoker/mod.rs\<close>), the order
  of the start with its cache (\<open>startup.rs\<close>), synchronous and asynchronous, and \<open>TestCluster::new_split\<close>
  (\<open>mod.rs\<close>), which ties the bootstrap, the cache, the scoped environment and the start together, and the
  setup-only path of the command line. Log events and spans are left out. A runtime that is
  already active, the helper threads it takes and panics of the server library are the subject of
  \<open>Nested_Runtime\<close>, which shows that what is defined here holds there as well.
\<close>

section \<open>What comes from outside\<close>

text \<open>
  A future works on the server it has captured, if it has captured one; that of a root process has not and
  does nothing. \<open>ca_timeout\<close> is \<open>tokio::time::timeout\<close> run to its end: \<open>None\<close> when the time was over
  first. \<open>ca_later w i\<close> is the world that the \<open>i\<close>-th attempt at the port sees.
\<close>

type_synonym 'g future = "'g option \<Rightarrow> world \<Rightarrow> (pg_error + unit) \<times> 'g option \<times> world"

record ('h, 'c, 'g, 'v) cluster_api =
  ca_ext :: "'h ext"
  ca_env :: environment_api
  ca_process :: "'c process_api"
  ca_skip :: nat
  ca_pg :: "'g postgres_api"
  ca_show_pg :: "pg_error \<Rightarrow> string"
  ca_show_secs :: "duration \<Rightarrow> string"
  ca_versions :: "'v version_api"
  ca_home_dir :: "world \<Rightarrow> pathbuf option"
  ca_flock_shared :: "io_kind option list"
  ca_flock_exclusive :: "io_kind option list"
  ca_later :: "world \<Rightarrow> nat \<Rightarrow> world"
  ca_build_runtime :: "world \<Rightarrow> io_kind + unit"
  ca_timeout :: "duration \<Rightarrow> 'g future \<Rightarrow> 'g option \<Rightarrow> world \<Rightarrow> (pg_error + unit) option \<times> 'g option \<times> world"

definition server_call :: "('g \<Rightarrow> world \<Rightarrow> (pg_error + unit) \<times> 'g \<times> world) \<Rightarrow> 'g future" where
  "server_call f s w = (case s of None \<Rightarrow> (Inr (), None, w) | Some g \<Rightarrow> (case f g w of (r, g', w') \<Rightarrow> (r, Some g', w')))"

definition drop_server :: "'g postgres_api \<Rightarrow> 'g option \<Rightarrow> world \<Rightarrow> world" where
  "drop_server PG s w = (case s of None \<Rightarrow> w | Some g \<Rightarrow> pg_drop PG g w)"

definition build_cluster_runtime :: "('h, 'c, 'g, 'v) cluster_api \<Rightarrow> world \<Rightarrow> bootstrap_error + unit" where
  "build_cluster_runtime A w =
     map_err (\<lambda>k. bootstrap_from_report (Ctx ''failed to create Tokio runtime for TestCluster'' (IoErr k)))
       (ca_build_runtime A w)"

section \<open>Invoking an operation\<close>

type_synonym 'g invoked = "(bootstrap_error + unit) \<times> 'g option \<times> world"

definition spawn_worker_inner ::
  "('h, 'c, 'g, 'v) cluster_api \<Rightarrow> bootstrap_settings \<Rightarrow> env_vars \<Rightarrow> worker_operation \<Rightarrow> world \<Rightarrow> unit boot_run" where
  "spawn_worker_inner A b env_vars oper w =
     (case bs_worker_binary b of
        None \<Rightarrow> (Inl (bootstrap_msg (''pg_worker binary not found. Install it with 'cargo install --path . --bin pg_worker' ''
          @ ''and ensure it is in PATH, or set PG_EMBEDDED_WORKER to its absolute path'')), w)
      | Some worker \<Rightarrow>
          run_process (ca_ext A) (ca_skip A) (ca_process A)
            \<lparr>wr_worker = worker, wr_settings = bs_settings b, wr_env_vars = env_vars, wr_operation = oper,
             wr_timeout = op_timeout oper b\<rparr> w)"

definition execute_root_operation ::
  "('h, 'c, 'g, 'v) cluster_api \<Rightarrow> bootstrap_settings \<Rightarrow> env_vars \<Rightarrow> worker_operation \<Rightarrow> world \<Rightarrow> unit boot_run" where
  "execute_root_operation A b env_vars oper w =
     (case bs_execution_mode b of
        InProcess \<Rightarrow> (Inl (bootstrap_msg (''ExecutionMode::InProcess is unsafe for root because process-wide ''
          @ ''UID/GID changes race in multi-threaded tests; switch to ExecutionMode::Subprocess'')), w)
      | Subprocess \<Rightarrow> spawn_worker_inner A b env_vars oper w)"

definition invoke_as_root ::
  "('h, 'c, 'g, 'v) cluster_api \<Rightarrow> bootstrap_settings \<Rightarrow> env_vars \<Rightarrow> worker_operation \<Rightarrow> world \<Rightarrow> unit boot_run" where
  "invoke_as_root A b env_vars oper w = execute_root_operation A b env_vars oper w"

definition timeout_error :: "('h, 'c, 'g, 'v) cluster_api \<Rightarrow> string \<Rightarrow> duration \<Rightarrow> bootstrap_error" where
  "timeout_error A ctx timeout =
     bootstrap_msg (ctx @ '': operation timed out after '' @ ca_show_secs A timeout @ ''s'')"

definition run_with_timeout ::
  "('h, 'c, 'g, 'v) cluster_api \<Rightarrow> duration \<Rightarrow> 'g future \<Rightarrow> 'g option \<Rightarrow> world \<Rightarrow>
     (pg_error + unit) option \<times> 'g option \<times> world" where
  "run_with_timeout A timeout future s w = ca_timeout A timeout future s w"

definition invoke_unprivileged ::
  "('h, 'c, 'g, 'v) cluster_api \<Rightarrow> 'g future \<Rightarrow> string \<Rightarrow> duration \<Rightarrow> 'g option \<Rightarrow> world \<Rightarrow> 'g invoked" where
  "invoke_unprivileged A future ctx timeout s w =
     (case run_with_timeout A timeout future s w of
        (None, s', w') \<Rightarrow> (Inl (timeout_error A ctx timeout), s', w')
      | (Some (Inl e), s', w') \<Rightarrow> (Inl (bootstrap_from_report (Ctx ctx (Msg (ca_show_pg A e)))), s', w')
      | (Some (Inr _), s', w') \<Rightarrow> (Inr (), s', w'))"

definition run_unprivileged ::
  "('h, 'c, 'g, 'v) cluster_api \<Rightarrow> bootstrap_settings \<Rightarrow> worker_operation \<Rightarrow> 'g future \<Rightarrow> 'g option \<Rightarrow> world \<Rightarrow>
     'g invoked" where
  "run_unprivileged A b oper future s w =
     invoke_unprivileged A future (op_error_context oper) (op_timeout oper b) s w"

definition run_root ::
  "('h, 'c, 'g, 'v) cluster_api \<Rightarrow> bootstrap_settings \<Rightarrow> env_vars \<Rightarrow> worker_operation \<Rightarrow> 'g option \<Rightarrow> world \<Rightarrow>
     'g invoked" where
  "run_root A b env_vars oper s w = (case invoke_as_root A b env_vars oper w of (r, w') \<Rightarrow> (r, s, w'))"

definition dispatch_operation ::
  "('h, 'c, 'g, 'v) cluster_api \<Rightarrow> bootstrap_settings \<Rightarrow> env_vars \<Rightarrow> worker_operation \<Rightarrow> 'g future \<Rightarrow> 'g option \<Rightarrow>
     world \<Rightarrow> 'g invoked" where
  "dispatch_operation A b env_vars oper future s w =
     (case bs_privileges b of
        Unprivileged \<Rightarrow> run_unprivileged A b oper future s w
      | Root \<Rightarrow> run_root A b env_vars oper s w)"

text \<open>\<open>WorkerInvoker::invoke\<close>: the dispatch, and a log event.\<close>

definition invoke ::
  "('h, 'c, 'g, 'v) cluster_api \<Rightarrow> bootstrap_settings \<Rightarrow> env_vars \<Rightarrow> worker_operation \<Rightarrow> 'g future \<Rightarrow> 'g option \<Rightarrow>
     world \<Rightarrow> 'g invoked" where
  "invoke A b env_vars oper future s w = dispatch_operation A b env_vars oper future s w"

section \<open>The lifecycle\<close>

datatype lifecycle_step = SetupStep | StartStep

fun step_operation :: "lifecycle_step \<Rightarrow> worker_operation" where
  "step_operation SetupStep = OpSetup"
| "step_operation StartStep = OpStart"

definition invoke_root_operation ::
  "('h, 'c, 'g, 'v) cluster_api \<Rightarrow> bootstrap_settings \<Rightarrow> env_vars \<Rightarrow> lifecycle_step \<Rightarrow> world \<Rightarrow> unit boot_run" where
  "invoke_root_operation A b env_vars step w = invoke_as_root A b env_vars (step_operation step) w"

definition invoke_unprivileged_operation ::
  "('h, 'c, 'g, 'v) cluster_api \<Rightarrow> bootstrap_settings \<Rightarrow> env_vars \<Rightarrow> lifecycle_step \<Rightarrow> 'g option \<Rightarrow> world \<Rightarrow>
     'g invoked" where
  "invoke_unprivileged_operation A b env_vars step s w =
     (case step of
        SetupStep \<Rightarrow> invoke A b env_vars OpSetup (server_call (pg_setup (ca_pg A))) s w
      | StartStep \<Rightarrow> invoke A b env_vars OpStart (server_call (pg_start (ca_pg A))) s w)"

definition invoke_lifecycle_root ::
  "('h, 'c, 'g, 'v::linorder) cluster_api \<Rightarrow> bootstrap_settings \<Rightarrow> env_vars \<Rightarrow> world \<Rightarrow> bootstrap_settings boot_run" where
  "invoke_lifecycle_root A b env_vars w =
     try_st (invoke_root_operation A b env_vars SetupStep w) (\<lambda>_ w1.
     let b1 = refresh_worker_installation_dir (ca_versions A) b w1 in
     try_st (invoke_root_operation A b1 env_vars StartStep w1) (\<lambda>_ w2.
     case refresh_worker_port (ca_later A w2) b1 of
       (Inl e, _) \<Rightarrow> (Inl e, w2)
     | (Inr _, b2) \<Rightarrow> (Inr b2, w2)))"

definition invoke_lifecycle ::
  "('h, 'c, 'g, 'v::linorder) cluster_api \<Rightarrow> bootstrap_settings \<Rightarrow> env_vars \<Rightarrow> 'g option \<Rightarrow> world \<Rightarrow>
     (bootstrap_error + bootstrap_settings) \<times> 'g option \<times> world" where
  "invoke_lifecycle A b env_vars s w =
     (case invoke_unprivileged_operation A b env_vars SetupStep s w of
        (Inl e, s1, w1) \<Rightarrow> (Inl e, s1, w1)
      | (Inr _, s1, w1) \<Rightarrow>
          let b1 = refresh_worker_installation_dir (ca_versions A) b w1 in
          (case invoke_unprivileged_operation A b1 env_vars StartStep s1 w1 of
             (Inl e, s2, w2) \<Rightarrow> (Inl e, s2, w2)
           | (Inr _, s2, w2) \<Rightarrow>
               (case refresh_worker_port (ca_later A w2) b1 of
                  (Inl e, _) \<Rightarrow> (Inl e, s2, w2)
                | (Inr _, b2) \<Rightarrow> (Inr b2, s2, w2))))"

definition prepare_postgres_handle ::
  "'g postgres_api \<Rightarrow> bool \<Rightarrow> bootstrap_settings \<Rightarrow> 'g option \<Rightarrow> 'g option \<times> bootstrap_settings" where
  "prepare_postgres_handle PG is_managed_via_worker b embedded =
     (if is_managed_via_worker then (None, b)
      else case embedded of
        None \<Rightarrow> (None, b)
      | Some g \<Rightarrow> (Some g, b\<lparr>bs_settings := pg_settings PG g\<rparr>))"

text \<open>On an error the server of the process goes out of scope.\<close>

definition handle_privilege_lifecycle ::
  "('h, 'c, 'g, 'v::linorder) cluster_api \<Rightarrow> execution_privileges \<Rightarrow> bootstrap_settings \<Rightarrow> env_vars \<Rightarrow> world \<Rightarrow>
     (bool \<times> 'g option \<times> bootstrap_settings) boot_run" where
  "handle_privilege_lifecycle A privileges b env_vars w =
     (if privileges = Root then
        try_st (invoke_lifecycle_root A b env_vars w) (\<lambda>b' w'. (Inr (True, None, b'), w'))
      else
        (case invoke_lifecycle A b env_vars (Some (pg_new (ca_pg A) (bs_settings b))) w of
           (Inl e, s, w') \<Rightarrow> (Inl e, drop_server (ca_pg A) s w')
         | (Inr b', s, w') \<Rightarrow>
             (case prepare_postgres_handle (ca_pg A) False b' s of
                (postgres, b'') \<Rightarrow> (Inr (False, postgres, b''), w'))))"

section \<open>The start with the cache\<close>

record 'g startup_outcome =
  so_bootstrap :: bootstrap_settings
  so_postgres :: "'g option"
  so_managed :: bool

definition cache_config_from_bootstrap ::
  "('h, 'c, 'g, 'v) cluster_api \<Rightarrow> bootstrap_settings \<Rightarrow> world \<Rightarrow> pathbuf" where
  "cache_config_from_bootstrap A b w =
     (case bs_binary_cache_dir b of
        Some dir \<Rightarrow> dir
      | None \<Rightarrow> resolve_cache_dir (ea_lossy (ca_env A)) (ca_home_dir A) w)"

definition populate_cache_on_miss ::
  "('h, 'c, 'g, 'v::linorder) cluster_api \<Rightarrow> bool \<Rightarrow> pathbuf \<Rightarrow> bootstrap_settings \<Rightarrow> world \<Rightarrow> world option" where
  "populate_cache_on_miss A cache_hit cache_dir b w =
     (if cache_hit then Some w
      else try_populate_binary_cache (ca_versions A) (ca_flock_exclusive A) cache_dir (bs_settings b) w)"

text \<open>\<open>None\<close> when a lock is waited for that is never given.\<close>

type_synonym 'a cluster_run = "((bootstrap_error + 'a) \<times> world) option"

definition start_postgres ::
  "('h, 'c, 'g, 'v::linorder) cluster_api \<Rightarrow> bootstrap_settings \<Rightarrow> env_vars \<Rightarrow> pathbuf \<Rightarrow> world \<Rightarrow>
     'g startup_outcome cluster_run" where
  "start_postgres A b env_vars cache_dir w =
     (let privileges = bs_privileges b; version_req = st_version (bs_settings b) in
      case try_use_binary_cache (ca_versions A) (ca_flock_shared A) cache_dir version_req b w of
        None \<Rightarrow> None
      | Some ((cache_hit, b1), w1) \<Rightarrow>
          (case handle_privilege_lifecycle A privileges b1 env_vars w1 of
             (Inl e, w2) \<Rightarrow> Some (Inl e, w2)
           | (Inr (is_managed_via_worker, postgres, b2), w2) \<Rightarrow>
               map_option (\<lambda>w3. (Inr \<lparr>so_bootstrap = b2, so_postgres = postgres, so_managed = is_managed_via_worker\<rparr>, w3))
                 (populate_cache_on_miss A cache_hit cache_dir b2 w2)))"

section \<open>The setup-only path\<close>

definition setup_with_privileges ::
  "('h, 'c, 'g, 'v) cluster_api \<Rightarrow> execution_privileges \<Rightarrow> bootstrap_settings \<Rightarrow> env_vars \<Rightarrow> world \<Rightarrow> unit boot_run" where
  "setup_with_privileges A privileges b env_vars w =
     (if privileges = Root then invoke_root_operation A b env_vars SetupStep w
      else (case invoke_unprivileged_operation A b env_vars SetupStep (Some (pg_new (ca_pg A) (bs_settings b))) w of
          (r, s, w') \<Rightarrow> (r, drop_server (ca_pg A) s w')))"

definition setup_lifecycle ::
  "('h, 'c, 'g, 'v::linorder) cluster_api \<Rightarrow> bootstrap_settings \<Rightarrow> env_vars \<Rightarrow> pathbuf \<Rightarrow> world \<Rightarrow>
     bootstrap_settings cluster_run" where
  "setup_lifecycle A b env_vars cache_dir w =
     (let privileges = bs_privileges b; version_req = st_version (bs_settings b) in
      case try_use_binary_cache (ca_versions A) (ca_flock_shared A) cache_dir version_req b w of
        None \<Rightarrow> None
      | Some ((cache_hit, b1), w1) \<Rightarrow>
          (case setup_with_privileges A privileges b1 env_vars w1 of
             (Inl e, w2) \<Rightarrow> Some (Inl e, w2)
           | (Inr _, w2) \<Rightarrow>
               let b2 = refresh_worker_installation_dir (ca_versions A) b1 w2 in
               map_option (\<lambda>w3. (Inr b2, w3)) (populate_cache_on_miss A cache_hit cache_dir b2 w2)))"

section \<open>The asynchronous start\<close>

definition invoke_unprivileged_async ::
  "('h, 'c, 'g, 'v) cluster_api \<Rightarrow> 'g future \<Rightarrow> string \<Rightarrow> duration \<Rightarrow> 'g option \<Rightarrow> world \<Rightarrow> 'g invoked" where
  "invoke_unprivileged_async A future ctx timeout s w =
     (case ca_timeout A timeout future s w of
        (None, s', w') \<Rightarrow> (Inl (timeout_error A ctx timeout), s', w')
      | (Some (Inl e), s', w') \<Rightarrow> (Inl (bootstrap_from_report (Ctx ctx (Msg (ca_show_pg A e)))), s', w')
      | (Some (Inr _), s', w') \<Rightarrow> (Inr (), s', w'))"

definition dispatch_operation_async ::
  "('h, 'c, 'g, 'v) cluster_api \<Rightarrow> bootstrap_settings \<Rightarrow> env_vars \<Rightarrow> worker_operation \<Rightarrow> 'g future \<Rightarrow> 'g option \<Rightarrow>
     world \<Rightarrow> 'g invoked" where
  "dispatch_operation_async A b env_vars oper future s w =
     (case bs_privileges b of
        Unprivileged \<Rightarrow> invoke_unprivileged_async A future (op_error_context oper) (op_timeout oper b) s w
      | Root \<Rightarrow> (case execute_root_operation A b env_vars oper w of (r, w') \<Rightarrow> (r, s, w')))"

text \<open>Both asynchronous lifecycles go through \<open>AsyncInvoker::invoke\<close>; that of root hands it futures that do
  nothing.\<close>

definition invoke_lifecycle_steps_async ::
  "('h, 'c, 'g, 'v::linorder) cluster_api \<Rightarrow> 'g future \<Rightarrow> 'g future \<Rightarrow> bootstrap_settings \<Rightarrow> env_vars \<Rightarrow> 'g option \<Rightarrow>
     world \<Rightarrow> (bootstrap_error + bootstrap_settings) \<times> 'g option \<times> world" where
  "invoke_lifecycle_steps_async A setup start b env_vars s w =
     (case dispatch_operation_async A b env_vars OpSetup setup s w of
        (Inl e, s1, w1) \<Rightarrow> (Inl e, s1, w1)
      | (Inr _, s1, w1) \<Rightarrow>
          let b1 = refresh_worker_installation_dir (ca_versions A) b w1 in
          (case dispatch_operation_async A b1 env_vars OpStart start s1 w1 of
             (Inl e, s2, w2) \<Rightarrow> (Inl e, s2, w2)
           | (Inr _, s2, w2) \<Rightarrow>
               (case refresh_worker_port (ca_later A w2) b1 of
                  (Inl e, _) \<Rightarrow> (Inl e, s2, w2)
                | (Inr _, b2) \<Rightarrow> (Inr b2, s2, w2))))"

definition invoke_lifecycle_async where
  "invoke_lifecycle_async A b env_vars s w =
     invoke_lifecycle_steps_async A (server_call (pg_setup (ca_pg A))) (server_call (pg_start (ca_pg A))) b env_vars s w"

definition invoke_lifecycle_root_async where
  "invoke_lifecycle_root_async A b env_vars w =
     (case invoke_lifecycle_steps_async A (\<lambda>s w. (Inr (), s, w)) (\<lambda>s w. (Inr (), s, w)) b env_vars None w of
        (r, _, w') \<Rightarrow> (r, w'))"

definition start_postgres_async ::
  "('h, 'c, 'g, 'v::linorder) cluster_api \<Rightarrow> bootstrap_settings \<Rightarrow> env_vars \<Rightarrow> pathbuf \<Rightarrow> world \<Rightarrow>
     'g startup_outcome cluster_run" where
  "start_postgres_async A b env_vars cache_dir w =
     (let privileges = bs_privileges b; version_req = st_version (bs_settings b) in
      case try_use_binary_cache (ca_versions A) (ca_flock_shared A) cache_dir version_req b w of
        None \<Rightarrow> None
      | Some ((cache_hit, b1), w1) \<Rightarrow>
          (case
            (if privileges = Root then
               try_st (invoke_lifecycle_root_async A b1 env_vars w1) (\<lambda>b2 w2. (Inr (True, None, b2), w2))
             else
               (case invoke_lifecycle_async A b1 env_vars (Some (pg_new (ca_pg A) (bs_settings b1))) w1 of
                  (Inl e, s, w2) \<Rightarrow> (Inl e, drop_server (ca_pg A) s w2)
                | (Inr b2, s, w2) \<Rightarrow>
                    (case prepare_postgres_handle (ca_pg A) False b2 s of
                       (postgres, b3) \<Rightarrow> (Inr (False, postgres, b3), w2))))
           of
             (Inl e, w2) \<Rightarrow> Some (Inl e, w2)
           | (Inr (is_managed_via_worker, postgres, b2), w2) \<Rightarrow>
               map_option (\<lambda>w3. (Inr \<lparr>so_bootstrap = b2, so_postgres = postgres, so_managed = is_managed_via_worker\<rparr>, w3))
                 (populate_cache_on_miss A cache_hit cache_dir b2 w2)))"

section \<open>The cluster\<close>

datatype cluster_runtime = SyncRuntime | AsyncRuntime

definition runtime_is_async :: "cluster_runtime \<Rightarrow> bool" where
  "runtime_is_async r \<longleftrightarrow> r = AsyncRuntime"

record 'g cluster_guard =
  cg_runtime :: cluster_runtime
  cg_postgres :: "'g option"
  cg_bootstrap :: bootstrap_settings
  cg_managed :: bool
  cg_env_vars :: env_vars
  cg_worker_guard :: "(nat \<times> nat) option"
  cg_env_guard :: "nat \<times> nat"

text \<open>The handle is its bootstrap settings.\<close>

record cluster_handle =
  ch_bootstrap :: bootstrap_settings

text \<open>The variables of the process are those of the state the scoped guards work on.\<close>

definition with_env :: "scope_state \<Rightarrow> world \<Rightarrow> world" where
  "with_env s w = w\<lparr>w_env := pr_env (fst s)\<rparr>"

type_synonym 'a scoped_run = "('a ctl \<times> scope_state \<times> world) option"

text \<open>Leaving a function while a guard is in scope: the guard is dropped, and panics only if that does.\<close>

definition leave_scope ::
  "nat \<Rightarrow> nat \<times> nat \<Rightarrow> 'a \<Rightarrow> scope_state \<Rightarrow> world \<Rightarrow> 'a ctl \<times> scope_state \<times> world" where
  "leave_scope t guard x s w =
     (case drop_scoped_env t guard s of
        (Returned _, s') \<Rightarrow> (Returned x, s', with_env s' w)
      | (Panic, s') \<Rightarrow> (Panic, s', with_env s' w)
      | (WouldBlock, s') \<Rightarrow> (WouldBlock, s', with_env s' w))"

text \<open>The guard and what runs under it, after the bootstrap; \<open>start\<close> is the start, of either kind.\<close>

definition start_in_scope ::
  "(bootstrap_settings \<Rightarrow> env_vars \<Rightarrow> pathbuf \<Rightarrow> world \<Rightarrow> 'g startup_outcome cluster_run) \<Rightarrow> cluster_runtime \<Rightarrow>
     nat \<Rightarrow> pathbuf \<Rightarrow> bootstrap_settings \<Rightarrow> scope_state \<Rightarrow> world \<Rightarrow>
     (bootstrap_error + cluster_handle \<times> 'g cluster_guard) scoped_run" where
  "start_in_scope start rt t cache_dir b s w =
     (let env_vars = to_env (bs_environment b) in
      case scoped_apply t env_vars s of
        (Panic, s1) \<Rightarrow> Some (Panic, s1, with_env s1 w)
      | (WouldBlock, s1) \<Rightarrow> Some (WouldBlock, s1, with_env s1 w)
      | (Returned env_guard, s1) \<Rightarrow>
          (case start b env_vars cache_dir (with_env s1 w) of
             None \<Rightarrow> None
           | Some (Inl e, w2) \<Rightarrow> Some (leave_scope t env_guard (Inl e) s1 w2)
           | Some (Inr outcome, w2) \<Rightarrow>
               Some (Returned (Inr (\<lparr>ch_bootstrap = so_bootstrap outcome\<rparr>,
                 \<lparr>cg_runtime = rt, cg_postgres = so_postgres outcome, cg_bootstrap = so_bootstrap outcome,
                  cg_managed = so_managed outcome, cg_env_vars = env_vars, cg_worker_guard = None,
                  cg_env_guard = env_guard\<rparr>)), s1, w2)))"

definition new_split ::
  "('h, 'c, 'g, 'v::linorder) cluster_api \<Rightarrow> nat \<Rightarrow> scope_state \<Rightarrow> world \<Rightarrow>
     (bootstrap_error + cluster_handle \<times> 'g cluster_guard) scoped_run" where
  "new_split A t s w =
     (case bootstrap_for_tests (ca_ext A) (ca_env A) (with_env s w) of
        None \<Rightarrow> None
      | Some (Inl e, w1) \<Rightarrow> Some (Returned (Inl e), s, w1)
      | Some (Inr b, w1) \<Rightarrow>
          let cache_dir = cache_config_from_bootstrap A b w1 in
          (case build_cluster_runtime A w1 of
             Inl e \<Rightarrow> Some (Returned (Inl e), s, w1)
           | Inr _ \<Rightarrow> start_in_scope (start_postgres A) SyncRuntime t cache_dir b s w1))"

definition start_async_split ::
  "('h, 'c, 'g, 'v::linorder) cluster_api \<Rightarrow> nat \<Rightarrow> scope_state \<Rightarrow> world \<Rightarrow>
     (bootstrap_error + cluster_handle \<times> 'g cluster_guard) scoped_run" where
  "start_async_split A t s w =
     (case bootstrap_for_tests (ca_ext A) (ca_env A) (with_env s w) of
        None \<Rightarrow> None
      | Some (Inl e, w1) \<Rightarrow> Some (Returned (Inl e), s, w1)
      | Some (Inr b, w1) \<Rightarrow>
          let cache_dir = cache_config_from_bootstrap A b w1 in
          start_in_scope (start_postgres_async A) AsyncRuntime t cache_dir b s w1)"

text \<open>\<open>setup_postgres_only\<close> holds the guard until it returns.\<close>

definition setup_postgres_only ::
  "('h, 'c, 'g, 'v::linorder) cluster_api \<Rightarrow> nat \<Rightarrow> bootstrap_settings \<Rightarrow> scope_state \<Rightarrow> world \<Rightarrow>
     (bootstrap_error + bootstrap_settings) scoped_run" where
  "setup_postgres_only A t b s w =
     (let cache_dir = cache_config_from_bootstrap A b (with_env s w); env_vars = to_env (bs_environment b) in
      case scoped_apply t env_vars s of
        (Panic, s1) \<Rightarrow> Some (Panic, s1, with_env s1 w)
      | (WouldBlock, s1) \<Rightarrow> Some (WouldBlock, s1, with_env s1 w)
      | (Returned env_guard, s1) \<Rightarrow>
          (case build_cluster_runtime A (with_env s1 w) of
             Inl e \<Rightarrow> Some (leave_scope t env_guard (Inl e) s1 (with_env s1 w))
           | Inr _ \<Rightarrow>
               map_option (\<lambda>(r, w2). leave_scope t env_guard r s1 w2)
                 (setup_lifecycle A b env_vars cache_dir (with_env s1 w))))"

definition run_setup_only_lifecycle ::
  "('h, 'c, 'g, 'v::linorder) cluster_api \<Rightarrow> nat \<Rightarrow> bootstrap_settings \<Rightarrow> scope_state \<Rightarrow> world \<Rightarrow>
     (pg_embedded_error + unit) scoped_run" where
  "run_setup_only_lifecycle A t b s w =
     map_option (\<lambda>(r, s', w').
       (case r of
          Returned (Inl e) \<Rightarrow> Returned (Inl (Bootstrap e))
        | Returned (Inr _) \<Rightarrow> Returned (Inr ())
        | Panic \<Rightarrow> Panic
        | WouldBlock \<Rightarrow> WouldBlock, s', w'))
       (setup_postgres_only A t b s w)"

text \<open>\<open>run\<close>, the command line's entry point.\<close>

definition run ::
  "('h, 'c, 'g, 'v::linorder) cluster_api \<Rightarrow> nat \<Rightarrow> scope_state \<Rightarrow> world \<Rightarrow> (pg_embedded_error + unit) scoped_run" where
  "run A t s w =
     (case orchestrate_bootstrap (ca_ext A) (ca_env A) DefaultBootstrap (with_env s w) of
        None \<Rightarrow> None
      | Some (Inl e, w1) \<Rightarrow> Some (Returned (Inl (Bootstrap e)), s, w1)
      | Some (Inr b, w1) \<Rightarrow> run_setup_only_lifecycle A t b s w1)"

section \<open>Lemmas\<close>

lemma use_cache_keeps:
  "try_use_binary_cache VA flock dir req b w = Some ((hit, b1), w1) \<Longrightarrow>
     bs_privileges b1 = bs_privileges b \<and> bs_environment b1 = bs_environment b \<and>
     bs_execution_mode b1 = bs_execution_mode b"
  by (auto simp: try_use_binary_cache_def apply_cached_binaries_def
      split: option.splits sum.splits cache_lookup.splits prod.splits)

lemma refresh_dir_keeps [simp]:
  "bs_privileges (refresh_worker_installation_dir VA b w) = bs_privileges b"
  "bs_environment (refresh_worker_installation_dir VA b w) = bs_environment b"
  by (simp_all add: refresh_worker_installation_dir_def split: option.split)

lemma refresh_port_keeps:
  "refresh_worker_port ws b = (r, b') \<Longrightarrow> bs_privileges b' = bs_privileges b \<and> bs_environment b' = bs_environment b"
  by (auto simp: refresh_worker_port_def Let_def split: if_splits sum.splits option.splits)

lemma refresh_port_case:
  "(case refresh_worker_port ws b of (Inl e, _) \<Rightarrow> (Inl e, v) | (Inr _, b2) \<Rightarrow> (Inr b2, v)) = (Inr b', v') \<longleftrightarrow>
     refresh_worker_port ws b = (Inr (), b') \<and> v = v'"
  by (cases "refresh_worker_port ws b"; cases "fst (refresh_worker_port ws b)") auto

lemma dispatch_async: "dispatch_operation_async A b env_vars oper future s w = dispatch_operation A b env_vars oper future s w"
  by (simp add: dispatch_operation_async_def dispatch_operation_def run_unprivileged_def invoke_unprivileged_def
      invoke_unprivileged_async_def run_with_timeout_def run_root_def invoke_as_root_def
      split: execution_privileges.split)

lemma lifecycle_async: "invoke_lifecycle_async A b env_vars s w = invoke_lifecycle A b env_vars s w"
  unfolding invoke_lifecycle_async_def invoke_lifecycle_steps_async_def invoke_lifecycle_def dispatch_async
    invoke_unprivileged_operation_def invoke_def lifecycle_step.case
  by (rule refl)

lemma lifecycle_root_async:
  assumes "bs_privileges b = Root"
  shows "invoke_lifecycle_root_async A b env_vars w = invoke_lifecycle_root A b env_vars w"
proof -
  have d: "dispatch_operation A b' env_vars oper future s v =
      (case invoke_as_root A b' env_vars oper v of (r, w') \<Rightarrow> (r, s, w'))" if "bs_privileges b' = Root" for b' oper future s v
    using that by (simp add: dispatch_operation_def run_root_def)
  show ?thesis
    using assms
    by (auto simp: invoke_lifecycle_root_async_def invoke_lifecycle_steps_async_def invoke_lifecycle_root_def
        dispatch_async d invoke_root_operation_def try_st_def Let_def split: prod.split sum.split)
qed

lemma lifecycle_root_keeps:
  assumes "invoke_lifecycle_root A b env_vars w = (Inr b', w')"
  shows "bs_privileges b' = bs_privileges b \<and> bs_environment b' = bs_environment b"
  using assms
  by (auto simp: invoke_lifecycle_root_def try_st_Inr Let_def refresh_port_case dest!: refresh_port_keeps)

lemma lifecycle_keeps:
  assumes "invoke_lifecycle A b env_vars s w = (Inr b', s', w')"
  shows "bs_privileges b' = bs_privileges b \<and> bs_environment b' = bs_environment b"
  using assms
  by (auto simp: invoke_lifecycle_def Let_def refresh_port_case [where v = "(s2, w2)" for s2 w2] dest!: refresh_port_keeps
      split: prod.splits sum.splits)

text \<open>What is relied on of \<open>timeout\<close>: the captured server is not lost.\<close>

definition timeout_spec :: "('h, 'c, 'g, 'v) cluster_api \<Rightarrow> bool" where
  "timeout_spec A \<longleftrightarrow> (\<forall>d f g w. fst (snd (ca_timeout A d (server_call f) (Some g) w)) \<noteq> None)"

lemma unprivileged_keeps_server:
  assumes "timeout_spec A" "bs_privileges b = Unprivileged"
  shows "fst (snd (invoke_unprivileged_operation A b env_vars step (Some g) w)) \<noteq> None"
proof -
  have "fst (snd (invoke_unprivileged A (server_call f) ctx d (Some g) w)) \<noteq> None" for f ctx d
    using assms(1) by (auto simp: timeout_spec_def invoke_unprivileged_def run_with_timeout_def
        split: prod.split option.split sum.split) (metis fst_conv snd_conv)+
  with assms(2) show ?thesis
    by (auto simp: invoke_unprivileged_operation_def invoke_def dispatch_operation_def run_unprivileged_def
        split: lifecycle_step.split)
qed

lemma lifecycle_keeps_server:
  assumes t: "timeout_spec A" and b: "bs_privileges b = Unprivileged"
  shows "fst (snd (invoke_lifecycle A b env_vars (Some g) w)) \<noteq> None"
proof -
  let ?u = "invoke_unprivileged_operation A"
  obtain r1 s1 w1 where 1: "?u b env_vars SetupStep (Some g) w = (r1, s1, w1)" by (cases "?u b env_vars SetupStep (Some g) w")
  with unprivileged_keeps_server [OF t b, of env_vars SetupStep g w] obtain g1 where g1: "s1 = Some g1" by auto
  let ?b1 = "refresh_worker_installation_dir (ca_versions A) b w1"
  obtain r2 s2 w2 where 2: "?u ?b1 env_vars StartStep (Some g1) w1 = (r2, s2, w2)"
    by (cases "?u ?b1 env_vars StartStep (Some g1) w1")
  with unprivileged_keeps_server [OF t, of ?b1 env_vars StartStep g1 w1] b have "s2 \<noteq> None" by auto
  with 1 2 g1 show ?thesis
    by (cases r1; cases r2) (auto simp: invoke_lifecycle_def Let_def split: prod.split sum.split)
qed

lemma start_async_eq: "start_postgres_async A b env_vars cache_dir w = start_postgres A b env_vars cache_dir w"
proof (cases "try_use_binary_cache (ca_versions A) (ca_flock_shared A) cache_dir (st_version (bs_settings b)) b w")
  case (Some r)
  obtain hit b1 w1 where r: "r = ((hit, b1), w1)" by (metis prod.collapse)
  with Some have "bs_privileges b1 = bs_privileges b" using use_cache_keeps by fast
  with Some r show ?thesis
    by (simp add: start_postgres_async_def start_postgres_def handle_privilege_lifecycle_def lifecycle_async
        lifecycle_root_async)
qed (simp add: start_postgres_async_def start_postgres_def)

section \<open>Properties\<close>

text \<open>
  C27. The asynchronous start is the synchronous one: with the same bootstrap, environment and cache it goes
  through the same operations in the same order to the same outcome.
\<close>

theorem async_start_same: "start_postgres_async A b env_vars cache_dir w = start_postgres A b env_vars cache_dir w"
  by (rule start_async_eq)

lemma root_operation_other_server:
  "invoke_root_operation (A\<lparr>ca_pg := PG, ca_timeout := T\<rparr>) b env_vars step w = invoke_root_operation A b env_vars step w"
  by (simp add: invoke_root_operation_def invoke_as_root_def execute_root_operation_def spawn_worker_inner_def
      split: execution_mode.split option.split)

lemma root_lifecycle_other_server:
  "invoke_lifecycle_root (A\<lparr>ca_pg := PG, ca_timeout := T\<rparr>) b env_vars w = invoke_lifecycle_root A b env_vars w"
  by (simp add: invoke_lifecycle_root_def root_operation_other_server)

lemma root_lifecycle_mode:
  "invoke_lifecycle_root A b env_vars w = (Inr b', w') \<Longrightarrow> bs_execution_mode b = Subprocess"
  by (cases "bs_execution_mode b")
    (auto simp: invoke_lifecycle_root_def invoke_root_operation_def invoke_as_root_def execute_root_operation_def)

lemma start_postgres_cases:
  assumes "start_postgres A b env_vars cache_dir w = Some (Inr outcome, w')"
  obtains hit b1 w1 w2 where "bs_privileges b1 = bs_privileges b" "bs_environment b1 = bs_environment b"
    "bs_execution_mode b1 = bs_execution_mode b"
    "handle_privilege_lifecycle A (bs_privileges b) b1 env_vars w1 =
       (Inr (so_managed outcome, so_postgres outcome, so_bootstrap outcome), w2)"
    "populate_cache_on_miss A hit cache_dir (so_bootstrap outcome) w2 = Some w'"
proof -
  from assms obtain hit b1 w1 where
    u: "try_use_binary_cache (ca_versions A) (ca_flock_shared A) cache_dir (st_version (bs_settings b)) b w =
      Some ((hit, b1), w1)"
    by (auto simp: start_postgres_def split: option.splits)
  with assms obtain m p b2 w2 where h: "handle_privilege_lifecycle A (bs_privileges b) b1 env_vars w1 = (Inr (m, p, b2), w2)"
      "populate_cache_on_miss A hit cache_dir b2 w2 = Some w'"
      "outcome = \<lparr>so_bootstrap = b2, so_postgres = p, so_managed = m\<rparr>"
    by (auto simp: start_postgres_def split: prod.splits sum.splits)
  with use_cache_keeps [OF u] show thesis by (intro that [of b1 w1 w2 hit]) simp_all
qed

text \<open>
  A root process never runs the server itself. Its start does not depend on the in-process server library
  at all, whatever that does; if it succeeds the cluster is managed by the worker and the guard holds no
  server. If the execution mode is in-process no start succeeds.
\<close>

theorem root_start_uses_worker_only:
  assumes root: "bs_privileges b = Root"
  shows "start_postgres (A\<lparr>ca_pg := PG, ca_timeout := T\<rparr>) b env_vars cache_dir w = start_postgres A b env_vars cache_dir w \<and>
    (case start_postgres A b env_vars cache_dir w of
       Some (Inr outcome, _) \<Rightarrow> so_managed outcome \<and> so_postgres outcome = None \<and> bs_execution_mode b = Subprocess
     | _ \<Rightarrow> True)"
proof
  show "start_postgres (A\<lparr>ca_pg := PG, ca_timeout := T\<rparr>) b env_vars cache_dir w = start_postgres A b env_vars cache_dir w"
  proof -
    have "handle_privilege_lifecycle (A\<lparr>ca_pg := PG, ca_timeout := T\<rparr>) Root b1 env_vars v =
        handle_privilege_lifecycle A Root b1 env_vars v" for b1 v
      by (simp add: handle_privilege_lifecycle_def root_lifecycle_other_server)
    moreover have "populate_cache_on_miss (A\<lparr>ca_pg := PG, ca_timeout := T\<rparr>) hit cache_dir b2 v =
        populate_cache_on_miss A hit cache_dir b2 v" for hit b2 v
      by (simp add: populate_cache_on_miss_def)
    ultimately show ?thesis unfolding start_postgres_def root Let_def
      by (simp split: option.split prod.split sum.split)
  qed
  have "so_managed outcome \<and> so_postgres outcome = None \<and> bs_execution_mode b = Subprocess"
    if s: "start_postgres A b env_vars cache_dir w = Some (Inr outcome, w')" for outcome w'
    by (rule start_postgres_cases [OF s])
      (use root in \<open>auto simp: handle_privilege_lifecycle_def try_st_Inr dest: root_lifecycle_mode\<close>)
  then show "case start_postgres A b env_vars cache_dir w of
       Some (Inr outcome, _) \<Rightarrow> so_managed outcome \<and> so_postgres outcome = None \<and> bs_execution_mode b = Subprocess
     | _ \<Rightarrow> True"
    by (auto split: option.split prod.split sum.split)
qed

lemma start_in_scope_ok:
  assumes "start_in_scope start rt t cache_dir b s w = Some (Returned (Inr (h, cg)), s', w')"
  obtains outcome where "start b (to_env (bs_environment b)) cache_dir (with_env s' w) = Some (Inr outcome, w')"
    "scoped_apply t (to_env (bs_environment b)) s = (Returned (cg_env_guard cg), s')"
    "ch_bootstrap h = so_bootstrap outcome" "cg_bootstrap cg = so_bootstrap outcome" "cg_runtime cg = rt"
    "cg_managed cg = so_managed outcome" "cg_postgres cg = so_postgres outcome"
    "cg_env_vars cg = to_env (bs_environment b)" "cg_worker_guard cg = None"
  using assms
  by (auto simp: start_in_scope_def Let_def leave_scope_def split: prod.splits ctl.splits option.splits sum.splits)

text \<open>
  C24. A new cluster is well formed: handle and guard agree on the bootstrap; the guard is of the kind
  of its constructor; exactly one of worker and server is in charge, the worker if and only if the process
  is root; and the variables the guard has applied are those of its bootstrap.
\<close>

theorem new_cluster_well_formed:
  assumes spec: "timeout_spec A"
    and new: "new_split A t s w = Some (Returned (Inr (h, cg)), s', w')"
  shows "ch_bootstrap h = cg_bootstrap cg \<and> cg_runtime cg = SyncRuntime \<and>
    (cg_managed cg \<longleftrightarrow> bs_privileges (cg_bootstrap cg) = Root) \<and>
    (cg_managed cg \<longleftrightarrow> cg_postgres cg = None) \<and>
    cg_env_vars cg = to_env (bs_environment (cg_bootstrap cg)) \<and> cg_worker_guard cg = None"
proof -
  from new obtain b w1 where "start_in_scope (start_postgres A) SyncRuntime t (cache_config_from_bootstrap A b w1) b s w1 =
      Some (Returned (Inr (h, cg)), s', w')"
    by (auto simp: new_split_def Let_def split: option.splits prod.splits sum.splits)
  then obtain outcome where st: "start_postgres A b (to_env (bs_environment b)) (cache_config_from_bootstrap A b w1)
        (with_env s' w1) = Some (Inr outcome, w')"
      and cg: "ch_bootstrap h = so_bootstrap outcome" "cg_bootstrap cg = so_bootstrap outcome" "cg_runtime cg = SyncRuntime"
        "cg_managed cg = so_managed outcome" "cg_postgres cg = so_postgres outcome"
        "cg_env_vars cg = to_env (bs_environment b)" "cg_worker_guard cg = None"
    by (rule start_in_scope_ok)
  from st obtain b1 w2 w3 where keep: "bs_privileges b1 = bs_privileges b" "bs_environment b1 = bs_environment b"
      and h: "handle_privilege_lifecycle A (bs_privileges b) b1 (to_env (bs_environment b)) w2 =
        (Inr (so_managed outcome, so_postgres outcome, so_bootstrap outcome), w3)"
    by (rule start_postgres_cases)
  show ?thesis
  proof (cases "bs_privileges b")
    case Root
    with h keep cg show ?thesis
      by (auto simp: handle_privilege_lifecycle_def try_st_Inr dest!: lifecycle_root_keeps)
  next
    case Unprivileged
    let ?run = "invoke_lifecycle A b1 (to_env (bs_environment b)) (Some (pg_new (ca_pg A) (bs_settings b1))) w2"
    from h Unprivileged obtain b2 srv where r: "?run = (Inr b2, srv, w3)"
        "prepare_postgres_handle (ca_pg A) False b2 srv = (so_postgres outcome, so_bootstrap outcome)" "\<not> so_managed outcome"
      by (auto simp: handle_privilege_lifecycle_def split: prod.splits sum.splits)
    with lifecycle_keeps_server [OF spec, of b1 "to_env (bs_environment b)"] keep Unprivileged obtain g where "srv = Some g"
      by (metis fst_conv snd_conv not_None_eq)
    with r(2) have "so_postgres outcome = Some g" "so_bootstrap outcome = b2\<lparr>bs_settings := pg_settings (ca_pg A) g\<rparr>"
      by (auto simp: prepare_postgres_handle_def)
    with r(3) keep cg Unprivileged lifecycle_keeps [OF r(1)] show ?thesis by simp
  qed
qed

section \<open>An example\<close>

text \<open>A cluster whose worker and server do nothing and whose cache knows no version.\<close>

definition idle_cluster :: "(unit, unit, settings, string) cluster_api" where
  "idle_cluster =
     \<lparr>ca_ext = noop_ext, ca_env = boot_api, ca_process = calm_process (Some True), ca_skip = 0,
      ca_pg = idle_pg Stopped, ca_show_pg = (\<lambda>_. ''error''), ca_show_secs = show_nat, ca_versions = no_versions,
      ca_home_dir = (\<lambda>_. None), ca_flock_shared = [None], ca_flock_exclusive = [None], ca_later = (\<lambda>w _. w),
      ca_build_runtime = (\<lambda>_. Inr ()),
      ca_timeout = (\<lambda>_ f s w. case f s w of (r, s', w') \<Rightarrow> (Some r, s', w'))\<rparr>"

lemma idle_timeout: "timeout_spec idle_cluster"
  by (auto simp: timeout_spec_def idle_cluster_def server_call_def split: prod.split)

definition bare :: "world \<Rightarrow> bool" where
  "bare w \<longleftrightarrow> w_fs w = w_fs boot_world \<and> w_cwd w = [RootDir] \<and> w_faults w = (\<lambda>_. None)"

lemma calm_run:
  assumes "bare w" "find (\<lambda>(_, p). \<not> utf8_valid p) (path_fields (wr_settings rq)) = None"
  shows "run_process noop_ext 0 (calm_process (Some True)) rq w = (Inr (), w)"
proof -
  let ?p = "[RootDir, Normal ''payload'']"
  obtain pl where pl: "payload_new (wr_settings rq) (wr_env_vars rq) = Inr pl"
    using assms(2) by (auto simp: payload_new_def snapshot_from_def utf8_path_def path_fields_def
        split: if_splits option.splits)
  have same: "drop_entries (\<lambda>q. q = ?p) (put_entry ?p n w) = w" for n
    using assms(1) by (simp add: drop_entries_def put_entry_def bare_def boot_world_def)
  show ?thesis
    by (simp add: run_process_def write_payload_def pl configure_command_def apply_privileges_def apply_privilege_drop_def
        resolve_nobody_ids_def chown_payload_def noop_ext_def calm_process_def run_worker_command_def
        run_command_with_timeout_def close_payload_def handle_exit_def same)
qed

lemma bare_lookups:
  assumes "bare w"
  shows "path_is_dir w (components ''/i/bin'') = False" "read_dir (components ''/i'') w = Inl NotFound"
    "read_to_string (components ''/d/postmaster.pid'') w = Inl NotFound"
  using assms
  by (simp_all add: bare_def boot_world_def path_is_dir_def metadata_def read_dir_def read_to_string_def guarded_def
      node_of_def resolve_def entry_def entry_at_def components_def is_abs_def body_comps_def seg_comp_def)

lemma idle_start:
  assumes "bare w" and b: "bs_privileges b = Root" "bs_execution_mode b = Subprocess" "bs_worker_binary b = Some ''/w''"
    "st_installation_dir (bs_settings b) = ''/i''" "st_data_dir (bs_settings b) = ''/d''"
    "st_password_file (bs_settings b) = ''/i/.pgpass''" "st_socket_dir (bs_settings b) = None"
  shows "start_postgres idle_cluster b env_vars cache_dir w =
    Some (Inr \<lparr>so_bootstrap = b, so_postgres = None, so_managed = True\<rparr>, w)"
proof -
  have paths: "find (\<lambda>(_, p). \<not> utf8_valid p) (path_fields (bs_settings b)) = None"
    using plain_paths b(4-7) by (simp add: path_fields_def del: utf8_valid.simps)
  have oper: "invoke_root_operation idle_cluster b env_vars step w = (Inr (), w)" for step
    using calm_run [OF assms(1)] paths b(2,3)
    by (simp add: invoke_root_operation_def invoke_as_root_def execute_root_operation_def spawn_worker_inner_def
        idle_cluster_def)
  have installed: "resolve_installed_dir no_versions (bs_settings b) w = (if st_trust_installation_dir (bs_settings b)
      then Some ''/i'' else None)"
    using bare_lookups [OF assms(1)] b(4)
    by (simp add: resolve_installed_dir_def has_bin_def join_path_def is_abs_def Let_def)
  have dir: "refresh_worker_installation_dir no_versions b w = b"
    using b(4) by (simp add: refresh_worker_installation_dir_def installed)
  have "read_postmaster_port (components ''/d/postmaster.pid'') w = Inr None"
    by (simp add: read_postmaster_port_def read_pid_file_contents_def bare_lookups [OF assms(1)])
  then have "port_attempts (components ''/d/postmaster.pid'') (\<lambda>_. w) i n = Inr None" for i n
    by (induction n arbitrary: i) simp_all
  then have port: "refresh_worker_port (\<lambda>_. w) b = (Inr (), b)"
    using b(5) by (simp add: refresh_worker_port_def read_postmaster_port_with_retry_def join_path_def is_abs_def)
  have "try_populate_binary_cache no_versions fl c (bs_settings b) w = Some w" for fl c
    by (simp add: try_populate_binary_cache_def installed extract_version_from_path_def no_versions_def split: option.split)
  then have miss: "populate_cache_on_miss idle_cluster False cache_dir b w = Some w"
    by (simp add: populate_cache_on_miss_def idle_cluster_def)
  have fields: "ca_versions idle_cluster = no_versions" "ca_later idle_cluster = (\<lambda>w _. w)"
    by (simp_all add: idle_cluster_def)
  have "invoke_lifecycle_root idle_cluster b env_vars w = (Inr b, w)"
    by (simp add: invoke_lifecycle_root_def oper fields dir port)
  with miss b(1) show ?thesis
    by (simp add: start_postgres_def try_use_binary_cache_def handle_privilege_lifecycle_def fields no_versions_none)
qed

definition demo_scope :: scope_state where
  "demo_scope = (\<lparr>pr_env = w_env boot_world, pr_owner = None, pr_poisoned = False\<rparr>, new_thread_state)"

lemma demo_scope_inv: "scope_inv 0 demo_scope" "ts_depth (snd demo_scope) = 0"
  by (simp_all add: demo_scope_def scope_inv_def new_thread_state_def)

lemma idle_new_split:
  obtains cg h s' w' where "new_split idle_cluster 0 demo_scope boot_world = Some (Returned (Inr (h, cg)), s', w')"
    "cg_managed cg" "bs_worker_binary (cg_bootstrap cg) = Some ''/w''"
proof -
  obtain b where b: "orchestrate_bootstrap noop_ext boot_api TestBootstrap boot_world = Some (Inr b, boot_world)"
    "bs_privileges b = Root" "st_data_dir (bs_settings b) = ''/d''" "st_installation_dir (bs_settings b) = ''/i''"
    "st_password_file (bs_settings b) = ''/i/.pgpass''" "st_socket_dir (bs_settings b) = st_socket_dir demo_settings"
    "bs_execution_mode b = Subprocess" "bs_worker_binary b = Some ''/w''"
    "bs_environment b = \<lparr>ben_home = ''/i'', ben_xdg_cache_home = ''/i/cache'', ben_xdg_runtime_dir = ''/i/run'',
       ben_pgpass_file = ''/i/.pgpass'', ben_tz_dir = Some ''/z'', ben_timezone = ''UTC''\<rparr>"
    by (rule boot_run)
  let ?env = "to_env (bs_environment b)"
  have v: "list_all valid_var ?env"
    by (simp add: to_env_def b(9) valid_var_def validate_env_key_def contains_equals_def has_nul_def)
  then have "list_ex (\<lambda>(key, _). \<not> (key \<noteq> [] \<and> \<not> contains_equals key)) ?env = False"
    by (auto simp: list_ex_iff list_all_iff valid_var_def validate_env_key_def)
  moreover obtain p' ts' where e: "enter_scope 0 ?env demo_scope = (Returned 0, (p', ts'))"
    using enter_ok [OF demo_scope_inv(1) [unfolded demo_scope_def] v] by (auto simp: demo_scope_def new_thread_state_def)
  ultimately have g: "scoped_apply 0 ?env demo_scope = (Returned (0, 6), (p', ts'))"
    by (simp add: scoped_apply_def scoped_apply_os_def to_env_keys)
  have env: "with_env demo_scope boot_world = boot_world" by (simp add: with_env_def demo_scope_def)
  have bare: "bare (with_env s boot_world)" for s by (simp add: bare_def with_env_def boot_world_def)
  have fields: "ca_ext idle_cluster = noop_ext" "ca_env idle_cluster = boot_api"
    "build_cluster_runtime idle_cluster w = Inr ()" for w
    by (simp_all add: idle_cluster_def build_cluster_runtime_def)
  have start: "start_postgres idle_cluster b ev c (with_env (p', ts') boot_world) =
      Some (Inr \<lparr>so_bootstrap = b, so_postgres = None, so_managed = True\<rparr>, with_env (p', ts') boot_world)" for ev c
    by (rule idle_start) (use bare b in \<open>simp_all add: demo_settings_def\<close>)
  show thesis
    by (rule that, simp add: new_split_def bootstrap_for_tests_def env fields b(1) start_in_scope_def g start)
      (simp_all add: b(8))
qed

theorem root_start_uses_worker_only_witness:
  "start_postgres (idle_cluster\<lparr>ca_pg := idle_pg Started, ca_timeout := (\<lambda>_ _ s w. (None, s, w))\<rparr>) pid_bootstrap []
     ''/c'' boot_world = start_postgres idle_cluster pid_bootstrap [] ''/c'' boot_world"
proof -
  have "bs_privileges pid_bootstrap = Root" by (simp add: pid_bootstrap_def)
  from root_start_uses_worker_only [OF this] show ?thesis by blast
qed

theorem new_cluster_well_formed_witness:
  "\<exists>h cg s' w'. new_split idle_cluster 0 demo_scope boot_world = Some (Returned (Inr (h, cg)), s', w') \<and>
     cg_postgres cg = None \<and> bs_privileges (ch_bootstrap h) = Root"
proof -
  obtain h cg s' w' where new: "new_split idle_cluster 0 demo_scope boot_world = Some (Returned (Inr (h, cg)), s', w')"
      "cg_managed cg" by (rule idle_new_split)
  with new_cluster_well_formed [OF idle_timeout new(1)] show ?thesis by auto
qed

end
