(* ===== verification/Cluster_Stop.thy ===== *)
theory Cluster_Stop
  imports Cluster_Start
begin

text \<open>
  Stopping a cluster: \<open>src/src/cluster/shutdown.rs\<close> and the worker-managed part of \<open>cleanup.rs\<close>, the drop of
  the guard in \<open>guard.rs\<close>, and \<open>TestCluster::stop_async\<close> in \<open>mod.rs\<close>. What a drop hands to the
  caller's runtime is a value of type \<open>stop_task\<close>, and \<open>run_stop_task\<close> is what it does once it runs.
\<close>

section \<open>Stopping\<close>

definition stop_server ::
  "('h, 'c, 'g, 'v) cluster_api \<Rightarrow> duration \<Rightarrow> 'g \<Rightarrow> world \<Rightarrow> (pg_error + unit) option \<times> 'g option \<times> world" where
  "stop_server A timeout g w = ca_timeout A timeout (server_call (pg_stop (ca_pg A))) (Some g) w"

definition cleanup_worker_managed_with_runtime ::
  "('h, 'c, 'g, 'v) cluster_api \<Rightarrow> bootstrap_settings \<Rightarrow> env_vars \<Rightarrow> world \<Rightarrow> world" where
  "cleanup_worker_managed_with_runtime A b env_vars w =
     (case cleanup_operation (bs_cleanup_mode b) of
        None \<Rightarrow> w
      | Some oper \<Rightarrow> snd (invoke_as_root A b env_vars oper w))"

definition stop_worker_managed_with_runtime ::
  "('h, 'c, 'g, 'v) cluster_api \<Rightarrow> bootstrap_settings \<Rightarrow> env_vars \<Rightarrow> world \<Rightarrow> unit boot_run" where
  "stop_worker_managed_with_runtime A b env_vars w =
     (case invoke_as_root A b env_vars OpStop w of
        (Inl e, w1) \<Rightarrow> (Inl e, w1)
      | (Inr _, w1) \<Rightarrow>
          (Inr (), snd (cleanup_in_process (bs_cleanup_mode b) (bs_settings b)
             (cleanup_worker_managed_with_runtime A b env_vars w1))))"

definition drop_sync_cluster ::
  "('h, 'c, 'g, 'v) cluster_api \<Rightarrow> bool \<Rightarrow> 'g option \<Rightarrow> bootstrap_settings \<Rightarrow> env_vars \<Rightarrow> world \<Rightarrow> world" where
  "drop_sync_cluster A is_managed_via_worker postgres b env_vars w =
     (if is_managed_via_worker then snd (stop_worker_managed_with_runtime A b env_vars w)
      else case postgres of
        None \<Rightarrow> w
      | Some pg \<Rightarrow>
          (case stop_server A (bs_shutdown_timeout b) pg w of
             (outcome, s, w1) \<Rightarrow>
               let w2 = drop_server (ca_pg A) s w1 in
               if outcome = Some (Inr ()) then snd (cleanup_in_process (bs_cleanup_mode b) (bs_settings b) w2)
               else w2))"

definition stop_via_worker_sync ::
  "('h, 'c, 'g, 'v) cluster_api \<Rightarrow> bootstrap_settings \<Rightarrow> env_vars \<Rightarrow> world \<Rightarrow> unit boot_run" where
  "stop_via_worker_sync A b env_vars w =
     try_st (build_cluster_runtime A w, w) (\<lambda>_ w. stop_worker_managed_with_runtime A b env_vars w)"

text \<open>The server is dropped at the end, after the cleanup.\<close>

definition stop_in_process_async ::
  "('h, 'c, 'g, 'v) cluster_api \<Rightarrow> 'g \<Rightarrow> duration \<Rightarrow> cleanup_mode \<Rightarrow> settings \<Rightarrow> world \<Rightarrow> unit boot_run" where
  "stop_in_process_async A pg timeout mode s w =
     (case stop_server A timeout pg w of
        (outcome, srv, w1) \<Rightarrow>
          let result = (case outcome of
                Some (Inr _) \<Rightarrow> Inr ()
              | Some (Inl e) \<Rightarrow> Inl (bootstrap_msg (''failed to stop postgres: '' @ ca_show_pg A e))
              | None \<Rightarrow> Inl (bootstrap_msg (''stop timed out after '' @ show_nat (as_secs timeout) @ ''s'')));
              w2 = (if is_ok result then snd (cleanup_in_process mode s w1) else w1)
          in (result, drop_server (ca_pg A) srv w2))"

section \<open>Tasks\<close>

datatype 'g stop_task =
    WorkerStopTask bootstrap_settings env_vars
  | ServerStopTask duration cleanup_mode settings 'g

text \<open>\<open>in_runtime\<close> tells whether \<open>Handle::try_current\<close> finds a runtime.\<close>

definition drop_async_worker_managed :: "bool \<Rightarrow> bootstrap_settings \<Rightarrow> env_vars \<Rightarrow> 'g stop_task option" where
  "drop_async_worker_managed in_runtime b env_vars = (if in_runtime then Some (WorkerStopTask b env_vars) else None)"

definition drop_async_in_process ::
  "('h, 'c, 'g, 'v) cluster_api \<Rightarrow> bool \<Rightarrow> duration \<Rightarrow> cleanup_mode \<Rightarrow> settings \<Rightarrow> 'g \<Rightarrow> world \<Rightarrow>
     'g stop_task option \<times> world" where
  "drop_async_in_process A in_runtime timeout mode s pg w =
     (if in_runtime then (Some (ServerStopTask timeout mode s pg), w) else (None, pg_drop (ca_pg A) pg w))"

definition drop_async_cluster ::
  "('h, 'c, 'g, 'v) cluster_api \<Rightarrow> bool \<Rightarrow> bool \<Rightarrow> 'g option \<Rightarrow> bootstrap_settings \<Rightarrow> env_vars \<Rightarrow> world \<Rightarrow>
     'g stop_task option \<times> world" where
  "drop_async_cluster A in_runtime is_managed_via_worker postgres b env_vars w =
     (if is_managed_via_worker then (drop_async_worker_managed in_runtime b env_vars, w)
      else case postgres of
        Some pg \<Rightarrow> drop_async_in_process A in_runtime (bs_shutdown_timeout b) (bs_cleanup_mode b) (bs_settings b) pg w
      | None \<Rightarrow> (None, w))"

definition worker_stop_sync ::
  "('h, 'c, 'g, 'v) cluster_api \<Rightarrow> bootstrap_settings \<Rightarrow> env_vars \<Rightarrow> world \<Rightarrow> world" where
  "worker_stop_sync A b env_vars w =
     (case build_cluster_runtime A w of
        Inl _ \<Rightarrow> w
      | Inr _ \<Rightarrow> snd (stop_worker_managed_with_runtime A b env_vars w))"

definition spawn_async_cleanup ::
  "('h, 'c, 'g, 'v) cluster_api \<Rightarrow> 'g \<Rightarrow> duration \<Rightarrow> cleanup_mode \<Rightarrow> settings \<Rightarrow> world \<Rightarrow> world" where
  "spawn_async_cleanup A pg timeout mode s w =
     (case stop_server A timeout pg w of
        (outcome, srv, w1) \<Rightarrow>
          drop_server (ca_pg A) srv
            (if outcome = Some (Inr ()) then snd (cleanup_in_process mode s w1) else w1))"

fun run_stop_task :: "('h, 'c, 'g, 'v) cluster_api \<Rightarrow> 'g stop_task \<Rightarrow> world \<Rightarrow> world" where
  "run_stop_task A (WorkerStopTask b env_vars) w = worker_stop_sync A b env_vars w"
| "run_stop_task A (ServerStopTask timeout mode s pg) w = spawn_async_cleanup A pg timeout mode s w"

section \<open>Dropping the guard\<close>

definition with_worker_guard :: "'g cluster_guard \<Rightarrow> (nat \<times> nat) option \<Rightarrow> 'g cluster_guard" where
  "with_worker_guard cg worker_guard = cg\<lparr>cg_worker_guard := worker_guard\<rparr>"

definition guard_with_cleanup_mode :: "'g cluster_guard \<Rightarrow> cleanup_mode \<Rightarrow> 'g cluster_guard" where
  "guard_with_cleanup_mode cg mode = cg\<lparr>cg_bootstrap := (cg_bootstrap cg)\<lparr>bs_cleanup_mode := mode\<rparr>\<rparr>"

text \<open>\<open>TestCluster::with_cleanup_mode\<close> renews the handle as well.\<close>

definition cluster_with_cleanup_mode ::
  "cluster_handle \<times> 'g cluster_guard \<Rightarrow> cleanup_mode \<Rightarrow> cluster_handle \<times> 'g cluster_guard" where
  "cluster_with_cleanup_mode c mode =
     (let cg = guard_with_cleanup_mode (snd c) mode in (\<lparr>ch_bootstrap = cg_bootstrap cg\<rparr>, cg))"

definition should_skip_shutdown :: "'g cluster_guard \<Rightarrow> bool" where
  "should_skip_shutdown cg \<longleftrightarrow> cg_postgres cg = None \<and> \<not> cg_managed cg"

definition perform_shutdown ::
  "('h, 'c, 'g, 'v) cluster_api \<Rightarrow> bool \<Rightarrow> 'g cluster_guard \<Rightarrow> world \<Rightarrow> 'g stop_task option \<times> world" where
  "perform_shutdown A in_runtime cg w =
     (if runtime_is_async (cg_runtime cg) then
        drop_async_cluster A in_runtime (cg_managed cg) (cg_postgres cg) (cg_bootstrap cg) (cg_env_vars cg) w
      else (None, drop_sync_cluster A (cg_managed cg) (cg_postgres cg) (cg_bootstrap cg) (cg_env_vars cg) w))"

text \<open>The two scoped guards are fields and go after the body of \<open>drop\<close>, in the order of their declaration.\<close>

definition drop_worker_guard :: "nat \<Rightarrow> (nat \<times> nat) option \<Rightarrow> scope_state \<Rightarrow> unit ctl \<times> scope_state" where
  "drop_worker_guard t worker_guard s =
     (case worker_guard of None \<Rightarrow> (Returned (), s) | Some g \<Rightarrow> drop_scoped_env t g s)"

definition drop_scopes :: "nat \<Rightarrow> 'g cluster_guard \<Rightarrow> scope_state \<Rightarrow> unit ctl \<times> scope_state" where
  "drop_scopes t cg s =
     (case drop_worker_guard t (cg_worker_guard cg) s of
        (r1, s1) \<Rightarrow>
          (case drop_scoped_env t (cg_env_guard cg) s1 of
             (r2, s2) \<Rightarrow> (if r1 = Returned () then r2 else r1, s2)))"

definition drop_cluster_guard ::
  "('h, 'c, 'g, 'v) cluster_api \<Rightarrow> nat \<Rightarrow> bool \<Rightarrow> 'g cluster_guard \<Rightarrow> scope_state \<Rightarrow> world \<Rightarrow>
     unit ctl \<times> 'g stop_task option \<times> scope_state \<times> world" where
  "drop_cluster_guard A t in_runtime cg s w =
     (case (if should_skip_shutdown cg then (None, w) else perform_shutdown A in_runtime cg w) of
        (task, w1) \<Rightarrow>
          (case drop_scopes t cg s of (r, s1) \<Rightarrow> (r, task, s1, with_env s1 w1)))"

section \<open>The explicit stop\<close>

datatype 'g stop_async_path = WorkerManaged | StopInProcess 'g | Noop

definition stop_async_path :: "'g cluster_guard \<Rightarrow> 'g stop_async_path \<times> 'g cluster_guard" where
  "stop_async_path cg =
     (if cg_managed cg then (WorkerManaged, cg)
      else case cg_postgres cg of
        Some pg \<Rightarrow> (StopInProcess pg, cg\<lparr>cg_postgres := None\<rparr>)
      | None \<Rightarrow> (Noop, cg))"

text \<open>\<open>stop_async\<close> consumes the cluster: its guard is dropped at the end.\<close>

definition stop_async ::
  "('h, 'c, 'g, 'v) cluster_api \<Rightarrow> nat \<Rightarrow> bool \<Rightarrow> 'g cluster_guard \<Rightarrow> scope_state \<Rightarrow> world \<Rightarrow>
     (bootstrap_error + unit) ctl \<times> 'g stop_task option \<times> scope_state \<times> world" where
  "stop_async A t in_runtime cg s w =
     (case stop_async_path cg of
        (stop_path, cg') \<Rightarrow>
          (case
            (case stop_path of
               WorkerManaged \<Rightarrow> stop_via_worker_sync A (cg_bootstrap cg') (cg_env_vars cg') w
             | StopInProcess pg \<Rightarrow>
                 stop_in_process_async A pg (bs_shutdown_timeout (cg_bootstrap cg'))
                   (bs_cleanup_mode (cg_bootstrap cg')) (bs_settings (cg_bootstrap cg')) w
             | Noop \<Rightarrow> (Inr (), w))
           of (result, w1) \<Rightarrow>
             (case drop_cluster_guard A t in_runtime cg' s w1 of
                (Returned _, task, s1, w2) \<Rightarrow> (Returned result, task, s1, w2)
              | (Panic, task, s1, w2) \<Rightarrow> (Panic, task, s1, w2)
              | (WouldBlock, task, s1, w2) \<Rightarrow> (WouldBlock, task, s1, w2))))"

section \<open>Lemmas\<close>

text \<open>What a scoped guard adds to the live scopes, and what dropping it takes away.\<close>

lemma scoped_apply_live:
  assumes inv: "scope_inv t s" and e: "scoped_apply t vars s = (Returned g, s')"
  shows "scope_inv t s'" "base_env s' = base_env s" "\<not> live_at s (fst g)"
    "live_at s' j \<longleftrightarrow> live_at s j \<or> j = fst g"
proof -
  from e obtain i where i: "enter_scope t vars (fst s, snd s) = (Returned i, (fst s', snd s'))" "fst g = i"
    by (auto simp: scoped_apply_def scoped_apply_os_def split: if_splits ctl.splits prod.splits)
  from inv have "scope_inv t (fst s, snd s)" by simp
  from enter_returned [OF this i(1)] i(2)
  show "scope_inv t s'" "base_env s' = base_env s" "\<not> live_at s (fst g)" "live_at s' j \<longleftrightarrow> live_at s j \<or> j = fst g"
    by (auto simp: live_at_def nth_append)
qed

lemma drop_scoped_live:
  assumes "scope_inv t s" "live_at s (fst g)"
  shows "\<exists>s'. drop_scoped_env t g s = (Returned (), s') \<and> scope_inv t s' \<and> base_env s' = base_env s \<and>
    (\<forall>j. live_at s' j \<longleftrightarrow> live_at s j \<and> j \<noteq> fst g)"
  using exit_live [of t "fst s" "snd s" "fst g"] assms by (auto simp: drop_scoped_env_def)

lemma drop_worker_guard_live:
  assumes "scope_inv t s" "\<forall>g. wg = Some g \<longrightarrow> live_at s (fst g)"
  shows "\<exists>s'. drop_worker_guard t wg s = (Returned (), s') \<and> scope_inv t s' \<and> base_env s' = base_env s \<and>
    (\<forall>j. live_at s' j \<longleftrightarrow> live_at s j \<and> (\<forall>g. wg = Some g \<longrightarrow> j \<noteq> fst g))"
proof (cases wg)
  case (Some g)
  with assms have "live_at s (fst g)" by simp
  from drop_scoped_live [OF assms(1) this] Some show ?thesis by (auto simp: drop_worker_guard_def)
qed (use assms in \<open>auto simp: drop_worker_guard_def\<close>)

lemma no_live_idle:
  assumes "scope_inv t s" "\<And>j. \<not> live_at s j"
  shows "ts_depth (snd s) = 0" "pr_env (fst s) = base_env s" "pr_owner (fst s) \<noteq> Some t"
  using assms scope_inv_idle_iff [OF assms(1)] scope_inv_idle [OF assms(1)] by auto

lemma start_in_scope_live:
  assumes inv: "scope_inv t s" and st: "start_in_scope start rt t cache_dir b s w = Some (Returned r, s', w')"
  shows "scope_inv t s' \<and> base_env s' = base_env s \<and>
    (case r of
       Inl _ \<Rightarrow> (\<forall>j. live_at s' j \<longleftrightarrow> live_at s j)
     | Inr (h, cg) \<Rightarrow> \<not> live_at s (fst (cg_env_guard cg)) \<and>
         (\<forall>j. live_at s' j \<longleftrightarrow> live_at s j \<or> j = fst (cg_env_guard cg)))"
proof -
  from st obtain g s1 where a: "scoped_apply t (to_env (bs_environment b)) s = (Returned g, s1)"
    by (auto simp: start_in_scope_def Let_def split: prod.splits ctl.splits)
  note live = scoped_apply_live [OF inv a]
  from live(1,4) have "live_at s1 (fst g)" by simp
  from drop_scoped_live [OF live(1) this] obtain s2 where
      d: "drop_scoped_env t g s1 = (Returned (), s2)" "scope_inv t s2" "base_env s2 = base_env s1"
      "\<forall>j. live_at s2 j \<longleftrightarrow> live_at s1 j \<and> j \<noteq> fst g"
    by blast
  from st a d(1) have "(\<exists>e. r = Inl e) \<and> s' = s2 \<or> (\<exists>h cg. r = Inr (h, cg) \<and> cg_env_guard cg = g) \<and> s' = s1"
    by (auto simp: start_in_scope_def Let_def leave_scope_def split: option.splits sum.splits prod.splits)
  with live d show ?thesis by auto
qed

lemma new_split_live:
  assumes inv: "scope_inv t s"
    and new: "new_split A t s w = Some (Returned r, s', w') \<or> start_async_split A t s w = Some (Returned r, s', w')"
  shows "scope_inv t s' \<and> base_env s' = base_env s \<and>
    (case r of
       Inl _ \<Rightarrow> (\<forall>j. live_at s' j \<longleftrightarrow> live_at s j)
     | Inr (h, cg) \<Rightarrow> \<not> live_at s (fst (cg_env_guard cg)) \<and>
         (\<forall>j. live_at s' j \<longleftrightarrow> live_at s j \<or> j = fst (cg_env_guard cg)))"
proof -
  from new have "(\<exists>e. r = Inl e) \<and> s' = s \<or>
      (\<exists>start rt cache_dir b w1. start_in_scope start rt t cache_dir b s w1 = Some (Returned r, s', w'))"
    unfolding new_split_def start_async_split_def Let_def
    by (auto split: option.splits prod.splits sum.splits)
  then show ?thesis
  proof (elim disjE exE)
    fix start rt cache_dir b w1
    assume "start_in_scope start rt t cache_dir b s w1 = Some (Returned r, s', w')"
    then show ?thesis by (rule start_in_scope_live [OF inv])
  qed (use inv in auto)
qed

section \<open>Which files a shutdown removes\<close>

text \<open>A shutdown with the task it may leave to the runtime.\<close>

definition shutdown_world ::
  "('h, 'c, 'g, 'v) cluster_api \<Rightarrow> bool \<Rightarrow> 'g cluster_guard \<Rightarrow> world \<Rightarrow> world" where
  "shutdown_world A in_runtime cg w =
     (case perform_shutdown A in_runtime cg w of
        (None, w1) \<Rightarrow> w1
      | (Some task, w1) \<Rightarrow> run_stop_task A task w1)"

text \<open>The world in which the cleanup of a stopped cluster begins; \<open>None\<close> if it has not stopped.\<close>

definition stopped_world ::
  "('h, 'c, 'g, 'v) cluster_api \<Rightarrow> 'g cluster_guard \<Rightarrow> world \<Rightarrow> world option" where
  "stopped_world A cg w =
     (let b = cg_bootstrap cg in
      if cg_managed cg then
        (case invoke_as_root A b (cg_env_vars cg) OpStop w of
           (Inl _, _) \<Rightarrow> None
         | (Inr _, w1) \<Rightarrow> Some (cleanup_worker_managed_with_runtime A b (cg_env_vars cg) w1))
      else
        (case cg_postgres cg of
           None \<Rightarrow> None
         | Some pg \<Rightarrow>
             (case stop_server A (bs_shutdown_timeout b) pg w of
                (outcome, srv, w1) \<Rightarrow>
                  if outcome = Some (Inr ())
                  then Some (if runtime_is_async (cg_runtime cg) then w1 else drop_server (ca_pg A) srv w1)
                  else None)))"

text \<open>Neither the server library nor the worker touches the entry.\<close>

definition keeps_entry :: "('h, 'c, 'g, 'v) cluster_api \<Rightarrow> path \<Rightarrow> bool" where
  "keeps_entry A q \<longleftrightarrow>
     (\<forall>timeout g w. entry (snd (snd (stop_server A timeout g w))) q = entry w q) \<and>
     (\<forall>g w. entry (pg_drop (ca_pg A) g w) q = entry w q) \<and>
     (\<forall>rq w. entry (snd (run_process (ca_ext A) (ca_skip A) (ca_process A) rq w)) q = entry w q)"

lemma keeps_stop:
  "keeps_entry A q \<Longrightarrow> stop_server A timeout g w = (r, s, w') \<Longrightarrow> entry w' q = entry w q"
  unfolding keeps_entry_def by (metis snd_conv)

lemma keeps_drop: "keeps_entry A q \<Longrightarrow> entry (drop_server (ca_pg A) s w) q = entry w q"
  by (auto simp: keeps_entry_def drop_server_def split: option.split)

lemma keeps_root: "keeps_entry A q \<Longrightarrow> entry (snd (invoke_as_root A b ev oper w)) q = entry w q"
  by (auto simp: keeps_entry_def invoke_as_root_def execute_root_operation_def spawn_worker_inner_def
      split: execution_mode.split option.split)

lemma keeps_worker_cleanup:
  "keeps_entry A q \<Longrightarrow> entry (cleanup_worker_managed_with_runtime A b ev w) q = entry w q"
  by (auto simp: cleanup_worker_managed_with_runtime_def keeps_root split: option.split)

text \<open>Every way of stopping is the same: stop, clean up if that worked, and drop what is left of the server.\<close>

lemma shutdown_shape:
  assumes "keeps_entry A q"
  shows "case stopped_world A cg w of
      None \<Rightarrow> entry (shutdown_world A in_runtime cg w) q = entry w q
    | Some v \<Rightarrow> entry v q = entry w q \<and>
        entry (shutdown_world A in_runtime cg w) q \<in>
          {entry w q, entry (snd (cleanup_in_process (bs_cleanup_mode (cg_bootstrap cg)) (bs_settings (cg_bootstrap cg)) v)) q}"
proof (cases "cg_managed cg")
  case True
  let ?r = "invoke_as_root A (cg_bootstrap cg) (cg_env_vars cg) OpStop w"
  have "entry (snd ?r) q = entry w q" by (rule keeps_root [OF assms])
  with True keeps_worker_cleanup [OF assms, of "cg_bootstrap cg" "cg_env_vars cg" "snd ?r"] show ?thesis
    by (cases ?r; cases "fst ?r")
      (auto simp: stopped_world_def shutdown_world_def perform_shutdown_def drop_async_cluster_def drop_sync_cluster_def
        drop_async_worker_managed_def stop_worker_managed_with_runtime_def worker_stop_sync_def Let_def
        split: sum.splits)
next
  case unmanaged: False
  show ?thesis
  proof (cases "cg_postgres cg")
    case None
    with unmanaged show ?thesis
      by (simp add: stopped_world_def shutdown_world_def perform_shutdown_def drop_async_cluster_def drop_sync_cluster_def Let_def)
  next
    case (Some pg)
    obtain outcome srv w1 where st: "stop_server A (bs_shutdown_timeout (cg_bootstrap cg)) pg w = (outcome, srv, w1)"
      by (metis prod_cases3)
    from keeps_stop [OF assms st] keeps_drop [OF assms] unmanaged Some st show ?thesis
      using assms [unfolded keeps_entry_def]
      by (auto simp: stopped_world_def shutdown_world_def perform_shutdown_def drop_async_cluster_def drop_sync_cluster_def
          drop_async_in_process_def spawn_async_cleanup_def Let_def)
  qed
qed

section \<open>Properties\<close>

text \<open>
  C1. However a cluster is started and whatever becomes of the start, the environment comes back. Begin with an
  idle thread, optionally open the scope that names the worker, and start a cluster, of either kind. If that
  fails, dropping the worker's scope gives the environment of the beginning. If it succeeds, dropping the
  guard at any later time does, whatever the shutdown does, although the two scopes are then left in
  the order in which they were entered. In both cases the thread is idle again and no drop panics or waits.
\<close>

theorem cluster_restores_environment:
  assumes idle: "scope_inv t s0" "ts_depth (snd s0) = 0"
    and worker: "case wg of None \<Rightarrow> s = s0 | Some g \<Rightarrow> scoped_apply t vars s0 = (Returned g, s)"
    and new: "new_split A t s w = Some (Returned r, s', w') \<or> start_async_split A t s w = Some (Returned r, s', w')"
  shows "case r of
      Inl _ \<Rightarrow> (\<exists>s''. drop_worker_guard t wg s' = (Returned (), s'') \<and>
        scope_inv t s'' \<and> ts_depth (snd s'') = 0 \<and> pr_env (fst s'') = pr_env (fst s0))
    | Inr (h, cg) \<Rightarrow> (\<exists>task s'' v'. drop_cluster_guard A t in_runtime (with_worker_guard cg wg) s' v = (Returned (), task, s'', v') \<and>
        scope_inv t s'' \<and> ts_depth (snd s'') = 0 \<and> pr_env (fst s'') = pr_env (fst s0) \<and> w_env v' = pr_env (fst s0))"
proof -
  have none: "\<not> live_at s0 j" for j using idle scope_inv_idle_iff by blast
  have base: "base_env s0 = pr_env (fst s0)" by (rule scope_inv_idle(4) [OF idle])
  have s: "scope_inv t s" "base_env s = base_env s0" "live_at s j \<longleftrightarrow> (\<exists>g. wg = Some g \<and> j = fst g)" for j
    using worker idle none scoped_apply_live [OF idle(1), of vars _ s] by (auto split: option.splits)
  note s' = new_split_live [OF s(1) new]
  have wg_live: "\<forall>g. wg = Some g \<longrightarrow> live_at s' (fst g)" using s' s(3) by (auto split: sum.splits prod.splits)
  obtain s1 where s1: "drop_worker_guard t wg s' = (Returned (), s1)" "scope_inv t s1" "base_env s1 = base_env s'"
      "\<And>j. live_at s1 j \<longleftrightarrow> live_at s' j \<and> (\<forall>g. wg = Some g \<longrightarrow> j \<noteq> fst g)"
    using drop_worker_guard_live [OF conjunct1 [OF s'] wg_live] by blast
  show ?thesis
  proof (cases r)
    case (Inl e)
    with s' s(3) s1(4) have "\<not> live_at s1 j" for j by auto
    from no_live_idle [OF s1(2) this] show ?thesis using Inl s1 s' s(2) base by auto
  next
    case (Inr hcg)
    obtain h cg where hcg: "hcg = (h, cg)" by (cases hcg)
    with Inr s' s(3) s1(4) have live: "live_at s1 j \<longleftrightarrow> j = fst (cg_env_guard cg)" for j by auto
    then have "live_at s1 (fst (cg_env_guard cg))" by simp
    from drop_scoped_live [OF s1(2) this] live obtain s2 where
        s2: "drop_scoped_env t (cg_env_guard cg) s1 = (Returned (), s2)" "scope_inv t s2"
        "base_env s2 = base_env s1" "\<And>j. \<not> live_at s2 j"
      by blast
    from s1(1) s2(1) have "drop_scopes t (with_worker_guard cg wg) s' = (Returned (), s2)"
      by (simp add: drop_scopes_def with_worker_guard_def)
    moreover obtain task v' where "(if should_skip_shutdown (with_worker_guard cg wg) then (None, v)
        else perform_shutdown A in_runtime (with_worker_guard cg wg) v) = (task, v')"
      by fastforce
    ultimately have "drop_cluster_guard A t in_runtime (with_worker_guard cg wg) s' v = (Returned (), task, s2, with_env s2 v')"
      by (simp add: drop_cluster_guard_def)
    moreover have "pr_env (fst s2) = pr_env (fst s0)" "w_env (with_env s2 v') = pr_env (fst s0)"
      using no_live_idle(2) [OF s2(2,4)] s2(3) s1(3) s' s(2) base by (simp_all add: with_env_def)
    ultimately show ?thesis using no_live_idle(1) [OF s2(2,4)] s2(2) unfolding Inr hcg sum.case prod.case by blast
  qed
qed

text \<open>
  C40. Stopping a cluster explicitly stops it once if the server runs in process, but twice if the worker
  manages it. \<open>stop_async\<close> consumes the cluster, so its guard is dropped at the end; the server has been
  taken out of it, but nothing clears the mark that the worker is in charge, so that the drop hands the
  runtime a task that stops the cluster again, with the very request of the first stop.
\<close>

theorem stop_async_stops_twice:
  assumes guard: "cg_runtime cg = AsyncRuntime"
    and stop: "stop_async A t True cg s w = (Returned r, task, s', w')"
  shows "if cg_managed cg
    then (r, w') = (case stop_via_worker_sync A (cg_bootstrap cg) (cg_env_vars cg) w of (r, w1) \<Rightarrow> (r, with_env s' w1)) \<and>
      task = Some (WorkerStopTask (cg_bootstrap cg) (cg_env_vars cg)) \<and>
      run_stop_task A (WorkerStopTask (cg_bootstrap cg) (cg_env_vars cg)) w' =
        snd (stop_via_worker_sync A (cg_bootstrap cg) (cg_env_vars cg) w')
    else task = None"
proof -
  have again: "worker_stop_sync A b ev v = snd (stop_via_worker_sync A b ev v)" for b ev v
    by (auto simp: worker_stop_sync_def stop_via_worker_sync_def try_st_def split: sum.split)
  show ?thesis
    using stop guard
    by (auto simp: stop_async_def stop_async_path_def drop_cluster_guard_def should_skip_shutdown_def perform_shutdown_def
        runtime_is_async_def drop_async_cluster_def drop_async_worker_managed_def again
        split: prod.splits ctl.splits if_splits option.splits)
qed


lemma with_env_files: "entry (with_env e w) q = entry w q" "there (with_env e w) p \<longleftrightarrow> there w p"
proof -
  have entry: "entry (with_env e w) = entry w" for w by (simp add: with_env_def entry_def fun_eq_iff)
  then show "entry (with_env e w) q = entry w q" by simp
  have "entry_at (with_env e w) q = entry_at w q" for q by (simp add: entry_at_def entry)
  then show "there (with_env e w) p \<longleftrightarrow> there w p"
    by (simp add: there_def node_of_def resolve_def entry) (simp add: with_env_def)
qed

text \<open>
  What a stopped cluster leaves behind. Once a guard with a runtime of its own is dropped and its cluster has stopped,
  in process or through the worker, and the cleanup had nothing to warn of, then nothing the cleanup mode names
  is there any more, no task is left to run, and all else is as the stop had left it.
\<close>

theorem stopped_cluster_leaves_nothing:
  assumes runtime: "cg_runtime cg = SyncRuntime"
    and stopped: "stopped_world A cg w = Some v"
    and targets: "targets = cleanup_targets (bs_cleanup_mode (cg_bootstrap cg)) (bs_settings (cg_bootstrap cg))"
    and quiet: "list_all (\<lambda>e. \<not> event_is_warning e)
      (fst (cleanup_in_process (bs_cleanup_mode (cg_bootstrap cg)) (bs_settings (cg_bootstrap cg)) v))"
    and drop: "drop_cluster_guard A t in_runtime cg s w = (r, task, s', w')"
  shows "task = None \<and> (\<forall>p\<in>set targets. \<not> there w' p) \<and>
    (\<forall>q. q \<notin> (\<Union>p\<in>set targets. tree_of v p) \<longrightarrow> entry w' q = entry v q)"
proof -
  let ?m = "bs_cleanup_mode (cg_bootstrap cg)" and ?s = "bs_settings (cg_bootstrap cg)"
  have w': "task = None \<and> w' = with_env s' (snd (cleanup_in_process ?m ?s v))"
    using stopped drop runtime
    by (auto simp: stopped_world_def drop_cluster_guard_def should_skip_shutdown_def perform_shutdown_def runtime_is_async_def
        drop_sync_cluster_def stop_worker_managed_with_runtime_def Let_def
        split: prod.splits sum.splits option.splits if_splits)
  have "\<forall>p\<in>set targets. \<not> there (snd (cleanup_in_process ?m ?s v)) p"
    using cleanup_complete_and_idempotent [OF quiet] by (simp add: targets)
  moreover have "entry (snd (cleanup_in_process ?m ?s v)) q = entry v q" if "q \<notin> (\<Union>p\<in>set targets. tree_of v p)" for q
    using removal.sweep_confined [of targets v q] that by (auto simp: cleanup_in_process_sweep targets)
  ultimately show ?thesis using w' by (auto simp: with_env_files)
qed

section \<open>Examples\<close>

theorem cluster_restores_environment_witness:
  "\<exists>h cg s' w' task s'' v'. new_split idle_cluster 0 demo_scope boot_world = Some (Returned (Inr (h, cg)), s', w') \<and>
     drop_cluster_guard idle_cluster 0 False (with_worker_guard cg None) s' w' = (Returned (), task, s'', v') \<and>
     pr_env (fst s'') = pr_env (fst demo_scope)"
proof -
  obtain h cg s' w' where new: "new_split idle_cluster 0 demo_scope boot_world = Some (Returned (Inr (h, cg)), s', w')"
    by (rule idle_new_split)
  have "case None of None \<Rightarrow> demo_scope = demo_scope | Some g \<Rightarrow> scoped_apply 0 [] demo_scope = (Returned g, demo_scope)"
    by simp
  from cluster_restores_environment [OF demo_scope_inv this disjI1 [OF new], of False w'] new show ?thesis by auto
qed

definition managed_guard :: "settings cluster_guard" where
  "managed_guard = \<lparr>cg_runtime = AsyncRuntime, cg_postgres = None, cg_bootstrap = pid_bootstrap, cg_managed = True,
     cg_env_vars = [], cg_worker_guard = None, cg_env_guard = (0, 0)\<rparr>"

theorem stop_async_stops_twice_witness:
  "\<exists>r s' w'. stop_async idle_cluster 0 True managed_guard demo_scope boot_world =
     (Returned r, Some (WorkerStopTask pid_bootstrap []), s', w')"
proof -
  obtain s' where drop: "drop_scopes 0 managed_guard demo_scope = (Returned (), s')"
    using exit_total [of 0 "fst demo_scope" "snd demo_scope" 0] demo_scope_inv
    by (auto simp: drop_scopes_def drop_worker_guard_def managed_guard_def drop_scoped_env_def)
  obtain r task w' where stop: "stop_async idle_cluster 0 True managed_guard demo_scope boot_world = (Returned r, task, s', w')"
  proof -
    have "stop_async_path managed_guard = (WorkerManaged, managed_guard)"
      by (simp add: stop_async_path_def managed_guard_def)
    then have "\<exists>r task w'. stop_async idle_cluster 0 True managed_guard demo_scope boot_world = (Returned r, task, s', w')"
      by (simp add: stop_async_def drop_cluster_guard_def drop split: prod.split)
    with that show thesis by blast
  qed
  have "cg_runtime managed_guard = AsyncRuntime" by (simp add: managed_guard_def)
  from stop_async_stops_twice [OF this stop] stop show ?thesis by (simp add: managed_guard_def)
qed

lemma idle_keeps: "q \<noteq> [RootDir, Normal ''payload''] \<Longrightarrow> keeps_entry idle_cluster q"
  by (auto simp: keeps_entry_def idle_cluster_def stop_server_def server_call_def idle_pg_def run_process_def write_payload_def
      configure_command_def apply_privileges_def apply_privilege_drop_def resolve_nobody_ids_def chown_payload_def noop_ext_def
      run_worker_command_def run_command_with_timeout_def close_payload_def calm_process_def try_st_def map_err_st_def map_err_def
      handle_exit_def Let_def split: sum.splits prod.splits option.splits)

definition server_guard :: "settings cluster_guard" where
  "server_guard = managed_guard\<lparr>cg_runtime := SyncRuntime, cg_postgres := Some demo_settings, cg_managed := False\<rparr>"


theorem stopped_cluster_leaves_nothing_witness:
  "\<exists>r s' w'. drop_cluster_guard idle_cluster 0 False server_guard demo_scope demo_world = (r, None, s', w') \<and>
     there demo_world [RootDir, Normal ''d''] \<and> \<not> there w' [RootDir, Normal ''d'']"
proof -
  have stopped: "stopped_world idle_cluster server_guard demo_world = Some demo_world"
    by (simp add: stopped_world_def server_guard_def managed_guard_def runtime_is_async_def stop_server_def idle_cluster_def
        server_call_def idle_pg_def drop_server_def pid_bootstrap_def)
  have targets: "[[RootDir, Normal ''d'']] =
      cleanup_targets (bs_cleanup_mode (cg_bootstrap server_guard)) (bs_settings (cg_bootstrap server_guard))"
    by (simp add: cleanup_targets_def should_remove_data_def should_remove_install_def demo_settings_def demo_components
        server_guard_def managed_guard_def pid_bootstrap_def)
  have quiet: "list_all (\<lambda>e. \<not> event_is_warning e)
      (fst (cleanup_in_process (bs_cleanup_mode (cg_bootstrap server_guard)) (bs_settings (cg_bootstrap server_guard)) demo_world))"
    by (simp add: server_guard_def managed_guard_def pid_bootstrap_def demo_cleanup(1))
  have runtime: "cg_runtime server_guard = SyncRuntime" by (simp add: server_guard_def)
  obtain r task s' w' where drop: "drop_cluster_guard idle_cluster 0 False server_guard demo_scope demo_world = (r, task, s', w')"
    by (cases "drop_cluster_guard idle_cluster 0 False server_guard demo_scope demo_world") auto
  from stopped_cluster_leaves_nothing [OF runtime stopped targets quiet drop] drop show ?thesis
    by (auto simp: there_def demo_cleanup(2))
qed

end
