(* ===== verification/Shutdown_Hook.thy ===== *)
theory Shutdown_Hook
  imports Cluster_Stop
begin

text \<open>
  The hook that stops the server when the process exits: \<open>src/src/cluster/shutdown_hook.rs\<close>, and
  \<open>register_shutdown_on_exit\<close> of \<open>handle.rs\<close>. What the C library, the clock and the process table do is the
  record \<open>kernel\<close> over a state of its own; \<open>os\<close> keeps beside it the calls of \<open>kill\<close> the model has made and the
  number of callbacks the C library holds. The static \<open>SHUTDOWN_STATE\<close> is a \<open>shutdown_state option\<close>.
  The loop that waits for the server may run forever as far as the code is concerned, so it is a partial
  function; that it does return, and after how many polls, is a theorem about a clock that moves on.
\<close>

section \<open>The operating system\<close>

record 's kernel =
  ke_kill :: "int \<Rightarrow> nat \<Rightarrow> 's \<Rightarrow> nat option \<times> 's"
  ke_now :: "'s \<Rightarrow> nat"
  ke_sleep :: "duration \<Rightarrow> 's \<Rightarrow> 's"
  ke_atexit :: "'s \<Rightarrow> int \<times> 's"
  ke_world :: "'s \<Rightarrow> world"
  ke_with_world :: "world \<Rightarrow> 's \<Rightarrow> 's"

record 's os =
  os_kernel :: 's
  os_calls :: "(int \<times> nat) list"
  os_hooks :: nat

definition sigterm :: nat where "sigterm = 15"
definition sigkill :: nat where "sigkill = 9"
definition esrch :: nat where "esrch = 3"

text \<open>\<open>libc::kill\<close>: \<open>None\<close> for a return value of zero, otherwise the error number.\<close>

definition kill :: "'s kernel \<Rightarrow> int \<Rightarrow> nat \<Rightarrow> 's os \<Rightarrow> nat option \<times> 's os" where
  "kill K pid signal s =
     (case ke_kill K pid signal (os_kernel s) of
        (r, k) \<Rightarrow> (r, s\<lparr>os_kernel := k, os_calls := os_calls s @ [(pid, signal)]\<rparr>))"

section \<open>Registration\<close>

record shutdown_state =
  sh_settings :: settings
  sh_timeout :: duration
  sh_mode :: cleanup_mode

definition poll_interval :: duration where "poll_interval = from_millis 50"
definition post_sigkill_grace :: duration where "post_sigkill_grace = from_millis 100"

definition register_atexit :: "'s kernel \<Rightarrow> (int \<Rightarrow> string) \<Rightarrow> 's os \<Rightarrow> (bootstrap_error + unit) \<times> 's os" where
  "register_atexit K show_int s =
     (case ke_atexit K (os_kernel s) of
        (rc, k) \<Rightarrow>
          if rc \<noteq> 0
          then (Inl (bootstrap_msg (''libc::atexit registration failed (rc='' @ show_int rc @ '')'')), s\<lparr>os_kernel := k\<rparr>)
          else (Inr (), s\<lparr>os_kernel := k, os_hooks := os_hooks s + 1\<rparr>))"

text \<open>A poisoned mutex is taken as it is, so the lock has no other effect than exclusion.\<close>

definition register_shutdown_hook ::
  "'s kernel \<Rightarrow> (int \<Rightarrow> string) \<Rightarrow> settings \<Rightarrow> duration \<Rightarrow> cleanup_mode \<Rightarrow> shutdown_state option \<Rightarrow> 's os \<Rightarrow>
     (bootstrap_error + unit) \<times> shutdown_state option \<times> 's os" where
  "register_shutdown_hook K show_int st timeout mode slot s =
     (if slot \<noteq> None then (Inr (), slot, s)
      else case register_atexit K show_int s of
        (Inl e, s1) \<Rightarrow> (Inl e, slot, s1)
      | (Inr _, s1) \<Rightarrow> (Inr (), Some \<lparr>sh_settings = st, sh_timeout = timeout, sh_mode = mode\<rparr>, s1))"

definition register_shutdown_on_exit ::
  "'s kernel \<Rightarrow> (int \<Rightarrow> string) \<Rightarrow> cluster_handle \<Rightarrow> shutdown_state option \<Rightarrow> 's os \<Rightarrow>
     (bootstrap_error + unit) \<times> shutdown_state option \<times> 's os" where
  "register_shutdown_on_exit K show_int h slot s =
     register_shutdown_hook K show_int (bs_settings (ch_bootstrap h)) (bs_shutdown_timeout (ch_bootstrap h))
       (bs_cleanup_mode (ch_bootstrap h)) slot s"

section \<open>The callback\<close>

definition read_postmaster_pid :: "pathbuf \<Rightarrow> world \<Rightarrow> int option" where
  "read_postmaster_pid data_dir w =
     (case read_to_string (components (join_path data_dir ''postmaster.pid'')) w of
        Inl _ \<Rightarrow> None
      | Inr contents \<Rightarrow>
          (case str_lines contents of
             [] \<Rightarrow> None
           | first_line # _ \<Rightarrow>
               (case parse_i32 (trim first_line) of
                  None \<Rightarrow> None
                | Some pid \<Rightarrow> if pid > 0 then Some pid else None)))"

definition process_is_running :: "'s kernel \<Rightarrow> int \<Rightarrow> 's os \<Rightarrow> bool \<times> 's os" where
  "process_is_running K pid s =
     (if pid \<le> 0 then (False, s)
      else case kill K pid 0 s of
        (None, s1) \<Rightarrow> (True, s1)
      | (Some code, s1) \<Rightarrow> (code \<noteq> esrch, s1))"

definition send_sigterm :: "'s kernel \<Rightarrow> int \<Rightarrow> 's os \<Rightarrow> 's os" where
  "send_sigterm K pid s = snd (kill K pid sigterm s)"

definition send_sigkill :: "'s kernel \<Rightarrow> int \<Rightarrow> 's os \<Rightarrow> 's os" where
  "send_sigkill K pid s = snd (kill K pid sigkill s)"

definition sleep :: "'s kernel \<Rightarrow> duration \<Rightarrow> 's os \<Rightarrow> 's os" where
  "sleep K d s = s\<lparr>os_kernel := ke_sleep K d (os_kernel s)\<rparr>"

definition now :: "'s kernel \<Rightarrow> 's os \<Rightarrow> nat" where
  "now K s = ke_now K (os_kernel s)"

partial_function (option) wait_loop :: "'s kernel \<Rightarrow> int \<Rightarrow> nat \<Rightarrow> 's os \<Rightarrow> (bool \<times> 's os) option" where
  "wait_loop K pid deadline s =
     (case process_is_running K pid s of
        (running, s1) \<Rightarrow>
          if \<not> running then Some (True, s1)
          else if now K s1 \<ge> deadline then Some (False, s1)
          else wait_loop K pid deadline (sleep K poll_interval s1))"

definition wait_for_exit :: "'s kernel \<Rightarrow> int \<Rightarrow> duration \<Rightarrow> 's os \<Rightarrow> (bool \<times> 's os) option" where
  "wait_for_exit K pid timeout s = wait_loop K pid (now K s + timeout) s"

definition stop_postmaster :: "'s kernel \<Rightarrow> int \<Rightarrow> shutdown_state \<Rightarrow> 's os \<Rightarrow> 's os option" where
  "stop_postmaster K pid h s =
     (case wait_for_exit K pid (sh_timeout h) (send_sigterm K pid s) of
        None \<Rightarrow> None
      | Some (True, s1) \<Rightarrow> Some s1
      | Some (False, s1) \<Rightarrow> Some (sleep K post_sigkill_grace (send_sigkill K pid s1)))"

definition best_effort_cleanup :: "'s kernel \<Rightarrow> shutdown_state \<Rightarrow> 's os \<Rightarrow> 's os" where
  "best_effort_cleanup K h s =
     s\<lparr>os_kernel := ke_with_world K
         (snd (cleanup_in_process (sh_mode h) (sh_settings h) (ke_world K (os_kernel s)))) (os_kernel s)\<rparr>"

text \<open>\<open>blocked\<close>: the mutex is poisoned or another thread holds it.\<close>

definition shutdown_callback :: "'s kernel \<Rightarrow> bool \<Rightarrow> shutdown_state option \<Rightarrow> 's os \<Rightarrow> 's os option" where
  "shutdown_callback K blocked slot s =
     (if blocked then Some s
      else case slot of
        None \<Rightarrow> Some s
      | Some h \<Rightarrow>
          (case read_postmaster_pid (st_data_dir (sh_settings h)) (ke_world K (os_kernel s)) of
             None \<Rightarrow> Some (best_effort_cleanup K h s)
           | Some pid \<Rightarrow>
               (case process_is_running K pid s of
                  (False, s1) \<Rightarrow> Some (best_effort_cleanup K h s1)
                | (True, s1) \<Rightarrow> map_option (best_effort_cleanup K h) (stop_postmaster K pid h s1))))"

section \<open>Lemmas\<close>

text \<open>A clock that never goes back and that sleeping moves on, as \<open>Instant\<close> and \<open>thread::sleep\<close> promise.\<close>

definition clock_spec :: "'s kernel \<Rightarrow> bool" where
  "clock_spec K \<longleftrightarrow>
     (\<forall>d k. ke_now K k + d \<le> ke_now K (ke_sleep K d k)) \<and>
     (\<forall>pid signal k. ke_now K k \<le> ke_now K (snd (ke_kill K pid signal k))) \<and>
     (\<forall>w k. ke_now K (ke_with_world K w k) = ke_now K k)"

lemma kill_calls [simp]: "os_calls (snd (kill K pid signal s)) = os_calls s @ [(pid, signal)]"
  by (simp add: kill_def split: prod.split)

lemma effect_calls [simp]:
  "os_calls (send_sigterm K pid s) = os_calls s @ [(pid, sigterm)]"
  "os_calls (send_sigkill K pid s) = os_calls s @ [(pid, sigkill)]"
  "os_calls (sleep K d s) = os_calls s" "os_calls (best_effort_cleanup K h s) = os_calls s"
  by (simp_all add: send_sigterm_def send_sigkill_def sleep_def best_effort_cleanup_def)

lemma running_calls:
  "0 < pid \<Longrightarrow> process_is_running K pid s = (r, s') \<Longrightarrow> os_calls s' = os_calls s @ [(pid, 0)]"
  using kill_calls [of K pid 0 s]
  by (cases "kill K pid 0 s") (auto simp: process_is_running_def split: option.splits)

lemma clock_mono:
  assumes "clock_spec K"
  shows "now K s \<le> now K (snd (kill K pid signal s))" "now K s + d \<le> now K (sleep K d s)"
    "now K (best_effort_cleanup K h s) = now K s" "now K s \<le> now K (send_sigterm K pid s)"
    "now K s \<le> now K (send_sigkill K pid s)"
proof -
  show kill: "now K s \<le> now K (snd (kill K pid signal s))" for signal
    using assms [unfolded clock_spec_def, THEN conjunct2, THEN conjunct1, rule_format, of "os_kernel s" pid signal]
    by (auto simp: now_def kill_def split: prod.splits)
  show "now K s + d \<le> now K (sleep K d s)" "now K (best_effort_cleanup K h s) = now K s"
    using assms by (auto simp: clock_spec_def now_def sleep_def best_effort_cleanup_def)
  show "now K s \<le> now K (send_sigterm K pid s)" "now K s \<le> now K (send_sigkill K pid s)"
    using kill by (auto simp: send_sigterm_def send_sigkill_def)
qed

lemma running_mono: "clock_spec K \<Longrightarrow> process_is_running K pid s = (r, s') \<Longrightarrow> now K s \<le> now K s'"
  using clock_mono(1) [of K s pid 0] by (auto simp: process_is_running_def split: if_splits prod.splits option.splits)

text \<open>The loop only probes.\<close>

lemma wait_loop_calls:
  assumes "wait_loop K pid deadline s = Some rs"
  shows "0 < pid \<longrightarrow> (\<exists>n. os_calls (snd rs) = os_calls s @ replicate (Suc n) (pid, 0))"
proof (rule wait_loop.raw_induct [OF _ assms], intro impI)
  fix f K pid deadline and s :: "'a os" and rs
  assume ih: "\<And>K pid deadline s rs. f K pid deadline s = Some rs \<Longrightarrow>
      0 < pid \<longrightarrow> (\<exists>n. os_calls (snd rs) = os_calls s @ replicate (Suc n) (pid, 0))"
    and body: "(case process_is_running K pid s of
        (running, s1) \<Rightarrow>
          if \<not> running then Some (True, s1)
          else if now K s1 \<ge> deadline then Some (False, s1)
          else f K pid deadline (sleep K poll_interval s1)) = Some rs"
    and pid: "0 < (pid :: int)"
  obtain running s1 where run: "process_is_running K pid s = (running, s1)" by fastforce
  note calls = running_calls [OF pid run]
  show "\<exists>n. os_calls (snd rs) = os_calls s @ replicate (Suc n) (pid, 0)"
  proof (cases "running \<and> now K s1 < deadline")
    case True
    with body run have "f K pid deadline (sleep K poll_interval s1) = Some rs" by simp
    from ih [OF this] pid obtain n where "os_calls (snd rs) = os_calls (sleep K poll_interval s1) @ replicate (Suc n) (pid, 0)"
      by auto
    with calls show ?thesis by (intro exI [of _ "Suc n"]) simp
  next
    case False
    with body run calls show ?thesis by (intro exI [of _ 0]) (auto split: if_splits)
  qed
qed

text \<open>With a clock that moves on it ends, after a number of polls that the time left bounds.\<close>

lemma poll_nanos [simp]: "poll_interval = 50000000"
  by (simp add: poll_interval_def from_millis_def)

lemma wait_loop_ends:
  assumes clock: "clock_spec K" and pid: "0 < pid"
  shows "\<exists>gone s' n. wait_loop K pid deadline s = Some (gone, s') \<and>
    os_calls s' = os_calls s @ replicate n (pid, 0) \<and> n * poll_interval < deadline - now K s + 2 * poll_interval \<and>
    now K s \<le> now K s' \<and> (gone \<or> deadline \<le> now K s')"
proof (induction "deadline - now K s" arbitrary: s rule: less_induct)
  case less
  obtain running s1 where run: "process_is_running K pid s = (running, s1)" by fastforce
  note calls = running_calls [OF pid run] and mono = running_mono [OF clock run]
  have unfold: "wait_loop K pid deadline s =
      (if \<not> running then Some (True, s1) else if now K s1 \<ge> deadline then Some (False, s1)
       else wait_loop K pid deadline (sleep K poll_interval s1))"
    by (subst wait_loop.simps) (simp add: run)
  show ?case
  proof (cases "running \<and> now K s1 < deadline")
    case True
    let ?s = "sleep K poll_interval s1"
    have later: "now K s + 50000000 \<le> now K ?s" using clock_mono(2) [OF clock, of s1 poll_interval] mono by simp
    from True mono later have "deadline - now K ?s < deadline - now K s" by arith
    from less [OF this] obtain gone s' n where ih: "wait_loop K pid deadline ?s = Some (gone, s')"
        "os_calls s' = os_calls ?s @ replicate n (pid, 0)"
        "n * 50000000 < deadline - now K ?s + 100000000"
        "now K ?s \<le> now K s'" "gone \<or> deadline \<le> now K s'" by auto
    have fewer: "Suc n * 50000000 < deadline - now K s + 2 * 50000000"
    proof (cases "deadline - now K ?s = 0")
      case True
      with ih(3) have "n \<le> 1" by simp
      then have "Suc n * 50000000 \<le> 2 * 50000000" by simp
      with \<open>running \<and> now K s1 < deadline\<close> mono show ?thesis by linarith
    next
      case False
      with later have "deadline - now K ?s + 50000000 \<le> deadline - now K s" by linarith
      with ih(3) show ?thesis by simp
    qed
    show ?thesis unfolding poll_nanos
    proof (intro exI conjI)
      show "wait_loop K pid deadline s = Some (gone, s')" using unfold True ih(1) by simp
      show "os_calls s' = os_calls s @ replicate (Suc n) (pid, 0)" using ih(2) calls by simp
      show "Suc n * 50000000 < deadline - now K s + 2 * 50000000" by (rule fewer)
      show "now K s \<le> now K s'" using ih(4) later by simp
    qed (rule ih(5))
  next
    case False
    show ?thesis unfolding poll_nanos
    proof (intro exI conjI)
      show "wait_loop K pid deadline s = Some (\<not> running, s1)" using unfold False by auto
      show "os_calls s1 = os_calls s @ replicate 1 (pid, 0)" using calls by simp
      show "\<not> running \<or> deadline \<le> now K s1" using False by auto
    qed (use mono in simp_all)
  qed
qed

text \<open>The identifier in the first line, as the server writes it, is read back; what is read is a positive \<open>pid_t\<close>.\<close>

lemma read_postmaster_pid_line:
  assumes "read_to_string (components (join_path d ''postmaster.pid'')) w = Inr (show_nat n @ CHR 0x0A # rest)"
    and "0 < n" "n \<le> 2147483647"
  shows "read_postmaster_pid d w = Some (int n)"
proof -
  let ?nl = "CHR 0x0A"
  have digits: "?nl \<notin> set (show_nat n)" "CHR 0x0D \<notin> set (show_nat n)" "CHR ''-'' \<notin> set (show_nat n)"
    using show_nat_digit [of _ n] by (fastforce simp: byte_def)+
  then have last: "last (show_nat n) \<noteq> CHR 0x0D" by (metis last_in_set show_nat_nonempty)
  obtain R l where "split_on ?nl rest = R @ [l]" by (metis append_butlast_last_id split_on_nonempty)
  then have "\<exists>ls. str_lines (show_nat n @ ?nl # rest) = show_nat n # ls"
    using digits last by (auto simp: str_lines_def split_on_append chomp_cr_def)
  moreover have "parse_i32 (show_nat n) = Some (int n)"
    using assms(3) digits(3) by (cases "show_nat n") (auto simp: parse_i32_def dest: parse_unsigned_show)
  ultimately show ?thesis using assms(1,2) by (auto simp: read_postmaster_pid_def)
qed

lemma parse_i32_bounds: "parse_i32 s = Some n \<Longrightarrow> - 2147483648 \<le> n \<and> n \<le> 2147483647"
  by (auto simp: parse_i32_def split: list.splits if_splits option.splits dest: parse_unsigned_le)

lemma read_postmaster_pid_bounds: "read_postmaster_pid d w = Some pid \<Longrightarrow> 0 < pid \<and> pid \<le> 2147483647"
  by (auto simp: read_postmaster_pid_def split: sum.splits list.splits option.splits if_splits dest: parse_i32_bounds)

text \<open>The calls the callback makes for a process identifier.\<close>

definition hook_calls :: "int \<Rightarrow> (int \<times> nat) list set" where
  "hook_calls pid = insert [(pid, 0)]
     {(pid, 0) # (pid, sigterm) # replicate (Suc n) (pid, 0) @ tail | n tail. tail \<in> {[], [(pid, sigkill)]}}"

lemma callback_ends:
  assumes "clock_spec K"
  shows "\<exists>s'. shutdown_callback K blocked slot s = Some s'"
proof -
  have "\<exists>s2. stop_postmaster K pid h s1 = Some s2" if "0 < pid" for pid h s1
    using wait_loop_ends [OF assms that]
    by (fastforce simp: stop_postmaster_def wait_for_exit_def split: option.split bool.split)
  then show ?thesis
    using read_postmaster_pid_bounds by (fastforce simp: shutdown_callback_def split: option.split prod.split bool.split)
qed

lemma registered_callback:
  assumes "shutdown_callback K False (Some h) s = Some s'"
  shows "\<exists>s1. s' = best_effort_cleanup K h s1 \<and>
    (case read_postmaster_pid (st_data_dir (sh_settings h)) (ke_world K (os_kernel s)) of
       None \<Rightarrow> s1 = s
     | Some pid \<Rightarrow> 0 < pid \<and> pid \<le> 2147483647 \<and> (\<exists>calls\<in>hook_calls pid. os_calls s1 = os_calls s @ calls))"
proof (cases "read_postmaster_pid (st_data_dir (sh_settings h)) (ke_world K (os_kernel s))")
  case None
  with assms show ?thesis by (auto simp: shutdown_callback_def)
next
  case (Some pid)
  note pid = read_postmaster_pid_bounds [OF Some]
  obtain running s1 where run: "process_is_running K pid s = (running, s1)" by fastforce
  note calls = running_calls [OF conjunct1 [OF pid] run]
  have "\<exists>s2. s' = best_effort_cleanup K h s2 \<and> (\<exists>calls\<in>hook_calls pid. os_calls s2 = os_calls s @ calls)"
  proof (cases running)
    case True
    with assms Some run obtain s2 where stop: "stop_postmaster K pid h s1 = Some s2" "s' = best_effort_cleanup K h s2"
      by (auto simp: shutdown_callback_def)
    then obtain gone s3 where wait: "wait_for_exit K pid (sh_timeout h) (send_sigterm K pid s1) = Some (gone, s3)"
        "s2 = (if gone then s3 else sleep K post_sigkill_grace (send_sigkill K pid s3))"
      by (auto simp: stop_postmaster_def split: option.splits bool.splits)
    with wait_loop_calls [of K pid _ "send_sigterm K pid s1" "(gone, s3)"] pid obtain n where
      "os_calls s3 = os_calls (send_sigterm K pid s1) @ replicate (Suc n) (pid, 0)" by (auto simp: wait_for_exit_def)
    with wait(2) calls have "os_calls s2 = os_calls s @ ((pid, 0) # (pid, sigterm) # replicate (Suc n) (pid, 0) @
        (if gone then [] else [(pid, sigkill)]))" by simp
    moreover have "(pid, 0) # (pid, sigterm) # replicate (Suc n) (pid, 0) @ (if gone then [] else [(pid, sigkill)]) \<in> hook_calls pid"
      by (cases gone) (auto simp: hook_calls_def)
    ultimately show ?thesis using stop(2) by blast
  next
    case False
    with assms Some run calls show ?thesis by (auto simp: shutdown_callback_def hook_calls_def)
  qed
  with Some pid show ?thesis by auto
qed

section \<open>Properties\<close>

text \<open>
  C12. The callback signals no process but the one named in \<open>postmaster.pid\<close>, whose identifier is positive, so
  never a process group. It probes it; only if it is running it sends SIGTERM, then only probes, and last SIGKILL
  at most once. In every case it ends with the cleanup, even if no identifier could be read or the process
  survives. Without a registration, or if the slot cannot be locked, it does nothing.
\<close>

theorem shutdown_callback_signals:
  assumes "shutdown_callback K blocked slot s = Some s'"
  shows "case (if blocked then None else slot) of
      None \<Rightarrow> s' = s
    | Some h \<Rightarrow> (\<exists>s1. s' = best_effort_cleanup K h s1 \<and>
        (case read_postmaster_pid (st_data_dir (sh_settings h)) (ke_world K (os_kernel s)) of
           None \<Rightarrow> s1 = s
         | Some pid \<Rightarrow> 0 < pid \<and> pid \<le> 2147483647 \<and> (\<exists>calls\<in>hook_calls pid. os_calls s1 = os_calls s @ calls)))"
proof (cases "blocked \<or> slot = None")
  case True
  with assms show ?thesis by (auto simp: shutdown_callback_def split: if_splits)
next
  case False
  then obtain h where "slot = Some h" "\<not> blocked" by auto
  with registered_callback [of K h s s'] assms show ?thesis by simp
qed


text \<open>
  The hook is registered at most once, whatever is registered in whatever order: the C library holds one
  callback if the slot is filled and none otherwise, what is in the slot is one of the registrations, and a filled
  slot stays as it is.
\<close>

fun register_all ::
  "'s kernel \<Rightarrow> (int \<Rightarrow> string) \<Rightarrow> (settings \<times> duration \<times> cleanup_mode) list \<Rightarrow> shutdown_state option \<Rightarrow> 's os \<Rightarrow>
     shutdown_state option \<times> 's os" where
  "register_all K show_int [] slot s = (slot, s)"
| "register_all K show_int ((st, timeout, mode) # rs) slot s =
     (case register_shutdown_hook K show_int st timeout mode slot s of
        (_, slot', s') \<Rightarrow> register_all K show_int rs slot' s')"

theorem hook_registered_once:
  "case register_all K show_int rs slot s of
     (slot', s') \<Rightarrow> os_hooks s' = os_hooks s + (if slot = None \<and> slot' \<noteq> None then 1 else 0) \<and>
       (slot' = slot \<or> (\<exists>h. slot = None \<and> slot' = Some h \<and> (sh_settings h, sh_timeout h, sh_mode h) \<in> set rs))"
proof (induction rs arbitrary: slot s)
  case (Cons r rs)
  obtain st timeout mode where r: "r = (st, timeout, mode)" by (cases r)
  obtain e slot1 s1 where reg: "register_shutdown_hook K show_int st timeout mode slot s = (e, slot1, s1)"
    by (cases "register_shutdown_hook K show_int st timeout mode slot s")
  then have "os_hooks s1 = os_hooks s + (if slot = None \<and> slot1 \<noteq> None then 1 else 0)"
    "slot1 = slot \<or> slot = None \<and> slot1 = Some \<lparr>sh_settings = st, sh_timeout = timeout, sh_mode = mode\<rparr>"
    by (auto simp: register_shutdown_hook_def register_atexit_def split: if_splits sum.splits prod.splits)
  with Cons.IH [of s1 slot1] r reg show ?case by (auto split: prod.splits if_splits)
qed auto

section \<open>Examples\<close>

text \<open>A server with process identifier 4711 that only SIGKILL ends, and a clock that only sleeping moves.\<close>

definition stubborn_kernel :: "(world \<times> nat \<times> bool) kernel" where
  "stubborn_kernel =
     \<lparr>ke_kill = (\<lambda>pid signal (w, t, alive). if \<not> alive then (Some esrch, w, t, alive)
        else (None, w, t, signal \<noteq> sigkill)),
      ke_now = (\<lambda>(w, t, alive). t), ke_sleep = (\<lambda>d (w, t, alive). (w, t + d, alive)),
      ke_atexit = (\<lambda>k. (0, k)), ke_world = fst, ke_with_world = (\<lambda>w k. (w, snd k))\<rparr>"

lemma stubborn_clock: "clock_spec stubborn_kernel"
  by (auto simp: clock_spec_def stubborn_kernel_def split: prod.split)

definition hook_world :: world where
  "hook_world = demo_world\<lparr>w_fs := [([RootDir, Normal ''d''], root_node), ([RootDir, Normal ''d'', Normal ''postmaster.pid''],
     root_node\<lparr>nd_kind := KFile (show_nat 4711 @ CHR 0x0A # [])\<rparr>)]\<rparr>"

definition hook_state :: shutdown_state where
  "hook_state = \<lparr>sh_settings = demo_settings, sh_timeout = from_secs 1, sh_mode = DataOnly\<rparr>"

definition hook_os :: "(world \<times> nat \<times> bool) os" where
  "hook_os = \<lparr>os_kernel = (hook_world, 0, True), os_calls = [], os_hooks = 1\<rparr>"

lemma hook_pid: "read_postmaster_pid (st_data_dir (sh_settings hook_state)) (ke_world stubborn_kernel (os_kernel hook_os)) = Some 4711"
proof -
  have "components (join_path ''/d'' ''postmaster.pid'') = [RootDir, Normal ''d'', Normal ''postmaster.pid'']"
    by (simp add: components_def join_path_def is_abs_def body_comps_def seg_comp_def)
  moreover have "utf8_valid (show_nat 4711 @ CHR 0x0A # [])"
    by (rule utf8_valid_ascii) (auto simp: byte_def dest!: show_nat_digit)
  ultimately have "read_to_string (components (join_path ''/d'' ''postmaster.pid'')) hook_world = Inr (show_nat 4711 @ CHR 0x0A # [])"
    by (simp add: read_to_string_def guarded_def node_of_def resolve_def entry_def entry_at_def hook_world_def demo_world_def
        root_node_def del: utf8_valid.simps)
  from read_postmaster_pid_line [OF this] show ?thesis
    by (simp add: hook_state_def demo_settings_def stubborn_kernel_def hook_os_def)
qed

theorem shutdown_callback_signals_witness:
  "\<exists>s' s1. shutdown_callback stubborn_kernel False (Some hook_state) hook_os = Some s' \<and>
     s' = best_effort_cleanup stubborn_kernel hook_state s1 \<and> os_calls s1 \<in> hook_calls 4711"
proof -
  obtain s' where run: "shutdown_callback stubborn_kernel False (Some hook_state) hook_os = Some s'"
    using callback_ends [OF stubborn_clock] by blast
  from shutdown_callback_signals [OF run] hook_pid show ?thesis
    using run by (auto simp: hook_os_def)
qed


end
