(* ===== verification/Worker_Staging.thy ===== *)
theory Worker_Staging
  imports Cache_Copy Bootstrap_Env
begin

text \<open>
  Finding the worker's program for the tests and staging it where an unprivileged process can run it:
  \<open>src/src/test_support/worker_env.rs\<close>. Other users share the temporary directory, so the calls of the staging are
  interleaved with steps of theirs: \<open>other k\<close> is what they do before the \<open>k\<close>-th call, and \<open>bystander\<close> says what
  they cannot do. The path of the running program, the times of modification and the digest of
  \<open>sha2\<close> are parameters.
\<close>

section \<open>Calls\<close>

text \<open>\<open>fs::rename\<close> of a file: the new name is replaced unless it is a directory.\<close>

definition fs_rename :: "path \<Rightarrow> path \<Rightarrow> unit io" where
  "fs_rename src dst w =
     (case node_of False w src of
        Inl k \<Rightarrow> (Inl k, w)
      | Inr (p, n) \<Rightarrow>
          (case guarded w (SysWrite dst) (resolve False w dst) of
             Inl k \<Rightarrow> (Inl k, w)
           | Inr q \<Rightarrow>
               if nd_kind n = KDir \<or> (case entry_at w q of None \<Rightarrow> False | Some m \<Rightarrow> nd_kind m = KDir) then (Inl OtherIo, w)
               else (Inr (), put_entry q n (drop_entries (\<lambda>r. r = p) w))))"

text \<open>\<open>env::temp_dir\<close>.\<close>

definition temp_dir :: "world \<Rightarrow> pathbuf" where
  "temp_dir w = (case var_os ''TMPDIR'' w of None \<Rightarrow> ''/tmp'' | Some d \<Rightarrow> d)"

text \<open>A path as text, for what is found from the path of the running program.\<close>

fun comp_text :: "component \<Rightarrow> string" where
  "comp_text RootDir = ''/''"
| "comp_text CurDir = ''.''"
| "comp_text ParentDir = ''..''"
| "comp_text (Normal n) = n"

fun join_names :: "string list \<Rightarrow> string" where
  "join_names [] = []"
| "join_names [n] = n"
| "join_names (n # ns) = n @ CHR ''/'' # join_names ns"

definition path_text :: "path \<Rightarrow> pathbuf" where
  "path_text cs = (case cs of
       RootDir # rest \<Rightarrow> CHR ''/'' # join_names (map comp_text rest)
     | _ \<Rightarrow> join_names (map comp_text cs))"

section \<open>Where the worker is staged\<close>

fun profile_name :: "string \<Rightarrow> string" where
  "profile_name name = (if name = ''debug'' then ''debug'' else if name = ''release'' then ''release'' else ''unknown'')"

definition utf8_name :: "path \<Rightarrow> string option" where
  "utf8_name p = (case file_name p of None \<Rightarrow> None | Some n \<Rightarrow> if utf8_valid n then Some n else None)"

definition check_deps_parent_for_profile :: "path \<Rightarrow> (string \<times> path option) option" where
  "check_deps_parent_for_profile deps_dir =
     (case path_parent deps_dir of
        None \<Rightarrow> None
      | Some profile_dir \<Rightarrow>
          (case utf8_name profile_dir of
             None \<Rightarrow> None
           | Some n \<Rightarrow> Some (profile_name n, Some profile_dir)))"

definition check_directory_for_profile :: "path \<Rightarrow> (string \<times> path option) option" where
  "check_directory_for_profile dir =
     (case utf8_name dir of
        None \<Rightarrow> None
      | Some n \<Rightarrow>
          if n = ''debug'' then Some (''debug'', Some dir)
          else if n = ''release'' then Some (''release'', Some dir)
          else if n = ''deps'' then check_deps_parent_for_profile dir
          else None)"

text \<open>The loop over the parents, from the nearest.\<close>

fun profile_loop :: "path list \<Rightarrow> string \<times> path option" where
  "profile_loop [] = (''unknown'', None)"
| "profile_loop (dir # dirs) = (case check_directory_for_profile dir of Some r \<Rightarrow> r | None \<Rightarrow> profile_loop dirs)"

definition find_profile_directory :: "path \<Rightarrow> string \<times> path option" where
  "find_profile_directory source = profile_loop (tl (ancestors source))"

definition hex_digit :: "nat \<Rightarrow> char" where
  "hex_digit n = (if n < 10 then char_of (48 + n) else char_of (87 + n))"

definition compute_path_hash :: "(string \<Rightarrow> nat list) \<Rightarrow> pathbuf \<Rightarrow> string" where
  "compute_path_hash sha256 source =
     concat (map (\<lambda>b. [hex_digit (b div 16), hex_digit (b mod 16)]) (take 4 (sha256 source)))"

definition find_staging_directory :: "(string \<Rightarrow> nat list) \<Rightarrow> pathbuf \<Rightarrow> world \<Rightarrow> pathbuf \<times> path option" where
  "find_staging_directory sha256 source w =
     (case find_profile_directory (components source) of
        (profile, target_profile_dir) \<Rightarrow>
          (join_path (temp_dir w) (''pg-worker-'' @ profile @ ''-'' @ compute_path_hash sha256 source), target_profile_dir))"

section \<open>Staging\<close>

type_synonym others = "nat \<Rightarrow> world \<Rightarrow> world"

text \<open>The check of what is at the path, made before and after the creation.\<close>

definition own_directory :: "nat \<Rightarrow> node \<Rightarrow> io_kind + unit" where
  "own_directory current_uid meta =
     (if is_link_kind (nd_kind meta) \<or> nd_kind meta \<noteq> KDir then Inl InvalidInput
      else if nd_uid meta \<noteq> current_uid then Inl PermissionDenied
      else Inr ())"

definition create_staging_directory_secure :: "others \<Rightarrow> path \<Rightarrow> unit io" where
  "create_staging_directory_secure other staged_dir w =
     (let current_uid = w_euid w; w0 = other 0 w in
      try_st
        (case symlink_metadata w0 staged_dir of
           Inr meta \<Rightarrow> (own_directory current_uid meta, w0)
         | Inl _ \<Rightarrow> create_dir_all staged_dir (other 1 w0))
        (\<lambda>_ w1. let w2 = other 2 w1 in
           try_st (try_res (symlink_metadata w2 staged_dir) (own_directory current_uid), w2)
             (\<lambda>_ w2. fs_set_mode staged_dir 493 (other 3 w2))))"

text \<open>\<open>mtime\<close> is \<open>Metadata::modified\<close> of what a path leads to.\<close>

definition should_restage :: "(path \<Rightarrow> world \<Rightarrow> io_kind + nat) \<Rightarrow> path \<Rightarrow> path \<Rightarrow> world \<Rightarrow> io_kind + bool" where
  "should_restage mtime source staged w =
     (case metadata w staged of
        Inl k \<Rightarrow> if k = NotFound then Inr True else Inl k
      | Inr _ \<Rightarrow>
          try_res (metadata w source) (\<lambda>_.
          try_res (mtime source w) (\<lambda>source_mtime.
          try_res (mtime staged w) (\<lambda>staged_mtime. Inr (source_mtime > staged_mtime)))))"

definition write_pointer_file :: "path \<Rightarrow> pathbuf \<Rightarrow> unit io" where
  "write_pointer_file target_dir staged_path w =
     try_st (write_file (target_dir @ [Normal ''pg_worker_staged.path.tmp'']) staged_path w) (\<lambda>_ w1.
       fs_rename (target_dir @ [Normal ''pg_worker_staged.path.tmp'']) (target_dir @ [Normal ''pg_worker_staged.path'']) w1)"

definition copy_if_newer :: "others \<Rightarrow> (path \<Rightarrow> world \<Rightarrow> io_kind + nat) \<Rightarrow> path \<Rightarrow> path \<Rightarrow> unit io" where
  "copy_if_newer other mtime source staged w =
     (let w4 = other 4 w in
      case should_restage mtime source staged w4 of
        Inl k \<Rightarrow> (Inl k, w4)
      | Inr False \<Rightarrow> (Inr (), w4)
      | Inr True \<Rightarrow>
          try_st (fs_copy source staged (other 5 w4)) (\<lambda>_ w5.
            let w6 = other 6 w5 in
            try_st (metadata w6 staged, w6) (\<lambda>_ w6. fs_set_mode staged 493 (other 7 w6))))"

definition try_stage_worker_binary ::
  "others \<Rightarrow> (path \<Rightarrow> world \<Rightarrow> io_kind + nat) \<Rightarrow> (string \<Rightarrow> nat list) \<Rightarrow> pathbuf \<Rightarrow> pathbuf io" where
  "try_stage_worker_binary other mtime sha256 original w =
     (case file_name (components original) of
        None \<Rightarrow> (Inl InvalidInput, w)
      | Some filename \<Rightarrow>
          (case find_staging_directory sha256 original w of
             (staged_dir, target_profile_dir) \<Rightarrow>
               let staged = join_path staged_dir filename in
               try_st (create_staging_directory_secure other (components staged_dir) w) (\<lambda>_ w1.
               try_st (copy_if_newer other mtime (components original) (components staged) w1) (\<lambda>_ w2.
                 (Inr staged,
                  case target_profile_dir of
                    None \<Rightarrow> w2
                  | Some target_dir \<Rightarrow> snd (write_pointer_file target_dir staged (other 8 w2)))))))"

definition stage_worker_binary ::
  "others \<Rightarrow> (path \<Rightarrow> world \<Rightarrow> io_kind + nat) \<Rightarrow> (string \<Rightarrow> nat list) \<Rightarrow> pathbuf \<Rightarrow> world \<Rightarrow> pathbuf \<times> world" where
  "stage_worker_binary other mtime sha256 original w =
     (case try_stage_worker_binary other mtime sha256 original w of
        (Inr path, w1) \<Rightarrow> (path, w1)
      | (Inl _, w1) \<Rightarrow> (original, w1))"

section \<open>Finding\<close>

text \<open>\<open>Path::extension\<close>: what follows the last dot, unless the name begins with its only one.\<close>

definition name_extension :: "string \<Rightarrow> string option" where
  "name_extension name =
     (let after = takeWhile (\<lambda>c. c \<noteq> CHR ''.'') (rev name); before = drop (length after + 1) (rev name) in
      if name = ''..'' \<or> CHR ''.'' \<notin> set name \<or> before = [] then None else Some (rev after))"

definition is_worker_binary :: "path \<Rightarrow> world \<Rightarrow> bool" where
  "is_worker_binary p w =
     (case utf8_name p of
        None \<Rightarrow> False
      | Some name \<Rightarrow>
          prefix ''pg_worker'' name \<and> name_extension name \<notin> {Some ''d'', Some ''D''} \<and> path_is_file w p)"

definition locate_worker_binary :: "(world \<Rightarrow> io_kind + path) \<Rightarrow> world \<Rightarrow> pathbuf option" where
  "locate_worker_binary current_exe w =
     (case current_exe w of
        Inl _ \<Rightarrow> None
      | Inr exe \<Rightarrow>
          (case path_parent exe of
             None \<Rightarrow> None
           | Some deps_dir \<Rightarrow>
               (case path_parent deps_dir of
                  None \<Rightarrow> None
                | Some target_dir \<Rightarrow>
                    let worker_path = target_dir @ [Normal ''pg_worker''] in
                    if path_is_file w worker_path then Some (path_text worker_path)
                    else (case read_dir deps_dir w of
                            Inl _ \<Rightarrow> None
                          | Inr names \<Rightarrow>
                              map_option path_text
                                (List.find (\<lambda>p. is_worker_binary p w) (map (\<lambda>n. deps_dir @ [Normal n]) names))))))"

text \<open>The first call of a process decides; its result is kept in \<open>cache\<close>.\<close>

definition worker_binary ::
  "(world \<Rightarrow> io_kind + path) \<Rightarrow> others \<Rightarrow> (path \<Rightarrow> world \<Rightarrow> io_kind + nat) \<Rightarrow> (string \<Rightarrow> nat list) \<Rightarrow>
     pathbuf option option \<Rightarrow> world \<Rightarrow> pathbuf option \<times> pathbuf option option \<times> world" where
  "worker_binary current_exe other mtime sha256 cache w =
     (case cache of
        Some r \<Rightarrow> (r, cache, w)
      | None \<Rightarrow>
          (case (case var_os ''CARGO_BIN_EXE_pg_worker'' w of
                   Some p \<Rightarrow> Some p | None \<Rightarrow> locate_worker_binary current_exe w) of
             None \<Rightarrow> (None, Some None, w)
           | Some original \<Rightarrow>
               (case stage_worker_binary other mtime sha256 original w of
                  (path, w1) \<Rightarrow> (Some path, Some (Some path), w1))))"

section \<open>Other users\<close>

text \<open>
  What other users leave alone: the entries of this user and of root, as the temporary directory is sticky and
  the rest is not theirs to write. They may do anything else between two calls.
\<close>

definition own_kept :: "world \<Rightarrow> world \<Rightarrow> bool" where
  "own_kept w w' \<longleftrightarrow> w_euid w' = w_euid w \<and>
     (\<forall>p n. entry w p = Some n \<longrightarrow> nd_uid n = 0 \<or> nd_uid n = w_euid w \<longrightarrow> entry w' p = Some n)"

definition bystander :: "(world \<Rightarrow> world) \<Rightarrow> bool" where
  "bystander f \<longleftrightarrow> (\<forall>w. own_kept w (f w))"

text \<open>A directory reached from the root through directories of this user or of root.\<close>

definition safe_dir :: "world \<Rightarrow> path \<Rightarrow> bool" where
  "safe_dir w p \<longleftrightarrow> phys w p \<and>
     (\<forall>q c n. prefix (q @ [c]) p \<longrightarrow> q \<noteq> [] \<longrightarrow> entry w (q @ [c]) = Some n \<longrightarrow> nd_uid n = 0 \<or> nd_uid n = w_euid w)"

lemma own_kept_trans: "own_kept w w' \<Longrightarrow> own_kept w' w'' \<Longrightarrow> own_kept w w''"
  unfolding own_kept_def by metis

lemma own_kept_entry: "own_kept w w' \<Longrightarrow> entry w p = Some n \<Longrightarrow> nd_uid n = 0 \<or> nd_uid n = w_euid w \<Longrightarrow> entry w' p = Some n"
  unfolding own_kept_def by blast

lemma safe_dir_kept:
  assumes safe: "safe_dir w p" and kept: "own_kept w w'"
  shows "safe_dir w' p"
proof -
  have same: "\<exists>n nd. c = Normal n \<and> entry w (q @ [c]) = Some nd \<and> nd_kind nd = KDir \<and> entry w' (q @ [c]) = Some nd \<and>
      (nd_uid nd = 0 \<or> nd_uid nd = w_euid w)"
    if q: "prefix (q @ [c]) p" "q \<noteq> []" for q c
  proof -
    from safe q obtain n nd where nd: "c = Normal n" "entry w (q @ [c]) = Some nd" "nd_kind nd = KDir"
      unfolding safe_dir_def phys_def by blast
    moreover from this(2) safe q have owner: "nd_uid nd = 0 \<or> nd_uid nd = w_euid w" unfolding safe_dir_def by blast
    moreover from own_kept_entry [OF kept nd(2) owner] have "entry w' (q @ [c]) = Some nd" .
    ultimately show ?thesis by blast
  qed
  have "p \<noteq> []" "hd p = RootDir" using safe by (simp_all add: safe_dir_def phys_def)
  moreover have "w_euid w' = w_euid w" using kept by (simp add: own_kept_def)
  ultimately show ?thesis unfolding safe_dir_def phys_def using same by fastforce
qed

lemma create_dir_all_inv:
  assumes "\<And>p w. I w \<Longrightarrow> I (snd (sys_mkdir p w))"
  shows "I w \<Longrightarrow> I (snd (create_dir_all p w))"
proof (induction p w rule: create_dir_all.induct)
  case (1 p w)
  obtain r w1 where m: "sys_mkdir p w = (r, w1)" by (cases "sys_mkdir p w")
  with assms [OF "1.prems", of p] have w1: "I w1" by simp
  show ?case
  proof (cases "p \<noteq> [] \<and> r = Inl NotFound \<and> (\<exists>parent. path_parent p = Some parent)")
    case True
    then obtain parent where r: "p \<noteq> []" "r = Inl NotFound" and pp: "path_parent p = Some parent" by blast
    from m r have m': "sys_mkdir p w = (Inl NotFound, w1)" by simp
    have ih: "I (snd (create_dir_all parent w1))" using "1.IH" [OF r(1) m' [symmetric] refl _ pp w1] by simp
    obtain r2 w2 where c: "create_dir_all parent w1 = (r2, w2)" by (cases "create_dir_all parent w1")
    with ih assms [of w2 p] have "I w2" "I (snd (sys_mkdir p w2))" by simp_all
    with m' r pp c show ?thesis
      by (cases "sys_mkdir p w2") (simp add: create_dir_all.simps [of p w] split: sum.splits)
  next
    case False
    then show ?thesis using m w1 "1.prems"
      by (auto simp: create_dir_all.simps [of p w] split: sum.splits option.splits)
  qed
qed

lemma create_dir_all_kept: "own_kept w (snd (create_dir_all p w))"
proof (rule create_dir_all_inv [of "own_kept w"])
  fix p w'
  assume "own_kept w w'"
  moreover have "own_kept w' (snd (sys_mkdir p w'))"
    by (auto simp: own_kept_def sys_mkdir_def entry_at_def split: sum.splits if_splits)
  ultimately show "own_kept w (snd (sys_mkdir p w'))" by (rule own_kept_trans)
qed (simp add: own_kept_def)

section \<open>The staging directory\<close>

lemma symlink_metadata_name:
  "phys w p \<Longrightarrow> symlink_metadata w (p @ [Normal n]) = Inr nd \<Longrightarrow> entry w (p @ [Normal n]) = Some nd"
  by (auto simp: symlink_metadata_def guarded_def node_of_name split: option.splits)

lemma own_directory_ok: "own_directory uid nd = Inr u \<longleftrightarrow> nd_kind nd = KDir \<and> nd_uid nd = uid"
  by (auto simp: own_directory_def)

lemma set_mode_name:
  assumes "phys w p" "entry w (p @ [Normal n]) = Some nd" "nd_kind nd = KDir"
  shows "fs_set_mode (p @ [Normal n]) m w =
    (case w_faults w (SysChmod (p @ [Normal n])) of
       Some k \<Rightarrow> (Inl k, w) | None \<Rightarrow> (Inr (), put_entry (p @ [Normal n]) (nd\<lparr>nd_mode := m\<rparr>) w))"
  using node_of_name_follow [OF assms(1,2)] assms(3) by (simp add: fs_set_mode_def guarded_def split: option.split)

text \<open>A directory of this user that only this user can write to, and what keeps it one.\<close>

definition secured :: "path \<Rightarrow> world \<Rightarrow> bool" where
  "secured d w \<longleftrightarrow> (\<exists>nd. entry w d = Some nd \<and> nd_kind nd = KDir \<and> nd_uid nd = w_euid w \<and> nd_mode nd = 493)"

lemma secure_directory:
  assumes bystanders: "\<And>k. bystander (other k)" and safe: "safe_dir w temp"
    and ok: "create_staging_directory_secure other (temp @ [Normal n]) w = (Inr u, w')"
  shows "secured (temp @ [Normal n]) w'"
proof -
  let ?d = "temp @ [Normal n]"
  have other: "own_kept v (other k v)" for k v using bystanders by (simp add: bystander_def)
  obtain w1 where first: "(case symlink_metadata (other 0 w) ?d of
        Inr meta \<Rightarrow> (own_directory (w_euid w) meta, other 0 w)
      | Inl _ \<Rightarrow> create_dir_all ?d (other 1 (other 0 w))) = (Inr (), w1)"
    and rest: "try_st (try_res (symlink_metadata (other 2 w1) ?d) (own_directory (w_euid w)), other 2 w1)
      (\<lambda>_ w2. fs_set_mode ?d 493 (other 3 w2)) = (Inr u, w')"
    using ok unfolding create_staging_directory_secure_def Let_def try_st_Inr by auto
  have "own_kept (other 0 w) w1"
  proof (cases "symlink_metadata (other 0 w) ?d")
    case (Inl k)
    with first own_kept_trans [OF other [of "other 0 w" 1] create_dir_all_kept, of ?d] show ?thesis by simp
  qed (use first in \<open>simp add: own_kept_def\<close>)
  with other [of w 0] have "own_kept w w1" by (rule own_kept_trans)
  then have kept: "own_kept w (other 2 w1)" by (rule own_kept_trans [OF _ other])
  then have safe2: "safe_dir (other 2 w1) temp" and euid: "w_euid (other 2 w1) = w_euid w"
    using safe_dir_kept [OF safe] by (simp_all add: own_kept_def)
  from rest obtain nd where nd: "symlink_metadata (other 2 w1) ?d = Inr nd" "nd_kind nd = KDir" "nd_uid nd = w_euid w"
    and set: "fs_set_mode ?d 493 (other 3 (other 2 w1)) = (Inr u, w')"
    by (auto simp: try_st_Inr try_res_Inr own_directory_ok)
  from safe2 nd(1) have e2: "entry (other 2 w1) ?d = Some nd" unfolding safe_dir_def by (blast dest: symlink_metadata_name)
  have e3: "entry (other 3 (other 2 w1)) ?d = Some nd"
    using own_kept_entry [OF other e2] nd(3) euid by simp
  have safe3: "safe_dir (other 3 (other 2 w1)) temp" "w_euid (other 3 (other 2 w1)) = w_euid w"
    using safe_dir_kept [OF safe2 other] other [of "other 2 w1" 3] euid by (simp_all add: own_kept_def)
  with set set_mode_name [OF _ e3 nd(2)] have w': "w' = put_entry ?d (nd\<lparr>nd_mode := 493\<rparr>) (other 3 (other 2 w1))"
    by (auto simp: safe_dir_def split: option.splits)
  with nd safe3 show ?thesis by (simp add: secured_def)
qed

lemma secured_other:
  assumes "\<And>k. bystander (other k)" "secured d w"
  shows "secured d (other k w)"
  using assms unfolding bystander_def own_kept_def secured_def by metis

lemma secured_put:
  assumes "secured d w" "q \<noteq> d \<or> nd_kind n = KDir \<and> nd_uid n = w_euid w \<and> nd_mode n = 493"
  shows "secured d (put_entry q n w)"
  using assms by (auto simp: secured_def)

lemma secured_at: "secured d w \<Longrightarrow> d \<noteq> [RootDir] \<Longrightarrow> \<exists>nd. entry_at w d = Some nd \<and> nd_kind nd = KDir \<and> nd_uid nd = w_euid w"
  by (auto simp: secured_def entry_at_def)

lemma secured_put_other: "secured d w \<Longrightarrow> q \<noteq> d \<Longrightarrow> secured d (put_entry q n w)"
  by (rule secured_put) simp_all

lemma secured_put_file:
  assumes "secured d w" "d \<noteq> [RootDir]" "case entry_at w q of None \<Rightarrow> True | Some m \<Rightarrow> nd_kind m \<noteq> KDir"
  shows "secured d (put_entry q n w)"
  using secured_at [OF assms(1,2)] assms by (intro secured_put_other) auto

lemma secured_set_mode: "secured d w \<Longrightarrow> d \<noteq> [RootDir] \<Longrightarrow> secured d (snd (fs_set_mode p 493 w))"
  by (frule (1) secured_at)
    (auto simp: fs_set_mode_def guarded_def node_of_def try_res_def intro!: secured_put split: option.split sum.split)

lemma file_not_dir: "is_file_kind k \<Longrightarrow> k \<noteq> KDir"
  by auto

lemma secured_copy: "secured d w \<Longrightarrow> d \<noteq> [RootDir] \<Longrightarrow> secured d (snd (fs_copy src dst w))"
  by (auto simp: fs_copy_def Let_def file_not_dir intro!: secured_put_file split: option.splits sum.split)

lemma secured_write: "secured d w \<Longrightarrow> d \<noteq> [RootDir] \<Longrightarrow> secured d (snd (write_file p s w))"
  by (auto simp: write_file_def file_not_dir intro!: secured_put_file split: option.splits sum.split)

lemma secured_rename:
  assumes "secured d w" "d \<noteq> [RootDir]"
  shows "secured d (snd (fs_rename p q w))"
proof (cases "node_of False w p")
  case (Inr pn)
  obtain p' n where pn: "pn = (p', n)" by (cases pn)
  from Inr pn have n: "entry_at w p' = Some n" by (auto simp: node_of_def try_res_def split: sum.splits option.splits)
  show ?thesis
  proof (cases "nd_kind n = KDir")
    case False
    with secured_at [OF assms] n have "p' \<noteq> d" by auto
    with assms have "secured d (drop_entries (\<lambda>r. r = p') w)" by (auto simp: secured_def)
    moreover have "entry_at w q' = Some m \<Longrightarrow> nd_kind m \<noteq> KDir \<Longrightarrow> q' \<noteq> d" for q' m using secured_at [OF assms] by auto
    moreover have "entry_at w q' = None \<Longrightarrow> q' \<noteq> d" for q' using secured_at [OF assms] by auto
    ultimately show ?thesis using assms Inr pn
      by (auto simp: fs_rename_def intro!: secured_put_other split: sum.split option.splits)
  qed (use assms Inr pn in \<open>auto simp: fs_rename_def split: sum.split\<close>)
qed (use assms in \<open>simp add: fs_rename_def\<close>)

section \<open>What staging preserves\<close>

text \<open>
  What every call of the staging keeps, and the steps of other users keep, the staging keeps. The calls promise the
  laws; the sequence of calls is their client.
\<close>

locale call_invariant =
  fixes I :: "world \<Rightarrow> bool"
  assumes set_mode: "I w \<Longrightarrow> I (snd (fs_set_mode p 493 w))"
    and copy: "I w \<Longrightarrow> I (snd (fs_copy src dst w))"
    and writing: "I w \<Longrightarrow> I (snd (write_file p s w))"
    and rename: "I w \<Longrightarrow> I (snd (fs_rename p q w))"
begin

lemma chain: "I (snd m) \<Longrightarrow> (\<And>x w. I w \<Longrightarrow> I (snd (k x w))) \<Longrightarrow> I (snd (try_st m k))"
  by (auto simp: try_st_def split: sum.split)

lemma copy_if_newer:
  assumes other: "\<And>k w. I w \<Longrightarrow> I (other k w)" and "I w"
  shows "I (snd (copy_if_newer other mtime src staged w))"
  using other [OF assms(2), of 4]
  by (auto simp: copy_if_newer_def Let_def intro!: chain set_mode copy other split: sum.split bool.split)

lemma pointer: "I w \<Longrightarrow> I (snd (write_pointer_file t txt w))"
  by (auto simp: write_pointer_file_def intro!: chain writing rename)

lemma after_directory:
  assumes other: "\<And>k w. I w \<Longrightarrow> I (other k w)" and "I w1"
    and create: "create_staging_directory_secure other (components (fst (find_staging_directory sha256 original w))) w = (Inr u, w1)"
    and name: "file_name (components original) = Some filename"
  shows "I (snd (try_stage_worker_binary other mtime sha256 original w))"
proof -
  obtain sd t where find: "find_staging_directory sha256 original w = (sd, t)" by (cases "find_staging_directory sha256 original w")
  have "I (case t of None \<Rightarrow> w2 | Some td \<Rightarrow> snd (write_pointer_file td p (other 8 w2)))" if "I w2" for w2 p
    using that by (auto intro: pointer other split: option.split)
  with find create name show ?thesis
    using copy_if_newer [of other, OF other assms(2)]
    by (auto simp: try_stage_worker_binary_def Let_def intro!: chain)
qed

end

interpretation own_directory_stays: call_invariant "\<lambda>w. d = [RootDir] \<or> secured d w" for d
  by unfold_locales (auto intro: secured_set_mode secured_copy secured_write secured_rename)

section \<open>Properties\<close>

text \<open>
  C14. A staged worker lies in a directory no one else can write to. Whatever other users do between the
  calls (a directory or a link put at the path before, while, or after it is checked), when the staging succeeds the
  directory of the program it returns is a directory, not a link, of this user, with mode 755.
\<close>

theorem staging_directory_trusted:
  assumes bystanders: "\<And>k. bystander (other k)" and safe: "safe_dir w temp"
    and dir: "components (fst (find_staging_directory sha256 original w)) = temp @ [Normal n]"
    and ok: "try_stage_worker_binary other mtime sha256 original w = (Inr path, w')"
  shows "\<exists>nd filename. path = join_path (fst (find_staging_directory sha256 original w)) filename \<and>
    file_name (components original) = Some filename \<and>
    entry w' (temp @ [Normal n]) = Some nd \<and> nd_kind nd = KDir \<and> nd_uid nd = w_euid w' \<and> nd_mode nd = 493"
proof -
  let ?d = "temp @ [Normal n]"
  obtain filename u w1 where name: "file_name (components original) = Some filename"
    and create: "create_staging_directory_secure other ?d w = (Inr u, w1)"
    and path: "path = join_path (fst (find_staging_directory sha256 original w)) filename"
    using ok dir by (auto simp: try_stage_worker_binary_def Let_def try_st_Inr split: option.splits prod.splits)
  have root: "?d \<noteq> [RootDir]" using safe by (simp add: safe_dir_def phys_def)
  have "secured ?d w1" by (rule secure_directory [of other, OF bystanders safe create])
  then have "?d = [RootDir] \<or> secured ?d (snd (try_stage_worker_binary other mtime sha256 original w))"
    using secured_other [of other, OF bystanders]
    by (intro own_directory_stays.after_directory [OF _ _ create [folded dir] name]) blast+
  with root ok name path show ?thesis by (auto simp: secured_def)
qed

text \<open>
  What others prepared is refused. If there is a link, a file or a directory of another user at the staging path
  when it is first looked at, the program is used where it is, and nothing is written.
\<close>

theorem staging_refuses_foreign:
  assumes "phys (other 0 w) temp"
    and dir: "components (fst (find_staging_directory sha256 original w)) = temp @ [Normal n]"
    and foreign: "entry (other 0 w) (temp @ [Normal n]) = Some nd" "nd_kind nd \<noteq> KDir \<or> nd_uid nd \<noteq> w_euid w"
    and stat: "w_faults (other 0 w) (SysStat (temp @ [Normal n])) = None"
  shows "fst (stage_worker_binary other mtime sha256 original w) = original \<and>
    snd (stage_worker_binary other mtime sha256 original w) \<in> {w, other 0 w}"
proof -
  have "symlink_metadata (other 0 w) (temp @ [Normal n]) = Inr nd"
    using assms(1) foreign(1) stat by (simp add: symlink_metadata_def guarded_def node_of_name)
  moreover have "own_directory (w_euid w) nd \<noteq> Inr u" for u using foreign(2) by (simp add: own_directory_ok)
  ultimately obtain k where "create_staging_directory_secure other (temp @ [Normal n]) w = (Inl k, other 0 w)"
    by (cases "own_directory (w_euid w) nd") (auto simp: create_staging_directory_secure_def Let_def)
  with dir show ?thesis
    by (auto simp: stage_worker_binary_def try_stage_worker_binary_def Let_def split: option.split prod.split)
qed

lemma put_entry_same: "entry w p = Some n \<Longrightarrow> put_entry p n w = w"
proof -
  have "map_of al p = Some n \<Longrightarrow> AList.update p n al = al" for al :: "(path \<times> node) list"
    by (induction al) auto
  then show "entry w p = Some n \<Longrightarrow> put_entry p n w = w" by (simp add: entry_def put_entry_def)
qed

lemma pointer_frame:
  assumes "phys w t" "entry w (t @ [Normal ''pg_worker_staged.path.tmp'']) = None" "butlast q \<noteq> t"
  shows "entry (snd (write_pointer_file t txt w)) q = entry w q"
proof -
  let ?tmp = "t @ [Normal ''pg_worker_staged.path.tmp'']" and ?ptr = "t @ [Normal ''pg_worker_staged.path'']"
  have q: "q \<noteq> ?tmp" "q \<noteq> ?ptr" using assms(3) by auto
  have "resolve True w ?tmp = Inr ?tmp" by (rule phys_resolve_name(2) [OF assms(1)]) (use assms(2) in simp)
  moreover have "entry_at w ?tmp = None" using assms(1,2) by (simp add: entry_at_def)
  ultimately have tmp: "resolve True w ?tmp = Inr ?tmp" "entry_at w ?tmp = None" .
  show ?thesis
  proof (cases "w_faults w (SysWrite ?tmp)")
    case None
    let ?n = "new_node w (KFile txt) 420" and ?w = "put_entry ?tmp (new_node w (KFile txt) 420) w"
    have "write_file ?tmp txt w = (Inr (), ?w)" using None tmp by (simp add: write_file_def guarded_def)
    moreover have "phys ?w t" using phys_put [OF assms(1,2)] .
    then have "node_of False ?w ?tmp = Inr (?tmp, ?n)" "resolve False ?w ?ptr = Inr ?ptr"
      by (simp_all add: node_of_name phys_resolve_name(1))
    ultimately show ?thesis using q by (simp add: write_pointer_file_def fs_rename_def guarded_def new_node_def split: option.split sum.split)
  qed (use tmp in \<open>simp add: write_pointer_file_def write_file_def guarded_def\<close>)
qed

text \<open>
  What is staged already is not looked into. A file at the staging path that is not older than the program is
  returned whatever it holds and whatever its mode: in particular the empty file that a copy leaves which was
  interrupted, and which no later run replaces.
\<close>

theorem interrupted_staging_reused:
  assumes dir: "find_staging_directory sha256 original w = (sd, t)" "components sd = temp @ [Normal n]"
    and name: "file_name (components original) = Some filename" "components (join_path sd filename) = temp @ [Normal n, Normal filename]"
    and own: "phys w temp" "entry w (temp @ [Normal n]) = Some nd" "nd_kind nd = KDir" "nd_uid nd = w_euid w" "nd_mode nd = 493"
    and staged: "entry w (temp @ [Normal n, Normal filename]) = Some f" "is_file_kind (nd_kind f)"
    and times: "mtime (components original) w = Inr a" "mtime (temp @ [Normal n, Normal filename]) w = Inr b" "a \<le> b"
    and calls: "w_faults w = (\<lambda>_. None)" "is_ok (metadata w (components original))"
    and pointer: "case t of None \<Rightarrow> True
      | Some t \<Rightarrow> phys w t \<and> entry w (t @ [Normal ''pg_worker_staged.path.tmp'']) = None \<and> t \<noteq> temp @ [Normal n]"
  shows "\<exists>w'. stage_worker_binary (\<lambda>_ w. w) mtime sha256 original w = (join_path sd filename, w') \<and>
    entry w' (temp @ [Normal n, Normal filename]) = Some f"
proof -
  let ?d = "temp @ [Normal n]" and ?s = "temp @ [Normal n, Normal filename]"
  have "symlink_metadata w ?d = Inr nd" using own calls by (simp add: symlink_metadata_def guarded_def node_of_name)
  moreover have "nd\<lparr>nd_mode := 493\<rparr> = nd" using own(5) by (cases nd) simp
  then have "fs_set_mode ?d 493 w = (Inr (), w)"
    using set_mode_name [OF own(1,2,3), of 493] calls put_entry_same [OF own(2)] by simp
  ultimately have create: "create_staging_directory_secure (\<lambda>_ w. w) ?d w = (Inr (), w)"
    using own by (simp add: create_staging_directory_secure_def own_directory_def)
  have "phys w ?d" using own by (simp add: phys_snoc)
  moreover have "\<not> is_link_kind (nd_kind f)" using staged(2) by (cases "nd_kind f") simp_all
  ultimately have "metadata w ?s = Inr f"
    using node_of_name_follow [of w ?d filename f] staged(1) calls(1) by (simp add: metadata_def guarded_def)
  with times calls have copy: "copy_if_newer (\<lambda>_ w. w) mtime (components original) ?s w = (Inr (), w)"
    by (cases "metadata w (components original)") (simp_all add: copy_if_newer_def should_restage_def Let_def)
  have "stage_worker_binary (\<lambda>_ w. w) mtime sha256 original w =
      (join_path sd filename, case t of None \<Rightarrow> w | Some td \<Rightarrow> snd (write_pointer_file td (join_path sd filename) w))"
    using dir name create copy by (simp add: stage_worker_binary_def try_stage_worker_binary_def Let_def)
  moreover have "entry (case t of None \<Rightarrow> w | Some td \<Rightarrow> snd (write_pointer_file td (join_path sd filename) w)) ?s = Some f"
    using pointer staged by (auto simp: pointer_frame butlast_append split: option.split)
  ultimately show ?thesis by blast
qed

section \<open>Examples\<close>

definition staging_demo :: "(string list \<times> node_kind \<times> nat) list \<Rightarrow> world" where
  "staging_demo extra =
     \<lparr>w_fs = map (\<lambda>(p, k, uid). (RootDir # map Normal p, \<lparr>nd_kind = k, nd_mode = 493, nd_uid = uid, nd_gid = 0\<rparr>))
        ([([''tmp''], KDir, 0), ([''x''], KDir, 0), ([''x'', ''pg_worker''], KFile ''new'', 0)] @ extra),
      w_cwd = [RootDir], w_env = Map.empty, w_euid = 0, w_faults = (\<lambda>_. None), w_residue = (\<lambda>_. [])\<rparr>"

abbreviation "demo_sha \<equiv> \<lambda>_::string. [0, 0, 0, 0::nat]"
abbreviation "demo_mtime \<equiv> \<lambda>(_::path) (_::world). Inr 0 :: io_kind + nat"
abbreviation "demo_dir \<equiv> ''pg-worker-unknown-00000000''"

lemma staging_demo_found:
  "find_staging_directory demo_sha ''/x/pg_worker'' (staging_demo extra) = (''/tmp/pg-worker-unknown-00000000'', None)"
proof -
  have "find_profile_directory (components ''/x/pg_worker'') = (''unknown'', None)" by code_simp
  moreover have "compute_path_hash demo_sha ''/x/pg_worker'' = ''00000000''" by code_simp
  moreover have "join_path ''/tmp'' (''pg-worker-'' @ ''unknown'' @ ''-'' @ ''00000000'') = ''/tmp/pg-worker-unknown-00000000''" by code_simp
  moreover have "temp_dir (staging_demo extra) = ''/tmp''" by (simp add: temp_dir_def var_os_def staging_demo_def)
  ultimately show ?thesis unfolding find_staging_directory_def by simp
qed

lemma staging_demo_dir: "components ''/tmp/pg-worker-unknown-00000000'' = [RootDir, Normal ''tmp''] @ [Normal demo_dir]"
  by code_simp

lemma staging_demo_temp: "safe_dir (staging_demo extra) [RootDir, Normal ''tmp'']"
  by (auto simp: safe_dir_def phys_def staging_demo_def entry_def prefix_Cons Cons_eq_append_conv)

theorem staging_directory_trusted_witness:
  "\<exists>w' nd. try_stage_worker_binary (\<lambda>_ w. w) demo_mtime demo_sha ''/x/pg_worker'' (staging_demo []) =
       (Inr ''/tmp/pg-worker-unknown-00000000/pg_worker'', w') \<and>
     entry w' [RootDir, Normal ''tmp'', Normal demo_dir] = Some nd \<and> nd_kind nd = KDir \<and> nd_mode nd = 493"
proof -
  have "is_ok (fst (try_stage_worker_binary (\<lambda>_ w. w) demo_mtime demo_sha ''/x/pg_worker'' (staging_demo [])))" by code_simp
  then obtain path w' where run: "try_stage_worker_binary (\<lambda>_ w. w) demo_mtime demo_sha ''/x/pg_worker'' (staging_demo []) = (Inr path, w')"
    by (cases "try_stage_worker_binary (\<lambda>_ w. w) demo_mtime demo_sha ''/x/pg_worker'' (staging_demo [])")
      (auto simp: is_ok_def split: sum.splits)
  have "bystander (\<lambda>w. w)" by (simp add: bystander_def own_kept_def)
  moreover have "file_name (components ''/x/pg_worker'') = Some ''pg_worker''" by code_simp
  moreover have "join_path ''/tmp/pg-worker-unknown-00000000'' ''pg_worker'' = ''/tmp/pg-worker-unknown-00000000/pg_worker''" by code_simp
  ultimately show ?thesis
    using staging_directory_trusted [where other = "\<lambda>_ w. w" and original = "''/x/pg_worker''", OF _ staging_demo_temp _ run] staging_demo_dir run
    by (auto simp: staging_demo_found)
qed

theorem staging_refuses_foreign_witness:
  "stage_worker_binary (\<lambda>_ w. w) demo_mtime demo_sha ''/x/pg_worker'' (staging_demo [([''tmp'', demo_dir], KDir, 7)]) =
     (''/x/pg_worker'', staging_demo [([''tmp'', demo_dir], KDir, 7)])"
proof -
  let ?w = "staging_demo [([''tmp'', demo_dir], KDir, 7)]"
  have "phys ?w [RootDir, Normal ''tmp'']" using staging_demo_temp by (simp add: safe_dir_def)
  moreover have "entry ?w ([RootDir, Normal ''tmp''] @ [Normal demo_dir]) = Some \<lparr>nd_kind = KDir, nd_mode = 493, nd_uid = 7, nd_gid = 0\<rparr>"
    "w_euid ?w = 0" "w_faults ?w = (\<lambda>_. None)"
    by (simp_all add: staging_demo_def entry_def)
  ultimately show ?thesis
    using staging_refuses_foreign [of "\<lambda>_ w. w" ?w "[RootDir, Normal ''tmp'']" demo_sha "''/x/pg_worker''" demo_dir _ demo_mtime] staging_demo_dir
    by (auto simp: staging_demo_found intro: prod_eqI)
qed

theorem interrupted_staging_reused_witness:
  "\<exists>w' f. stage_worker_binary (\<lambda>_ w. w) demo_mtime demo_sha ''/x/pg_worker''
       (staging_demo [([''tmp'', demo_dir], KDir, 0), ([''tmp'', demo_dir, ''pg_worker''], KFile [], 0)]) =
       (''/tmp/pg-worker-unknown-00000000/pg_worker'', w') \<and>
     entry w' [RootDir, Normal ''tmp'', Normal demo_dir, Normal ''pg_worker''] = Some f \<and> nd_kind f = KFile []"
proof -
  let ?w = "staging_demo [([''tmp'', demo_dir], KDir, 0), ([''tmp'', demo_dir, ''pg_worker''], KFile [], 0)]"
  have join: "join_path ''/tmp/pg-worker-unknown-00000000'' ''pg_worker'' = ''/tmp/pg-worker-unknown-00000000/pg_worker''" by code_simp
  have "phys ?w [RootDir, Normal ''tmp'']" using staging_demo_temp by (simp add: safe_dir_def)
  moreover have "entry ?w ([RootDir, Normal ''tmp''] @ [Normal demo_dir]) = Some \<lparr>nd_kind = KDir, nd_mode = 493, nd_uid = 0, nd_gid = 0\<rparr>"
    "entry ?w ([RootDir, Normal ''tmp''] @ [Normal demo_dir, Normal ''pg_worker'']) = Some \<lparr>nd_kind = KFile [], nd_mode = 493, nd_uid = 0, nd_gid = 0\<rparr>"
    "w_euid ?w = 0" "w_faults ?w = (\<lambda>_. None)"
    by (simp_all add: staging_demo_def entry_def)
  moreover have "is_ok (metadata ?w (components ''/x/pg_worker''))" by code_simp
  moreover have "file_name (components ''/x/pg_worker'') = Some ''pg_worker''"
    "components ''/tmp/pg-worker-unknown-00000000/pg_worker'' = [RootDir, Normal ''tmp''] @ [Normal demo_dir, Normal ''pg_worker'']" by code_simp+
  ultimately show ?thesis
    using interrupted_staging_reused [OF staging_demo_found [of "[([''tmp'', demo_dir], KDir, 0), ([''tmp'', demo_dir, ''pg_worker''], KFile [], 0)]"] staging_demo_dir,
        of "''pg_worker''" "\<lparr>nd_kind = KDir, nd_mode = 493, nd_uid = 0, nd_gid = 0\<rparr>" "\<lparr>nd_kind = KFile [], nd_mode = 493, nd_uid = 0, nd_gid = 0\<rparr>"
        demo_mtime 0 0] join by fastforce
qed

end
