(* ===== verification/Shared_Cluster.thy ===== *)
theory Shared_Cluster
  imports Shutdown_Hook Worker_Staging
begin

text \<open>
  The clusters the tests of a process share: \<open>src/src/test_support/shared_singleton.rs\<close> and the part of
  \<open>fixtures.rs\<close> that names the worker. The static is a \<open>shared_state\<close>, its mutex excludes all but one caller and
  is taken over when poisoned; the guard of a shared cluster is leaked. The operations take what finds the
  worker's program as an argument; \<open>fixture_finder\<close> is the one of the fixtures.
\<close>

section \<open>The worker's variable\<close>

definition pg_embedded_worker :: string where "pg_embedded_worker = ''PG_EMBEDDED_WORKER''"

definition is_worker_env_required :: "execution_privileges \<Rightarrow> bool \<Rightarrow> bool" where
  "is_worker_env_required privileges worker_env_present \<longleftrightarrow> privileges = Root \<and> \<not> worker_env_present"

text \<open>The finder is only called if the worker is needed; a panic if there is none then.\<close>

definition resolve_worker_path ::
  "execution_privileges \<Rightarrow> bool \<Rightarrow> (world \<Rightarrow> string option \<times> world) \<Rightarrow> world \<Rightarrow> string option ctl \<times> world" where
  "resolve_worker_path privileges worker_env_present worker_finder w =
     (if \<not> is_worker_env_required privileges worker_env_present then (Returned None, w)
      else case worker_finder w of
             (None, w1) \<Rightarrow> (Panic, w1)
           | (Some worker, w1) \<Rightarrow> (Returned (Some worker), w1))"

definition ensure_worker_env ::
  "(world \<Rightarrow> string option \<times> world) \<Rightarrow> nat \<Rightarrow> scope_state \<Rightarrow> world \<Rightarrow> (nat \<times> nat) option ctl \<times> scope_state \<times> world" where
  "ensure_worker_env finder t s w =
     (let v = with_env s w in
      case resolve_worker_path (detect_execution_privileges v) (var_os pg_embedded_worker v \<noteq> None) finder v of
        (Panic, w1) \<Rightarrow> (Panic, s, w1)
      | (WouldBlock, w1) \<Rightarrow> (WouldBlock, s, w1)
      | (Returned None, w1) \<Rightarrow> (Returned None, s, w1)
      | (Returned (Some worker_path), w1) \<Rightarrow>
          (case scoped_apply_os t [(pg_embedded_worker, Some worker_path)] s of
             (Returned g, s1) \<Rightarrow> (Returned (Some g), s1, w1)
           | (Panic, s1) \<Rightarrow> (Panic, s1, w1)
           | (WouldBlock, s1) \<Rightarrow> (WouldBlock, s1, w1)))"

text \<open>The finder of the fixtures, with the result the process has kept so far.\<close>

definition fixture_finder where
  "fixture_finder current_exe other mtime sha256 cache w =
     (case worker_binary current_exe other mtime sha256 cache w of (r, _, w1) \<Rightarrow> (r, w1))"

section \<open>The shared cluster\<close>

datatype 'a shared_state = Uninitialised | Initialised 'a | FailedWith bootstrap_error

record ('a, 'p) shared =
  sh_state :: "'a shared_state"
  sh_slot :: "shutdown_state option"
  sh_scope :: scope_state
  sh_world :: world
  sh_os :: "'p os"

text \<open>The registration's error is only logged.\<close>

definition best_effort_register :: "'p kernel \<Rightarrow> (int \<Rightarrow> string) \<Rightarrow> cluster_handle \<Rightarrow> ('a, 'p) shared \<Rightarrow> ('a, 'p) shared" where
  "best_effort_register K show_int h st =
     (case register_shutdown_on_exit K show_int h (sh_slot st) (sh_os st) of
        (_, slot, os) \<Rightarrow> st\<lparr>sh_slot := slot, sh_os := os\<rparr>)"

text \<open>An earlier failure, reported again with its kind.\<close>

definition failed_before :: "(bootstrap_error \<Rightarrow> string) \<Rightarrow> bootstrap_error \<Rightarrow> bootstrap_error" where
  "failed_before debug e =
     bootstrap_new (be_kind e) (Msg (''shared cluster initialisation previously failed: '' @ debug e))"

definition stored_error :: "(bootstrap_error \<Rightarrow> string) \<Rightarrow> bootstrap_error \<Rightarrow> bootstrap_error" where
  "stored_error debug e = bootstrap_new (be_kind e) (Msg (''bootstrap failed: '' @ debug e))"

text \<open>
  \<open>keep\<close> makes the shared value from the new handle and guard. \<open>None\<close> when the start never ends. When the start
  fails or panics the worker's scope is left; a panic leaves the state as it was.
\<close>

definition access_shared ::
  "('h, 'c, 'g, 'v::linorder) cluster_api \<Rightarrow> 'p kernel \<Rightarrow> (int \<Rightarrow> string) \<Rightarrow> (bootstrap_error \<Rightarrow> string) \<Rightarrow> (world \<Rightarrow> string option \<times> world) \<Rightarrow>
     (cluster_handle \<Rightarrow> 'g cluster_guard \<Rightarrow> 'a) \<Rightarrow> nat \<Rightarrow> ('a, 'p) shared \<Rightarrow> ((bootstrap_error + 'a) ctl \<times> ('a, 'p) shared) option" where
  "access_shared A K show_int debug finder keep t st =
     (case sh_state st of
        Initialised a \<Rightarrow> Some (Returned (Inr a), st)
      | FailedWith e \<Rightarrow> Some (Returned (Inl (failed_before debug e)), st)
      | Uninitialised \<Rightarrow>
          (case ensure_worker_env finder t (sh_scope st) (sh_world st) of
             (Panic, s1, w1) \<Rightarrow> Some (Panic, st\<lparr>sh_scope := s1, sh_world := with_env s1 w1\<rparr>)
           | (WouldBlock, s1, w1) \<Rightarrow> Some (WouldBlock, st\<lparr>sh_scope := s1, sh_world := with_env s1 w1\<rparr>)
           | (Returned worker_guard, s1, w1) \<Rightarrow>
               (case new_split A t s1 w1 of
                  None \<Rightarrow> None
                | Some (Returned (Inr (h, cg)), s2, w2) \<Rightarrow>
                    let guarded = with_worker_guard cg worker_guard; value = keep h guarded;
                        st' = best_effort_register K show_int h (st\<lparr>sh_scope := s2, sh_world := w2\<rparr>)
                    in Some (Returned (Inr value), st'\<lparr>sh_state := Initialised value\<rparr>)
                | Some (Returned (Inl e), s2, w2) \<Rightarrow>
                    (case drop_worker_guard t worker_guard s2 of
                       (r, s3) \<Rightarrow> Some (case r of Returned _ \<Rightarrow> Returned (Inl e) | Panic \<Rightarrow> Panic | WouldBlock \<Rightarrow> WouldBlock,
                         st\<lparr>sh_state := FailedWith (stored_error debug e), sh_scope := s3, sh_world := with_env s3 w2\<rparr>))
                | Some (Panic, s2, w2) \<Rightarrow>
                    (case drop_worker_guard t worker_guard s2 of
                       (_, s3) \<Rightarrow> Some (Panic, st\<lparr>sh_scope := s3, sh_world := with_env s3 w2\<rparr>))
                | Some (WouldBlock, s2, w2) \<Rightarrow> Some (WouldBlock, st\<lparr>sh_scope := s2, sh_world := w2\<rparr>))))"

definition shared_cluster_handle where
  "shared_cluster_handle A K show_int debug finder t st = access_shared A K show_int debug finder (\<lambda>h _. h) t st"

definition shared_cluster where
  "shared_cluster A K show_int debug finder t st = access_shared A K show_int debug finder (\<lambda>h cg. (h, cg)) t st"

text \<open>The fixtures panic on an error.\<close>

definition shared_test_cluster_handle where
  "shared_test_cluster_handle A K show_int debug finder t st =
     map_option (\<lambda>(r, st'). (case r of
         Returned (Inr h) \<Rightarrow> Returned h | Returned (Inl _) \<Rightarrow> Panic | Panic \<Rightarrow> Panic | WouldBlock \<Rightarrow> WouldBlock, st'))
       (shared_cluster_handle A K show_int debug finder t st)"

definition shared_test_cluster where
  "shared_test_cluster A K show_int debug finder t st =
     map_option (\<lambda>(r, st'). (case r of
         Returned (Inr c) \<Rightarrow> Returned c | Returned (Inl _) \<Rightarrow> Panic | Panic \<Rightarrow> Panic | WouldBlock \<Rightarrow> WouldBlock, st'))
       (shared_cluster A K show_int debug finder t st)"

text \<open>\<open>test_cluster\<close>, a cluster of the test's own.\<close>

definition test_cluster ::
  "('h, 'c, 'g, 'v::linorder) cluster_api \<Rightarrow> (world \<Rightarrow> string option \<times> world) \<Rightarrow> nat \<Rightarrow> scope_state \<Rightarrow> world \<Rightarrow>
     (cluster_handle \<times> 'g cluster_guard) scoped_run" where
  "test_cluster A finder t s w =
     (case ensure_worker_env finder t s w of
        (Panic, s1, w1) \<Rightarrow> Some (Panic, s1, with_env s1 w1)
      | (WouldBlock, s1, w1) \<Rightarrow> Some (WouldBlock, s1, with_env s1 w1)
      | (Returned worker_guard, s1, w1) \<Rightarrow>
          (case new_split A t s1 w1 of
             None \<Rightarrow> None
           | Some (Returned (Inr (h, cg)), s2, w2) \<Rightarrow> Some (Returned (h, with_worker_guard cg worker_guard), s2, w2)
           | Some (WouldBlock, s2, w2) \<Rightarrow> Some (WouldBlock, s2, w2)
           | Some (_, s2, w2) \<Rightarrow>
               (case drop_worker_guard t worker_guard s2 of (_, s3) \<Rightarrow> Some (Panic, s3, with_env s3 w2))))"

section \<open>Lemmas\<close>

lemma ensure_worker_live:
  assumes inv: "scope_inv t s" and e: "ensure_worker_env finder t s w = (Returned wg, s', w')"
  shows "scope_inv t s'" "base_env s' = base_env s"
    "live_at s' j \<longleftrightarrow> live_at s j \<or> (\<exists>g. wg = Some g \<and> j = fst g)" "\<forall>g. wg = Some g \<longrightarrow> \<not> live_at s (fst g)"
proof -
  have "wg = None \<and> s' = s \<or> (\<exists>g p. wg = Some g \<and> scoped_apply_os t [(pg_embedded_worker, Some p)] s = (Returned g, s'))"
    using e by (auto simp: ensure_worker_env_def Let_def split: ctl.splits option.splits prod.splits)
  moreover have "scoped_apply_os t [(pg_embedded_worker, Some p)] s = scoped_apply t [(pg_embedded_worker, Some p)] s" for p
    by (simp add: scoped_apply_def pg_embedded_worker_def contains_equals_def)
  ultimately consider "wg = None" "s' = s" | g p where "wg = Some g" "scoped_apply t [(pg_embedded_worker, Some p)] s = (Returned g, s')"
    by auto
  then have "scope_inv t s' \<and> base_env s' = base_env s \<and> (live_at s' j \<longleftrightarrow> live_at s j \<or> (\<exists>g. wg = Some g \<and> j = fst g)) \<and>
      (\<forall>g. wg = Some g \<longrightarrow> \<not> live_at s (fst g))" for j
    using inv scoped_apply_live [OF inv] by cases auto
  then show "scope_inv t s'" "base_env s' = base_env s"
    "live_at s' j \<longleftrightarrow> live_at s j \<or> (\<exists>g. wg = Some g \<and> j = fst g)" "\<forall>g. wg = Some g \<longrightarrow> \<not> live_at s (fst g)"
    by blast+
qed

text \<open>Accesses one after the other, each by a thread with a state of its own.\<close>

fun access_many where
  "access_many A K show_int debug finder keep [] st = Some ([], st)"
| "access_many A K show_int debug finder keep ((t, ts) # xs) st =
     (case access_shared A K show_int debug finder keep t (st\<lparr>sh_scope := (fst (sh_scope st), ts)\<rparr>) of
        None \<Rightarrow> None
      | Some (r, st1) \<Rightarrow> map_option (\<lambda>(rs, st2). (r # rs, st2)) (access_many A K show_int debug finder keep xs st1))"

definition untouched :: "('a, 'p) shared \<Rightarrow> ('a, 'p) shared \<Rightarrow> bool" where
  "untouched st st' \<longleftrightarrow> sh_state st' = sh_state st \<and> sh_slot st' = sh_slot st \<and> sh_world st' = sh_world st \<and>
     sh_os st' = sh_os st \<and> fst (sh_scope st') = fst (sh_scope st)"

lemma access_settled:
  assumes "sh_state st = Initialised a \<and> x = Returned (Inr a) \<or> sh_state st = FailedWith e \<and> x = Returned (Inl (failed_before debug e))"
  shows "\<exists>st'. access_many A K show_int debug finder keep xs st = Some (replicate (length xs) x, st') \<and> untouched st st'"
  using assms
proof (induction xs arbitrary: st)
  case (Cons y xs)
  obtain t ts where y: "y = (t, ts)" by (cases y)
  let ?st = "st\<lparr>sh_scope := (fst (sh_scope st), ts)\<rparr>"
  have "access_shared A K show_int debug finder keep t ?st = Some (x, ?st)"
    using Cons.prems by (auto simp: access_shared_def)
  moreover obtain st' where "access_many A K show_int debug finder keep xs ?st = Some (replicate (length xs) x, st')" "untouched ?st st'"
    using Cons.IH [of ?st] Cons.prems by auto
  ultimately show ?case using y by (auto simp: untouched_def)
qed (simp add: untouched_def)

text \<open>While a scope of \<open>t\<close> is open no other thread opens one.\<close>

lemma live_owner:
  assumes "scope_inv t s" "live_at s i"
  shows "pr_owner (fst s) = Some t"
proof -
  have "ts_depth (snd s) \<noteq> 0" using assms scope_inv_idle_iff [OF assms(1)] by blast
  with assms(1) show ?thesis by (cases s) (auto simp: scope_inv_def)
qed

lemma scoped_apply_blocked:
  assumes "pr_owner p = Some t"
  shows "fst (scoped_apply u vars (p, new_thread_state)) = (if list_all (\<lambda>(key, _). validate_env_key key) vars then WouldBlock else Panic)"
proof -
  have "list_ex (\<lambda>(key, _). \<not> (key \<noteq> [] \<and> \<not> contains_equals key)) vars \<longleftrightarrow> \<not> list_all (\<lambda>(key, _). validate_env_key key) vars"
    by (auto simp: list_ex_iff list_all_iff validate_env_key_def)
  moreover have "acquire_lock_if_needed u (p, new_thread_state) = (WouldBlock, (ensure_lock_is_clean p, new_thread_state))"
    using assms by (simp add: acquire_lock_if_needed_def new_thread_state_def take_lock_def lock_env_mutex_def ensure_lock_is_clean_def Let_def)
  ultimately show ?thesis by (simp add: scoped_apply_def scoped_apply_os_def enter_scope_def)
qed

lemma access_first:
  assumes "sh_state st = Uninitialised" "access_shared A K show_int debug finder keep t st = Some (Returned r, st')"
  obtains wg s1 w1 where "ensure_worker_env finder t (sh_scope st) (sh_world st) = (Returned wg, s1, w1)"
    and "\<And>e. r = Inl e \<Longrightarrow> sh_state st' = FailedWith (stored_error debug e)"
    and "\<And>a. r = Inr a \<Longrightarrow> sh_state st' = Initialised a \<and>
      (\<exists>h cg w2. new_split A t s1 w1 = Some (Returned (Inr (h, cg)), sh_scope st', w2))"
proof -
  from assms obtain wg s1 w1 where "ensure_worker_env finder t (sh_scope st) (sh_world st) = (Returned wg, s1, w1)"
    by (auto simp: access_shared_def split: prod.splits ctl.splits)
  moreover from this assms have "(\<exists>e. r = Inl e \<and> sh_state st' = FailedWith (stored_error debug e)) \<or>
      (\<exists>a h cg w2. r = Inr a \<and> sh_state st' = Initialised a \<and> new_split A t s1 w1 = Some (Returned (Inr (h, cg)), sh_scope st', w2))"
    by (auto simp: access_shared_def best_effort_register_def Let_def split: prod.splits ctl.splits option.splits sum.splits)
  ultimately show thesis by (intro that) auto
qed

section \<open>Properties\<close>

text \<open>
  C10. The shared cluster is started at most once. If the first access returns a cluster, every later one, by any
  thread, returns that very cluster; if it returns an error, every later one returns an error of the same kind.
  None of them starts anything, registers anything or touches the environment.
\<close>

theorem shared_cluster_started_once:
  assumes "sh_state st = Uninitialised" "access_shared A K show_int debug finder keep t st = Some (Returned r, st1)"
  shows "\<exists>rs st2. access_many A K show_int debug finder keep later st1 = Some (rs, st2) \<and> length rs = length later \<and> untouched st1 st2 \<and>
    (case r of
       Inr a \<Rightarrow> list_all (\<lambda>x. x = Returned (Inr a)) rs
     | Inl e \<Rightarrow> list_all (\<lambda>x. \<exists>e'. x = Returned (Inl e') \<and> be_kind e' = be_kind e) rs)"
proof (rule access_first [OF assms])
  fix wg s1 w1
  assume fail: "\<And>e. r = Inl e \<Longrightarrow> sh_state st1 = FailedWith (stored_error debug e)"
    and ok: "\<And>a. r = Inr a \<Longrightarrow> sh_state st1 = Initialised a \<and>
      (\<exists>h cg w2. new_split A t s1 w1 = Some (Returned (Inr (h, cg)), sh_scope st1, w2))"
  have kind: "be_kind (failed_before debug (stored_error debug e)) = be_kind e" for e
    by (simp add: failed_before_def stored_error_def bootstrap_new_def)
  show ?thesis
  proof (cases r)
    case (Inl e)
    with fail access_settled [where x = "Returned (Inl (failed_before debug (stored_error debug e)))" and debug = debug and st = st1
        and e = "stored_error debug e" and xs = later] kind show ?thesis
      by (fastforce simp: list_all_iff)
  next
    case (Inr a)
    with ok access_settled [where x = "Returned (Inr a)" and st = st1 and xs = later and a = a] show ?thesis
      by (fastforce simp: list_all_iff)
  qed
qed


section \<open>Examples\<close>

definition fresh_shared :: "(cluster_handle, world \<times> nat \<times> bool) shared" where
  "fresh_shared = \<lparr>sh_state = Uninitialised, sh_slot = None, sh_scope = demo_scope, sh_world = boot_world, sh_os = hook_os\<rparr>"

lemma idle_access:
  assumes "sh_state st = Uninitialised" "sh_scope st = demo_scope" "sh_world st = boot_world"
  shows "\<exists>h cg st'. access_shared idle_cluster K show_int debug (\<lambda>w. (Some ''/w'', w)) keep 0 st = Some (Returned (Inr (keep h cg)), st')"
proof -
  have env: "ensure_worker_env (\<lambda>w. (Some ''/w'', w)) 0 demo_scope boot_world = (Returned None, demo_scope, boot_world)"
    by (simp add: ensure_worker_env_def resolve_worker_path_def is_worker_env_required_def var_os_def with_env_def demo_scope_def
        boot_world_def pg_embedded_worker_def)
  obtain h cg s' w' where "new_split idle_cluster 0 demo_scope boot_world = Some (Returned (Inr (h, cg)), s', w')"
    by (rule idle_new_split)
  with assms show ?thesis by (auto simp: access_shared_def env Let_def)
qed

lemma fresh_access:
  obtains h st1 where
    "shared_cluster_handle idle_cluster stubborn_kernel (\<lambda>_. ''rc'') (\<lambda>_. ''error'') (\<lambda>w. (Some ''/w'', w)) 0 fresh_shared = Some (Returned (Inr h), st1)"
  using idle_access [of fresh_shared stubborn_kernel "\<lambda>_. ''rc''" "\<lambda>_. ''error''" "\<lambda>h _. h"]
  by (auto simp: fresh_shared_def shared_cluster_handle_def)

theorem shared_cluster_started_once_witness:
  "\<exists>h st1 st2. shared_cluster_handle idle_cluster stubborn_kernel (\<lambda>_. ''rc'') (\<lambda>_. ''error'') (\<lambda>w. (Some ''/w'', w)) 0 fresh_shared =
       Some (Returned (Inr h), st1) \<and>
     access_many idle_cluster stubborn_kernel (\<lambda>_. ''rc'') (\<lambda>_. ''error'') (\<lambda>w. (Some ''/w'', w)) (\<lambda>h _. h)
       [(1, new_thread_state), (2, new_thread_state)] st1 = Some ([Returned (Inr h), Returned (Inr h)], st2)"
proof -
  obtain h st1 where run: "shared_cluster_handle idle_cluster stubborn_kernel (\<lambda>_. ''rc'') (\<lambda>_. ''error'') (\<lambda>w. (Some ''/w'', w)) 0 fresh_shared =
      Some (Returned (Inr h), st1)" by (rule fresh_access)
  have "sh_state fresh_shared = Uninitialised" by (simp add: fresh_shared_def)
  from shared_cluster_started_once [OF this run [unfolded shared_cluster_handle_def], of "[(1, new_thread_state), (2, new_thread_state)]"]
  obtain rs st2 where "access_many idle_cluster stubborn_kernel (\<lambda>_. ''rc'') (\<lambda>_. ''error'') (\<lambda>w. (Some ''/w'', w)) (\<lambda>h _. h)
       [(1, new_thread_state), (2, new_thread_state)] st1 = Some (rs, st2)" "length rs = 2" "list_all (\<lambda>x. x = Returned (Inr h)) rs"
    by auto
  moreover from this(2,3) have "rs = [Returned (Inr h), Returned (Inr h)]" by (auto simp: length_Suc_conv numeral_2_eq_2)
  ultimately show ?thesis using run by blast
qed


end
