(* ===== verification/Template_Hash.thy ===== *)
theory Template_Hash
  imports Bootstrap_Env "HOL-Library.Multiset"
begin

text \<open>
  The hash of a directory that names a template: \<open>src/src/test_support/hash.rs\<close>. What \<open>cap_std\<close> says of the
  directory is the record \<open>dir_api\<close>, with the results of the successive reads of a file; the digest and its
  printing in hexadecimal are parameters. The recursion is bounded by the depth of the tree (symbolic links are
  not followed), here by fuel.
\<close>

section \<open>Reading a directory\<close>

datatype entry_type = DirEntry | FileEntry | OtherEntry

record 'd dir_api =
  da_open :: "string \<Rightarrow> io_kind + 'd"
  da_read_dir :: "'d \<Rightarrow> string \<Rightarrow> io_kind + (io_kind + string \<times> (io_kind + entry_type)) list"
  da_open_file :: "'d \<Rightarrow> string \<Rightarrow> io_kind + (io_kind + string) list"
  da_lossy :: "string \<Rightarrow> string"
  da_show_io :: "io_kind \<Rightarrow> string"

text \<open>The private \<open>join_path\<close> of the file.\<close>

definition display_path :: "string \<Rightarrow> string \<Rightarrow> string" where
  "display_path base relative = (if relative = [] then base else join_path base relative)"

definition hash_error :: "'d dir_api \<Rightarrow> string \<Rightarrow> string \<Rightarrow> io_kind \<Rightarrow> bootstrap_error" where
  "hash_error D what shown_path e = bootstrap_msg (what @ '' '' @ CHR 0x27 # shown_path @ CHR 0x27 # '': '' @ da_show_io D e)"

text \<open>The loop over the reads of a file ends with the first empty one.\<close>

fun hash_chunks :: "(io_kind + string) list \<Rightarrow> string \<Rightarrow> io_kind + string" where
  "hash_chunks [] acc = Inr acc"
| "hash_chunks (Inl e # rs) acc = Inl e"
| "hash_chunks (Inr chunk # rs) acc = (if chunk = [] then Inr acc else hash_chunks rs (acc @ chunk))"

definition hash_file_contents :: "'d dir_api \<Rightarrow> 'd \<Rightarrow> string \<Rightarrow> string \<Rightarrow> string \<Rightarrow> bootstrap_error + string" where
  "hash_file_contents D d relative shown_path acc =
     (case da_open_file D d relative of
        Inl e \<Rightarrow> Inl (hash_error D ''failed to open file'' shown_path e)
      | Inr reads \<Rightarrow> map_err (hash_error D ''failed to read file'' shown_path) (hash_chunks reads acc))"

text \<open>\<open>collect\<close> on results: the first error, or all of them.\<close>

fun collect_results :: "('e + 'a) list \<Rightarrow> 'e + 'a list" where
  "collect_results [] = Inr []"
| "collect_results (Inl e # rs) = Inl e"
| "collect_results (Inr a # rs) = (case collect_results rs of Inl e \<Rightarrow> Inl e | Inr as \<Rightarrow> Inr (a # as))"

section \<open>Hashing\<close>

text \<open>The state of the hasher is what it has been fed. \<open>sub\<close> is the call on a directory below.\<close>

fun hash_entries ::
  "'d dir_api \<Rightarrow> 'd \<Rightarrow> string \<Rightarrow> (string \<Rightarrow> string \<Rightarrow> (bootstrap_error + string) option) \<Rightarrow> string \<Rightarrow>
     (string \<times> (io_kind + entry_type)) list \<Rightarrow> string \<Rightarrow> (bootstrap_error + string) option" where
  "hash_entries D d base sub relative [] acc = Some (Inr acc)"
| "hash_entries D d base sub relative ((entry_name, file_type) # es) acc =
     (let entry_relative = join_path relative entry_name;
          entry_path = display_path base entry_relative;
          acc1 = acc @ da_lossy D entry_relative
      in case file_type of
           Inl e \<Rightarrow> Some (Inl (hash_error D ''failed to read directory entry type in'' entry_path e))
         | Inr ft \<Rightarrow>
             (case (case ft of
                 DirEntry \<Rightarrow> sub entry_relative acc1
               | FileEntry \<Rightarrow> Some (hash_file_contents D d entry_relative entry_path acc1)
               | OtherEntry \<Rightarrow> Some (Inr acc1)) of
                None \<Rightarrow> None
              | Some (Inl e) \<Rightarrow> Some (Inl e)
              | Some (Inr acc2) \<Rightarrow> hash_entries D d base sub relative es acc2))"

fun hash_directory_recursive ::
  "'d dir_api \<Rightarrow> 'd \<Rightarrow> string \<Rightarrow> nat \<Rightarrow> string \<Rightarrow> string \<Rightarrow> (bootstrap_error + string) option" where
  "hash_directory_recursive D d base 0 relative acc = None"
| "hash_directory_recursive D d base (Suc fuel) relative acc =
     (case da_read_dir D d (if relative = [] then ''.'' else relative) of
        Inl e \<Rightarrow> Some (Inl (hash_error D ''failed to read directory'' (display_path base relative) e))
      | Inr results \<Rightarrow>
          (case collect_results results of
             Inl e \<Rightarrow> Some (Inl (hash_error D ''failed to read directory entry in'' (display_path base relative) e))
           | Inr entries \<Rightarrow>
               hash_entries D d base (hash_directory_recursive D d base fuel) relative
                 (sort_key (\<lambda>(entry_name, _). da_lossy D entry_name) entries) acc))"

definition hash_directory ::
  "'d dir_api \<Rightarrow> (string \<Rightarrow> string) \<Rightarrow> nat \<Rightarrow> string \<Rightarrow> (bootstrap_error + string) option" where
  "hash_directory D hex_digest fuel dir_path =
     (case da_open D dir_path of
        Inl e \<Rightarrow> Some (Inl (hash_error D ''failed to open directory'' dir_path e))
      | Inr d \<Rightarrow>
          (case hash_directory_recursive D d dir_path fuel [] [] of
             None \<Rightarrow> None
           | Some (Inl e) \<Rightarrow> Some (Inl e)
           | Some (Inr fed) \<Rightarrow> Some (Inr (hex_digest fed))))"

section \<open>Properties\<close>

text \<open>Two views of one directory: every listing has the same entries, in any order, with names that differ.\<close>

definition same_listing ::
  "(string \<Rightarrow> string) \<Rightarrow> io_kind + (io_kind + string \<times> (io_kind + entry_type)) list \<Rightarrow>
     io_kind + (io_kind + string \<times> (io_kind + entry_type)) list \<Rightarrow> bool" where
  "same_listing lossy r r' =
     ((\<exists>e. r = Inl e \<and> r' = Inl e) \<or>
      (\<exists>es es'. r = Inr (map Inr es) \<and> r' = Inr (map Inr es') \<and> mset es = mset es' \<and>
         distinct (map (\<lambda>(n, _). lossy n) es)))"

definition same_directory :: "'d dir_api \<Rightarrow> 'd dir_api \<Rightarrow> bool" where
  "same_directory D D' =
     (da_open D = da_open D' \<and> da_open_file D = da_open_file D' \<and> da_lossy D = da_lossy D' \<and>
      da_show_io D = da_show_io D' \<and>
      (\<forall>d p. same_listing (da_lossy D) (da_read_dir D d p) (da_read_dir D' d p)))"

lemma collect_results_Inr [simp]: "collect_results (map Inr es) = Inr es"
  by (induction es) auto

lemma sort_key_permuted:
  assumes "mset es = mset es'" and "distinct (map f es)"
  shows "sort_key f es = sort_key f es'"
  using assms by (intro sort_key_inj_key_eq) (auto simp: distinct_map)

lemma hash_error_same: "da_show_io D = da_show_io D' \<Longrightarrow> hash_error D = hash_error D'"
  by (intro ext) (simp add: hash_error_def)

lemma hash_entries_cong:
  assumes "da_open_file D = da_open_file D'" "da_lossy D = da_lossy D'" "da_show_io D = da_show_io D'"
    and "\<And>p acc. sub p acc = sub' p acc"
  shows "hash_entries D d base sub relative es acc = hash_entries D' d base sub' relative es acc"
proof -
  have err: "hash_error D = hash_error D'" using assms(3) by (rule hash_error_same)
  have "hash_file_contents D = hash_file_contents D'"
    by (intro ext) (unfold hash_file_contents_def assms(1) err, rule refl)
  moreover have "sub = sub'" using assms(4) by blast
  ultimately show ?thesis using assms(2) err
    by (induction es arbitrary: acc) (auto simp: Let_def split: sum.splits entry_type.splits option.splits)
qed

lemma hash_recursive_same:
  assumes "same_directory D D'"
  shows "hash_directory_recursive D d base fuel relative acc = hash_directory_recursive D' d base fuel relative acc"
proof (induction fuel arbitrary: relative acc)
  case (Suc fuel)
  define p where "p = (if relative = [] then ''.'' else relative)"
  have same: "da_open_file D = da_open_file D'" "da_lossy D = da_lossy D'" "da_show_io D = da_show_io D'"
    and listing: "same_listing (da_lossy D) (da_read_dir D d p) (da_read_dir D' d p)"
    using assms by (auto simp: same_directory_def)
  have err: "hash_error D = hash_error D'" using same by (intro hash_error_same)
  note entries = hash_entries_cong [OF same Suc.IH]
  from listing [unfolded same_listing_def] show ?case
  proof (elim disjE exE conjE)
    fix e assume "da_read_dir D d p = Inl e" "da_read_dir D' d p = Inl e"
    then show ?thesis by (simp add: p_def [symmetric] err)
  next
    fix es es' assume r: "da_read_dir D d p = Inr (map Inr es)" "da_read_dir D' d p = Inr (map Inr es')"
      and perm: "mset es = mset es'" "distinct (map (\<lambda>(n, _). da_lossy D n) es)"
    from sort_key_permuted [OF perm] r show ?thesis
      by (simp add: p_def [symmetric] entries same)
  qed
qed simp

text \<open>Fuel greater than the depth of the directory is enough.\<close>

fun depth_below :: "'d dir_api \<Rightarrow> 'd \<Rightarrow> nat \<Rightarrow> string \<Rightarrow> bool" where
  "depth_below D d 0 relative = False"
| "depth_below D d (Suc n) relative =
     (case da_read_dir D d (if relative = [] then ''.'' else relative) of
        Inl e \<Rightarrow> True
      | Inr results \<Rightarrow> \<forall>r \<in> set results. case r of
            Inr (entry_name, Inr DirEntry) \<Rightarrow> depth_below D d n (join_path relative entry_name)
          | _ \<Rightarrow> True)"

lemma collect_results_set: "collect_results rs = Inr as \<Longrightarrow> rs = map Inr as"
  by (induction rs arbitrary: as rule: collect_results.induct) (auto split: sum.splits)

lemma hash_entries_ends:
  assumes "\<And>n acc. (n, Inr DirEntry) \<in> set es \<Longrightarrow> sub (join_path relative n) acc \<noteq> None"
  shows "hash_entries D d base sub relative es acc \<noteq> None"
  using assms
  by (induction es arbitrary: acc)
    (auto simp: Let_def split: sum.splits entry_type.splits option.splits, (metis option.distinct(1))+)

lemma hash_recursive_ends:
  assumes "depth_below D d fuel relative"
  shows "hash_directory_recursive D d base fuel relative acc \<noteq> None"
  using assms
proof (induction fuel arbitrary: relative acc)
  case (Suc fuel)
  show ?case
  proof (cases "da_read_dir D d (if relative = [] then ''.'' else relative)")
    case (Inr results)
    have sub: "hash_directory_recursive D d base fuel (join_path relative n) acc' \<noteq> None"
      if "Inr (n, Inr DirEntry) \<in> set results" for n acc'
      using Suc Inr that by fastforce
    show ?thesis
    proof (cases "collect_results results")
      case (Inr es)
      have "hash_entries D d base (hash_directory_recursive D d base fuel) relative
              (sort_key (\<lambda>(entry_name, _). da_lossy D entry_name) es) acc \<noteq> None"
        by (rule hash_entries_ends) (use sub collect_results_set [OF Inr] in auto)
      with \<open>da_read_dir D d _ = Inr results\<close> Inr show ?thesis by simp
    qed (simp add: Inr)
  qed simp
qed simp

text \<open>
  The name of a template does not depend on the order in which the file system lists the entries of a
  directory: two views of one directory that differ only in that order, with names that stay different when they
  are printed, have the same hash, or the same failure, for every digest.
\<close>

theorem hash_ignores_order:
  assumes "same_directory D D'"
  shows "hash_directory D hex_digest fuel dir_path = hash_directory D' hex_digest fuel dir_path"
proof -
  have "da_open D = da_open D'" "hash_error D = hash_error D'"
    using assms hash_error_same by (auto simp: same_directory_def)
  then show ?thesis unfolding hash_directory_def hash_recursive_same [OF assms] by (metis (no_types))
qed

text \<open>A directory that holds files only, each read in one piece.\<close>

definition flat_dir :: "(string \<times> string) list \<Rightarrow> unit dir_api" where
  "flat_dir files = \<lparr>
     da_open = (\<lambda>p. Inr ()),
     da_read_dir = (\<lambda>d p. Inr (map (\<lambda>(n, c). Inr (n, Inr FileEntry)) files)),
     da_open_file = (\<lambda>d p. case map_of files p of None \<Rightarrow> Inl NotFound | Some c \<Rightarrow> Inr [Inr c, Inr []]),
     da_lossy = (\<lambda>n. n), da_show_io = (\<lambda>e. '''') \<rparr>"

lemma collect_flat [simp]:
  "collect_results (map (\<lambda>(n, c). Inr (n, t)) files) = Inr (map (\<lambda>(n, c). (n, t)) files)"
  by (induction files) auto

lemma hash_flat_file:
  assumes "map_of files n = Some c"
  shows "hash_file_contents (flat_dir files) d n shown acc = Inr (acc @ c)"
  using assms by (simp add: hash_file_contents_def flat_dir_def)

lemma hash_flat_entry:
  assumes "map_of files n = Some c" and "\<not> is_abs n"
  shows "hash_entries (flat_dir files) d base sub [] ((n, Inr FileEntry) # es) acc =
           hash_entries (flat_dir files) d base sub [] es (acc @ n @ c)"
  using assms by (simp add: hash_flat_file join_path_def) (simp add: flat_dir_def)

lemma hash_flat_directory:
  assumes "hash_entries (flat_dir files) () dir_path (hash_directory_recursive (flat_dir files) () dir_path fuel) []
             (sort_key (\<lambda>(n, _). n) (map (\<lambda>(n, c). (n, Inr FileEntry)) files)) [] = Some (Inr fed)"
  shows "hash_directory (flat_dir files) hex_digest (Suc fuel) dir_path = Some (Inr (hex_digest fed))"
proof -
  have read: "da_open (flat_dir files) dir_path = Inr ()" "da_lossy (flat_dir files) = (\<lambda>n. n)"
    "da_read_dir (flat_dir files) () ''.'' = Inr (map (\<lambda>(n, c). Inr (n, Inr FileEntry)) files)"
    by (simp_all add: flat_dir_def)
  show ?thesis using assms by (simp add: hash_directory_def read)
qed

text \<open>
  What is hashed does not say where a name or a file ends: a directory with two files and one whose single
  file holds the first file's text followed by the name and the text of the second have the same hash, whatever
  the digest. A template named by the hash is then reused although the migrations changed.
\<close>

theorem hash_collision:
  assumes "a < b" and "\<not> is_abs a" and "\<not> is_abs b"
  shows "hash_directory (flat_dir [(a, x), (b, y)]) hex_digest (Suc fuel) dir_path = Some (Inr (hex_digest (a @ x @ b @ y)))
       \<and> hash_directory (flat_dir [(a, x @ b @ y)]) hex_digest (Suc fuel) dir_path = Some (Inr (hex_digest (a @ x @ b @ y)))"
proof -
  have "a \<noteq> b" and "b \<noteq> a" using assms(1) by auto
  with assms show ?thesis
    by (intro conjI hash_flat_directory) (auto simp: hash_flat_entry simp del: hash_entries.simps(2))
qed

theorem hash_collision_witness:
  "hash_directory (flat_dir [(''1.sql'', ''x;''), (''2.sql'', ''y;'')]) (\<lambda>s. s) (Suc 0) ''m'' =
   hash_directory (flat_dir [(''1.sql'', ''x;2.sqly;'')]) (\<lambda>s. s) (Suc 0) ''m''"
proof -
  have "''1.sql'' < ''2.sql''" "\<not> is_abs ''1.sql''" "\<not> is_abs ''2.sql''"
    by (simp_all add: is_abs_def less_char_def)
  from hash_collision [OF this, of "''x;''" "''y;''" "\<lambda>s. s" 0 "''m''"] show ?thesis by simp
qed

text \<open>The listing of the witness in both orders.\<close>

theorem hash_ignores_order_witness:
  "hash_directory (flat_dir [(''a'', ''1''), (''b'', ''2'')]) (\<lambda>s. s) 1 ''m'' =
   hash_directory (flat_dir [(''b'', ''2''), (''a'', ''1'')]) (\<lambda>s. s) 1 ''m''"
proof (rule hash_ignores_order)
  let ?es = "[(''a'', Inr FileEntry), (''b'', Inr FileEntry)]"
  have "\<exists>es es'. [Inr (''a'', Inr FileEntry), Inr (''b'', Inr FileEntry)] = map Inr es \<and>
      [Inr (''b'', Inr FileEntry), Inr (''a'', Inr FileEntry)] = map Inr es' \<and> mset es = mset es' \<and>
      distinct (map (\<lambda>(n, _). n) es)"
    by (intro exI [of _ ?es] exI [of _ "rev ?es"]) simp
  then show "same_directory (flat_dir [(''a'', ''1''), (''b'', ''2'')]) (flat_dir [(''b'', ''2''), (''a'', ''1'')])"
    by (auto simp: same_directory_def same_listing_def flat_dir_def fun_eq_iff)
qed

end
