(* ===== verification/Databases.thy ===== *)
theory Databases
  imports Cluster_Start
begin

text \<open>
  The databases of a running cluster: \<open>src/src/cluster/connection.rs\<close>, \<open>lifecycle.rs\<close> and
  \<open>temporary_database.rs\<close>. The PostgreSQL client and the server behind it are the record \<open>server\<close> over a state
  of its own; what it does with a statement is stated in \<open>server_spec\<close>, over the text of the statement, so
  that the quoting of names is part of what is proved. The abstract view of the server is the set of its databases.
\<close>

section \<open>Text\<close>

text \<open>\<open>str::replace\<close> for a pattern that is not empty: the matches from the left that do not overlap.\<close>

function str_replace :: "string \<Rightarrow> string \<Rightarrow> string \<Rightarrow> string" where
  "str_replace pat to s =
     (if pat \<noteq> [] \<and> prefix pat s then to @ str_replace pat to (drop (length pat) s)
      else case s of [] \<Rightarrow> [] | c # r \<Rightarrow> c # str_replace pat to r)"
  by pat_completeness auto

termination
  by (relation "measure (\<lambda>(pat, to, s). length s)") (auto simp: prefix_def)

declare str_replace.simps [simp del]

lemma str_replace_Nil [simp]: "str_replace pat to [] = []"
  by (subst str_replace.simps) simp

lemma str_replace_hit: "pat \<noteq> [] \<Longrightarrow> str_replace pat to (pat @ s) = to @ str_replace pat to s"
  by (subst str_replace.simps) simp

lemma str_replace_miss: "pat \<noteq> [] \<Longrightarrow> c \<noteq> hd pat \<Longrightarrow> str_replace pat to (c # s) = c # str_replace pat to s"
  by (subst str_replace.simps) (cases pat, auto)

lemma str_replace_skip:
  "pat \<noteq> [] \<Longrightarrow> hd pat \<notin> set s \<Longrightarrow> str_replace pat to (s @ t) = s @ str_replace pat to t"
  by (induction s) (auto simp: str_replace_miss)

definition dquote :: char where "dquote = CHR 0x22"

definition escape_identifier :: "string \<Rightarrow> string" where
  "escape_identifier name = str_replace [dquote] [dquote, dquote] name"

section \<open>Client and connection\<close>

text \<open>
  \<open>sv_url\<close> is \<open>Settings::url\<close>; \<open>sv_connect\<close> is \<open>Client::connect\<close>, \<open>sv_batch\<close>, \<open>sv_query_bool\<close> and \<open>sv_execute\<close> are
  the client's \<open>batch_execute\<close>, \<open>query_one\<close> with the first column read, and \<open>execute\<close>; \<open>sv_close\<close> is the end of a
  client. Errors are given by their text.
\<close>

record ('c, 's) server =
  sv_url :: "settings \<Rightarrow> string \<Rightarrow> string"
  sv_connect :: "string \<Rightarrow> 's \<Rightarrow> (string + 'c) \<times> 's"
  sv_batch :: "'c \<Rightarrow> string \<Rightarrow> 's \<Rightarrow> (string + unit) \<times> 's"
  sv_query_bool :: "'c \<Rightarrow> string \<Rightarrow> string list \<Rightarrow> 's \<Rightarrow> (string + bool) \<times> 's"
  sv_execute :: "'c \<Rightarrow> string \<Rightarrow> string list \<Rightarrow> 's \<Rightarrow> (string + nat) \<times> 's"
  sv_close :: "'c \<Rightarrow> 's \<Rightarrow> 's"

type_synonym ('a, 's) db_run = "(bootstrap_error + 'a) \<times> 's"

record connection_metadata =
  cm_settings :: settings
  cm_pgpass_file :: pathbuf

definition from_settings :: "bootstrap_settings \<Rightarrow> connection_metadata" where
  "from_settings b = \<lparr>cm_settings = bs_settings b, cm_pgpass_file = ben_pgpass_file (bs_environment b)\<rparr>"

definition connection :: "cluster_handle \<Rightarrow> connection_metadata" where
  "connection h = from_settings (ch_bootstrap h)"

definition database_url :: "('c, 's) server \<Rightarrow> connection_metadata \<Rightarrow> string \<Rightarrow> string" where
  "database_url S cm database = sv_url S (cm_settings cm) database"

definition connect_admin :: "('c, 's) server \<Rightarrow> string \<Rightarrow> 's \<Rightarrow> ('c, 's) db_run" where
  "connect_admin S url s =
     (case sv_connect S url s of
        (Inl err, s1) \<Rightarrow> (Inl (bootstrap_msg (''failed to connect to admin database: '' @ err)), s1)
      | (Inr client, s1) \<Rightarrow> (Inr client, s1))"

definition admin_client :: "('c, 's) server \<Rightarrow> connection_metadata \<Rightarrow> 's \<Rightarrow> ('c, 's) db_run" where
  "admin_client S cm s = connect_admin S (database_url S cm ''postgres'') s"

text \<open>A client lives until its function returns, by whatever way.\<close>

definition with_client :: "('c, 's) server \<Rightarrow> ('c, 's) db_run \<Rightarrow> ('c \<Rightarrow> 's \<Rightarrow> ('a, 's) db_run) \<Rightarrow> ('a, 's) db_run" where
  "with_client S connected f =
     (case connected of
        (Inl e, s1) \<Rightarrow> (Inl e, s1)
      | (Inr client, s1) \<Rightarrow> (case f client s1 of (r, s2) \<Rightarrow> (r, sv_close S client s2)))"

definition wrap_db :: "string \<Rightarrow> (string + 'a) \<times> 's \<Rightarrow> ('a, 's) db_run" where
  "wrap_db msg r = (map_err (\<lambda>e. bootstrap_from_report (Ctx msg (Msg e))) (fst r), snd r)"

section \<open>Databases\<close>

definition execute_ddl_command ::
  "('c, 's) server \<Rightarrow> connection_metadata \<Rightarrow> string \<Rightarrow> string \<Rightarrow> string \<Rightarrow> 's \<Rightarrow> (unit, 's) db_run" where
  "execute_ddl_command S cm sql_template name verb s =
     with_client S (admin_client S cm s) (\<lambda>client s.
       let escaped = escape_identifier name;
           sql = str_replace ''{}'' (dquote # escaped @ [dquote]) sql_template
       in wrap_db (''failed to '' @ verb @ '' database '' @ quoted name) (sv_batch S client sql s))"

definition create_database :: "('c, 's) server \<Rightarrow> connection_metadata \<Rightarrow> string \<Rightarrow> 's \<Rightarrow> (unit, 's) db_run" where
  "create_database S cm name s = execute_ddl_command S cm ''CREATE DATABASE {}'' name ''create'' s"

definition create_database_from_template ::
  "('c, 's) server \<Rightarrow> connection_metadata \<Rightarrow> string \<Rightarrow> string \<Rightarrow> 's \<Rightarrow> (unit, 's) db_run" where
  "create_database_from_template S cm name template s =
     with_client S (admin_client S cm s) (\<lambda>client s.
       let sql = ''CREATE DATABASE '' @ dquote # escape_identifier name @ dquote # '' TEMPLATE '' @
             dquote # escape_identifier template @ [dquote]
       in wrap_db (''failed to create database '' @ quoted name @ '' from template '' @ quoted template)
            (sv_batch S client sql s))"

definition drop_database :: "('c, 's) server \<Rightarrow> connection_metadata \<Rightarrow> string \<Rightarrow> 's \<Rightarrow> (unit, 's) db_run" where
  "drop_database S cm name s = execute_ddl_command S cm ''DROP DATABASE {}'' name ''drop'' s"

definition exists_query :: string where
  "exists_query = ''SELECT EXISTS(SELECT 1 FROM pg_database WHERE datname = $1)''"

definition database_exists :: "('c, 's) server \<Rightarrow> connection_metadata \<Rightarrow> string \<Rightarrow> 's \<Rightarrow> (bool, 's) db_run" where
  "database_exists S cm name s =
     with_client S (admin_client S cm s) (\<lambda>client s.
       wrap_db ''failed to query pg_database'' (sv_query_bool S client exists_query [name] s))"

text \<open>What \<open>ensure_template_exists\<close> does once it holds the lock of the template.\<close>

definition ensure_template_exists ::
  "('c, 's) server \<Rightarrow> connection_metadata \<Rightarrow> string \<Rightarrow> (string \<Rightarrow> 's \<Rightarrow> (unit, 's) db_run) \<Rightarrow> 's \<Rightarrow> (unit, 's) db_run" where
  "ensure_template_exists S cm name setup_fn s =
     (case database_exists S cm name s of
        (Inl e, s1) \<Rightarrow> (Inl e, s1)
      | (Inr present, s1) \<Rightarrow>
          if \<not> present then
            (case create_database S cm name s1 of
               (Inl e, s2) \<Rightarrow> (Inl e, s2)
             | (Inr _, s2) \<Rightarrow> setup_fn name s2)
          else (Inr (), s1))"

section \<open>Temporary databases\<close>

record temporary_db =
  td_name :: string
  td_admin_url :: string
  td_database_url :: string

definition temporary_database ::
  "('c, 's) server \<Rightarrow> connection_metadata \<Rightarrow> string \<Rightarrow> 's \<Rightarrow> (temporary_db, 's) db_run" where
  "temporary_database S cm name s =
     (case create_database S cm name s of
        (Inl e, s1) \<Rightarrow> (Inl e, s1)
      | (Inr _, s1) \<Rightarrow>
          (Inr \<lparr>td_name = name, td_admin_url = database_url S cm ''postgres'', td_database_url = database_url S cm name\<rparr>, s1))"

definition temporary_database_from_template ::
  "('c, 's) server \<Rightarrow> connection_metadata \<Rightarrow> string \<Rightarrow> string \<Rightarrow> 's \<Rightarrow> (temporary_db, 's) db_run" where
  "temporary_database_from_template S cm name template s =
     (case create_database_from_template S cm name template s of
        (Inl e, s1) \<Rightarrow> (Inl e, s1)
      | (Inr _, s1) \<Rightarrow>
          (Inr \<lparr>td_name = name, td_admin_url = database_url S cm ''postgres'', td_database_url = database_url S cm name\<rparr>, s1))"

definition drop_sql :: "string \<Rightarrow> string" where
  "drop_sql name = ''DROP DATABASE '' @ dquote # escape_identifier name @ [dquote]"

definition try_drop :: "('c, 's) server \<Rightarrow> temporary_db \<Rightarrow> 's \<Rightarrow> (unit, 's) db_run" where
  "try_drop S td s =
     with_client S (connect_admin S (td_admin_url td) s) (\<lambda>client s.
       wrap_db (''failed to drop database '' @ quoted (td_name td)) (sv_batch S client (drop_sql (td_name td)) s))"

text \<open>\<open>Drop\<close>: an error is only logged.\<close>

definition drop_temporary :: "('c, 's) server \<Rightarrow> temporary_db \<Rightarrow> 's \<Rightarrow> 's" where
  "drop_temporary S td s = snd (try_drop S td s)"

definition terminate_query :: string where
  "terminate_query = ''SELECT pg_terminate_backend(pid) FROM pg_stat_activity WHERE datname = $1 AND pid <> pg_backend_pid()''"

definition force_drop_body :: "('c, 's) server \<Rightarrow> temporary_db \<Rightarrow> 's \<Rightarrow> (unit, 's) db_run" where
  "force_drop_body S td s =
     with_client S (connect_admin S (td_admin_url td) s) (\<lambda>client s.
       case wrap_db (''failed to terminate connections to database '' @ quoted (td_name td))
              (sv_execute S client terminate_query [td_name td] s) of
         (Inl e, s1) \<Rightarrow> (Inl e, s1)
       | (Inr _, s1) \<Rightarrow>
           wrap_db (''failed to drop database '' @ quoted (td_name td)) (sv_batch S client (drop_sql (td_name td)) s1))"

text \<open>Both explicit drops consume the guard, whose \<open>Drop\<close> runs at their end; \<open>other\<close> is what other clients of the server
  do in between.\<close>

definition temp_drop_database :: "('c, 's) server \<Rightarrow> temporary_db \<Rightarrow> ('s \<Rightarrow> 's) \<Rightarrow> 's \<Rightarrow> (unit, 's) db_run" where
  "temp_drop_database S td other s = (case try_drop S td s of (r, s1) \<Rightarrow> (r, drop_temporary S td (other s1)))"

definition force_drop :: "('c, 's) server \<Rightarrow> temporary_db \<Rightarrow> ('s \<Rightarrow> 's) \<Rightarrow> 's \<Rightarrow> (unit, 's) db_run" where
  "force_drop S td other s = (case force_drop_body S td s of (r, s1) \<Rightarrow> (r, drop_temporary S td (other s1)))"

section \<open>Quoting\<close>

text \<open>
  A quoted identifier of SQL, character by character, and how the server reads one: up to the first quote that is
  not doubled. \<open>None\<close> if there is no quote at the start or none at the end.
\<close>

definition quote_ident :: "string \<Rightarrow> string" where
  "quote_ident name = dquote # concat (map (\<lambda>c. if c = dquote then [dquote, dquote] else [c]) name) @ [dquote]"

fun lex_body :: "string \<Rightarrow> (string \<times> string) option" where
  "lex_body [] = None"
| "lex_body [c] = (if c = dquote then Some ([], []) else None)"
| "lex_body (c # d # s) =
     (if c \<noteq> dquote then map_option (\<lambda>(n, r). (c # n, r)) (lex_body (d # s))
      else if d = dquote then map_option (\<lambda>(n, r). (dquote # n, r)) (lex_body s)
      else Some ([], d # s))"

fun lex_ident :: "string \<Rightarrow> (string \<times> string) option" where
  "lex_ident [] = None"
| "lex_ident (c # s) = (if c = dquote then lex_body s else None)"

lemma escape_charwise: "escape_identifier name = concat (map (\<lambda>c. if c = dquote then [dquote, dquote] else [c]) name)"
proof (induction name)
  case (Cons c name)
  then show ?case
    using str_replace_hit [of "[dquote]" "[dquote, dquote]" name]
      str_replace_miss [of "[dquote]" c "[dquote, dquote]" name]
    by (cases "c = dquote") (simp_all add: escape_identifier_def)
qed (simp add: escape_identifier_def)

lemma quoted_escape: "dquote # escape_identifier name @ [dquote] = quote_ident name"
  by (simp add: escape_charwise quote_ident_def)

lemma quoted_escape_rest: "dquote # escape_identifier name @ dquote # rest = quote_ident name @ rest"
  by (simp add: escape_charwise quote_ident_def)

lemma lex_body_quoted:
  "rest = [] \<or> hd rest \<noteq> dquote \<Longrightarrow>
     lex_body (concat (map (\<lambda>c. if c = dquote then [dquote, dquote] else [c]) name) @ dquote # rest) = Some (name, rest)"
proof (induction name)
  case Nil
  then show ?case by (cases rest) auto
next
  case (Cons c name)
  let ?q = "concat (map (\<lambda>c. if c = dquote then [dquote, dquote] else [c]) name) @ dquote # rest"
  obtain d s where q: "?q = d # s" by (cases ?q) auto
  show ?case
  proof (cases "c = dquote")
    case True
    with Cons show ?thesis by simp
  next
    case False
    with Cons q show ?thesis by simp
  qed
qed

lemma lex_quoted: "rest = [] \<or> hd rest \<noteq> dquote \<Longrightarrow> lex_ident (quote_ident name @ rest) = Some (name, rest)"
  using lex_body_quoted [of rest name] by (simp add: quote_ident_def)

text \<open>The statements as they are sent.\<close>

lemma sent_statement:
  assumes "CHR ''{'' \<notin> set pre"
  shows "str_replace ''{}'' (dquote # escape_identifier name @ [dquote]) (pre @ ''{}'') = pre @ quote_ident name"
  using assms str_replace_skip [of "''{}''" pre "dquote # escape_identifier name @ [dquote]" "''{}''"]
    str_replace_hit [of "''{}''" "dquote # escape_identifier name @ [dquote]" "[]"]
  by (simp add: quoted_escape)

lemma create_statement:
  "str_replace ''{}'' (dquote # escape_identifier name @ [dquote]) ''CREATE DATABASE {}'' = ''CREATE DATABASE '' @ quote_ident name"
  "str_replace ''{}'' (dquote # escape_identifier name @ [dquote]) ''DROP DATABASE {}'' = ''DROP DATABASE '' @ quote_ident name"
  using sent_statement [of "''CREATE DATABASE ''" name] sent_statement [of "''DROP DATABASE ''" name] by simp_all

section \<open>The server\<close>

text \<open>Names the server keeps as they are: not empty, no NUL, and within the 63 bytes of an identifier.\<close>

definition db_name :: "string \<Rightarrow> bool" where
  "db_name n \<longleftrightarrow> n \<noteq> [] \<and> CHR 0x00 \<notin> set n \<and> length n \<le> 63"

text \<open>A call that fails changes nothing; one that succeeds with \<open>a\<close> leaves a set of databases as \<open>Q a\<close> says.\<close>

definition effect :: "('s \<Rightarrow> string set) \<Rightarrow> string set \<Rightarrow> ('a \<Rightarrow> string set \<Rightarrow> bool) \<Rightarrow> ('e + 'a) \<times> 's \<Rightarrow> bool" where
  "effect dbs D Q x \<longleftrightarrow> (case x of (Inl _, s') \<Rightarrow> dbs s' = D | (Inr a, s') \<Rightarrow> Q a (dbs s'))"

text \<open>
  What the documentation of PostgreSQL says of these statements, over the set \<open>dbs\<close> of its databases. Each may
  fail for other reasons (connections that are still open, no space, a lost connection), and then changes nothing.
\<close>

definition created :: "string \<Rightarrow> string set \<Rightarrow> unit \<Rightarrow> string set \<Rightarrow> bool" where
  "created n D _ D' \<longleftrightarrow> n \<notin> D \<and> D' = insert n D"

definition dropped :: "string \<Rightarrow> string set \<Rightarrow> unit \<Rightarrow> string set \<Rightarrow> bool" where
  "dropped n D _ D' \<longleftrightarrow> n \<in> D \<and> D' = D - {n}"

definition server_spec :: "('c, 's) server \<Rightarrow> ('s \<Rightarrow> string set) \<Rightarrow> bool" where
  "server_spec S dbs \<longleftrightarrow>
     (\<forall>url s. dbs (snd (sv_connect S url s)) = dbs s) \<and> (\<forall>c s. dbs (sv_close S c s) = dbs s) \<and>
     (\<forall>c n s. db_name n \<longrightarrow>
        effect dbs (dbs s) (created n (dbs s)) (sv_batch S c (''CREATE DATABASE '' @ quote_ident n) s)) \<and>
     (\<forall>c n t s. db_name n \<longrightarrow> db_name t \<longrightarrow>
        effect dbs (dbs s) (\<lambda>u D. t \<in> dbs s \<and> created n (dbs s) u D)
          (sv_batch S c (''CREATE DATABASE '' @ quote_ident n @ '' TEMPLATE '' @ quote_ident t) s)) \<and>
     (\<forall>c n s. db_name n \<longrightarrow>
        effect dbs (dbs s) (dropped n (dbs s)) (sv_batch S c (''DROP DATABASE '' @ quote_ident n) s)) \<and>
     (\<forall>c n s. db_name n \<longrightarrow>
        effect dbs (dbs s) (\<lambda>b D. b = (n \<in> dbs s) \<and> D = dbs s) (sv_query_bool S c exists_query [n] s)) \<and>
     (\<forall>c n s. dbs (snd (sv_execute S c terminate_query [n] s)) = dbs s)"

lemma effect_wrap [simp]: "effect dbs D Q (wrap_db m x) = effect dbs D Q x"
  by (cases x) (auto simp: effect_def wrap_db_def map_err_def split: sum.splits)

lemma wrap_db_snd [simp]: "snd (wrap_db m x) = snd x"
  by (simp add: wrap_db_def)

text \<open>What a function does with its client is what the whole call does.\<close>

lemma effect_with_client:
  assumes spec: "server_spec S dbs" and body: "\<And>client s1. dbs s1 = dbs s \<Longrightarrow> effect dbs (dbs s) Q (f client s1)"
  shows "effect dbs (dbs s) Q (with_client S (connect_admin S url s) f)"
proof -
  have laws: "dbs (snd (sv_connect S url s)) = dbs s" "dbs (sv_close S c t) = dbs t" for c t
    using spec by (simp_all add: server_spec_def)
  obtain c s1 where con: "sv_connect S url s = (c, s1)" by fastforce
  with laws(1) have s1: "dbs s1 = dbs s" by simp
  show ?thesis
  proof (cases c)
    case (Inl e)
    with con s1 show ?thesis by (simp add: with_client_def connect_admin_def effect_def)
  next
    case (Inr client)
    with con body [OF s1, of client] show ?thesis
      by (cases "f client s1") (simp add: with_client_def connect_admin_def effect_def laws(2) split: sum.splits)
  qed
qed

lemma create_database_effect:
  assumes spec: "server_spec S dbs" and "db_name n"
  shows "effect dbs (dbs s) (created n (dbs s)) (create_database S cm n s)"
  unfolding create_database_def execute_ddl_command_def admin_client_def Let_def create_statement
proof (rule effect_with_client [OF spec])
  fix c s1 assume "dbs s1 = dbs s"
  with assms show "effect dbs (dbs s) (created n (dbs s)) (wrap_db (''failed to '' @ ''create'' @ '' database '' @ quoted n)
      (sv_batch S c (''CREATE DATABASE '' @ quote_ident n) s1))"
    unfolding effect_wrap server_spec_def by metis
qed

lemma drop_database_effect:
  assumes spec: "server_spec S dbs" and "db_name n"
  shows "effect dbs (dbs s) (dropped n (dbs s)) (drop_database S cm n s)"
  unfolding drop_database_def execute_ddl_command_def admin_client_def Let_def create_statement
proof (rule effect_with_client [OF spec])
  fix c s1 assume "dbs s1 = dbs s"
  with assms show "effect dbs (dbs s) (dropped n (dbs s)) (wrap_db (''failed to '' @ ''drop'' @ '' database '' @ quoted n)
      (sv_batch S c (''DROP DATABASE '' @ quote_ident n) s1))"
    unfolding effect_wrap server_spec_def by metis
qed

lemma template_statement:
  "''CREATE DATABASE '' @ dquote # escape_identifier n @ dquote # '' TEMPLATE '' @ dquote # escape_identifier t @ [dquote] =
     ''CREATE DATABASE '' @ quote_ident n @ '' TEMPLATE '' @ quote_ident t"
  by (simp only: quoted_escape_rest append_Nil2)

lemma from_template_effect:
  assumes spec: "server_spec S dbs" and "db_name n" "db_name t"
  shows "effect dbs (dbs s) (\<lambda>u D. t \<in> dbs s \<and> created n (dbs s) u D) (create_database_from_template S cm n t s)"
  unfolding create_database_from_template_def admin_client_def Let_def template_statement
proof (rule effect_with_client [OF spec])
  fix c s1 assume "dbs s1 = dbs s"
  with assms show "effect dbs (dbs s) (\<lambda>u D. t \<in> dbs s \<and> created n (dbs s) u D)
      (wrap_db (''failed to create database '' @ quoted n @ '' from template '' @ quoted t)
        (sv_batch S c (''CREATE DATABASE '' @ quote_ident n @ '' TEMPLATE '' @ quote_ident t) s1))"
    unfolding effect_wrap server_spec_def by metis
qed

lemma database_exists_effect:
  assumes spec: "server_spec S dbs" and "db_name n"
  shows "effect dbs (dbs s) (\<lambda>b D. b = (n \<in> dbs s) \<and> D = dbs s) (database_exists S cm n s)"
  unfolding database_exists_def admin_client_def
proof (rule effect_with_client [OF spec])
  fix c s1 assume "dbs s1 = dbs s"
  with assms show "effect dbs (dbs s) (\<lambda>b D. b = (n \<in> dbs s) \<and> D = dbs s)
      (wrap_db ''failed to query pg_database'' (sv_query_bool S c exists_query [n] s1))"
    unfolding effect_wrap server_spec_def by metis
qed

lemma drop_sql_effect:
  assumes "server_spec S dbs" "db_name n" "dbs s1 = D"
  shows "effect dbs D (dropped n D) (sv_batch S c (drop_sql n) s1)"
  using assms unfolding drop_sql_def quoted_escape server_spec_def by metis

lemma try_drop_effect:
  assumes spec: "server_spec S dbs" and n: "db_name (td_name td)"
  shows "effect dbs (dbs s) (dropped (td_name td) (dbs s)) (try_drop S td s)"
  unfolding try_drop_def
  by (rule effect_with_client [OF spec]) (simp add: drop_sql_effect [OF spec n])

lemma effect_bind:
  assumes "dbs (snd x) = D" "\<And>a s1. dbs s1 = D \<Longrightarrow> effect dbs D Q (g a s1)"
  shows "effect dbs D Q (case x of (Inl e, s1) \<Rightarrow> (Inl e, s1) | (Inr a, s1) \<Rightarrow> g a s1)"
  using assms by (cases x; cases "fst x") (auto simp: effect_def)

lemma force_drop_effect:
  assumes spec: "server_spec S dbs" and n: "db_name (td_name td)"
  shows "effect dbs (dbs s) (dropped (td_name td) (dbs s)) (force_drop_body S td s)"
  unfolding force_drop_body_def
proof (rule effect_with_client [OF spec], rule effect_bind)
  fix c s1
  assume s1: "dbs s1 = dbs s"
  have "dbs (snd (sv_execute S c terminate_query [td_name td] s1)) = dbs s1"
    using spec unfolding server_spec_def by blast
  with s1 show "dbs (snd (wrap_db (''failed to terminate connections to database '' @ quoted (td_name td))
      (sv_execute S c terminate_query [td_name td] s1))) = dbs s" by simp
qed (simp add: drop_sql_effect [OF spec n])

section \<open>Templates and threads\<close>

text \<open>
  \<open>ensure_template_exists\<close> by several threads. The entry of \<open>TEMPLATE_LOCKS\<close> is held to the end of the function,
  and with it the write lock of its shard of the map, so that a thread enters only while no other works on
  a template of the same shard (the same template in particular; the inner mutex excludes nothing more).
  Between its calls to the server other threads may run; \<open>tp_setups\<close> records the setups that were begun.
\<close>

datatype template_stage = Outside | Entered string | Absent string | Made string

fun stage_name :: "template_stage \<Rightarrow> string option" where
  "stage_name Outside = None"
| "stage_name (Entered n) = Some n"
| "stage_name (Absent n) = Some n"
| "stage_name (Made n) = Some n"

record 's templates =
  tp_server :: 's
  tp_stage :: "nat \<Rightarrow> template_stage"
  tp_setups :: "string list"

definition move_to :: "nat \<Rightarrow> template_stage \<Rightarrow> 's \<Rightarrow> 's templates \<Rightarrow> 's templates" where
  "move_to t stage s T = T\<lparr>tp_server := s, tp_stage := (tp_stage T)(t := stage)\<rparr>"

inductive template_step ::
  "('c, 's) server \<Rightarrow> connection_metadata \<Rightarrow> (string \<Rightarrow> nat) \<Rightarrow> (string \<Rightarrow> 's \<Rightarrow> (unit, 's) db_run) \<Rightarrow>
     's templates \<Rightarrow> 's templates \<Rightarrow> bool"
  for S cm shard setup_fn where
  enter: "tp_stage T t = Outside \<Longrightarrow> db_name n \<Longrightarrow>
    (\<forall>u m. stage_name (tp_stage T u) = Some m \<longrightarrow> shard m \<noteq> shard n) \<Longrightarrow>
    template_step S cm shard setup_fn T (move_to t (Entered n) (tp_server T) T)"
| present: "tp_stage T t = Entered n \<Longrightarrow> database_exists S cm n (tp_server T) = (Inr True, s) \<Longrightarrow>
    template_step S cm shard setup_fn T (move_to t Outside s T)"
| absent: "tp_stage T t = Entered n \<Longrightarrow> database_exists S cm n (tp_server T) = (Inr False, s) \<Longrightarrow>
    template_step S cm shard setup_fn T (move_to t (Absent n) s T)"
| unknown: "tp_stage T t = Entered n \<Longrightarrow> database_exists S cm n (tp_server T) = (Inl e, s) \<Longrightarrow>
    template_step S cm shard setup_fn T (move_to t Outside s T)"
| create: "tp_stage T t = Absent n \<Longrightarrow> create_database S cm n (tp_server T) = (Inr u, s) \<Longrightarrow>
    template_step S cm shard setup_fn T (move_to t (Made n) s T)"
| create_failed: "tp_stage T t = Absent n \<Longrightarrow> create_database S cm n (tp_server T) = (Inl e, s) \<Longrightarrow>
    template_step S cm shard setup_fn T (move_to t Outside s T)"
| set_up: "tp_stage T t = Made n \<Longrightarrow> setup_fn n (tp_server T) = (r, s) \<Longrightarrow>
    template_step S cm shard setup_fn T (move_to t Outside s (T\<lparr>tp_setups := tp_setups T @ [n]\<rparr>))"

definition template_inv :: "('s \<Rightarrow> string set) \<Rightarrow> (string \<Rightarrow> nat) \<Rightarrow> 's templates \<Rightarrow> bool" where
  "template_inv dbs shard T \<longleftrightarrow>
     (\<forall>t u n m. stage_name (tp_stage T t) = Some n \<longrightarrow> stage_name (tp_stage T u) = Some m \<longrightarrow> t \<noteq> u \<longrightarrow> shard n \<noteq> shard m) \<and>
     (\<forall>t n. stage_name (tp_stage T t) = Some n \<longrightarrow> db_name n) \<and>
     (\<forall>t n. tp_stage T t = Absent n \<longrightarrow> n \<notin> dbs (tp_server T)) \<and>
     (\<forall>t n. tp_stage T t = Made n \<longrightarrow> n \<in> dbs (tp_server T) \<and> n \<notin> set (tp_setups T)) \<and>
     distinct (tp_setups T) \<and> set (tp_setups T) \<subseteq> dbs (tp_server T)"

lemma template_inv_same:
  assumes "template_inv dbs shard T" "dbs s = dbs (tp_server T)" "stage_name st = None \<or> stage_name st = stage_name (tp_stage T t)"
    and "\<And>n. st = Absent n \<Longrightarrow> n \<notin> dbs s" "\<And>n. st = Made n \<Longrightarrow> n \<in> dbs s \<and> n \<notin> set (tp_setups T)"
  shows "template_inv dbs shard (move_to t st s T)"
  using assms unfolding template_inv_def move_to_def by (auto split: if_splits)

lemma template_inv_name:
  assumes "template_inv dbs shard T"
  shows "tp_stage T t = Entered n \<Longrightarrow> db_name n" "tp_stage T t = Absent n \<Longrightarrow> db_name n"
  using assms unfolding template_inv_def by (metis stage_name.simps)+

lemma template_inv_alone:
  "template_inv dbs shard T \<Longrightarrow> stage_name (tp_stage T t) = Some n \<Longrightarrow> stage_name (tp_stage T u) = Some n \<Longrightarrow> u = t"
  unfolding template_inv_def by metis

lemma template_step_inv:
  assumes spec: "server_spec S dbs" and frame: "\<And>n s. dbs (snd (setup_fn n s)) = dbs s"
  shows "template_step S cm shard setup_fn T T' \<Longrightarrow> template_inv dbs shard T \<Longrightarrow> template_inv dbs shard T'"
proof (induction rule: template_step.induct)
  case (enter T t n)
  then show ?case unfolding template_inv_def move_to_def by (auto split: if_splits) metis+
next
  case (present T t n s)
  then have "db_name n" by (metis template_inv_name)
  with database_exists_effect [OF spec this, of "tp_server T" cm] present show ?case
    by (intro template_inv_same) (auto simp: effect_def)
next
  case (absent T t n s)
  then have "db_name n" by (metis template_inv_name)
  with database_exists_effect [OF spec this, of "tp_server T" cm] absent show ?case
    by (intro template_inv_same) (auto simp: effect_def)
next
  case (unknown T t n e s)
  then have "db_name n" by (metis template_inv_name)
  with database_exists_effect [OF spec this, of "tp_server T" cm] unknown show ?case
    by (intro template_inv_same) (auto simp: effect_def)
next
  case (create_failed T t n e s)
  then have "db_name n" by (metis template_inv_name)
  with create_database_effect [OF spec this, of "tp_server T" cm] create_failed show ?case
    by (intro template_inv_same) (auto simp: effect_def)
next
  case (create T t n u s)
  then have n: "db_name n" by (metis template_inv_name)
  with create_database_effect [OF spec this, of "tp_server T" cm] create have s: "dbs s = insert n (dbs (tp_server T))"
      "n \<notin> dbs (tp_server T)" by (auto simp: effect_def created_def)
  have others: "tp_stage T u \<noteq> Absent n" if "u \<noteq> t" for u
    using template_inv_alone [OF create.prems, of t n u] create.hyps(1) that by auto
  have shards: "shard m \<noteq> shard n" "shard n \<noteq> shard m" if "stage_name (tp_stage T u) = Some m" "u \<noteq> t" for u m
    using create.prems create.hyps(1) that unfolding template_inv_def by (metis stage_name.simps(3))+
  from create.prems create.hyps(1) s others shards n show ?case unfolding template_inv_def move_to_def
    by (auto split: if_splits)
next
  case (set_up T t n r s)
  with frame [of n "tp_server T"] have s: "dbs s = dbs (tp_server T)" by simp
  have others: "tp_stage T u \<noteq> Made n" if "u \<noteq> t" for u
    using template_inv_alone [OF set_up.prems, of t n u] set_up.hyps(1) that by auto
  from set_up.prems set_up.hyps(1) s others show ?case unfolding template_inv_def move_to_def
    by (auto split: if_splits)
qed

lemma template_run_inv:
  assumes "server_spec S dbs" "\<And>n s. dbs (snd (setup_fn n s)) = dbs s"
    and "(template_step S cm shard setup_fn)\<^sup>*\<^sup>* T T'" "template_inv dbs shard T"
  shows "template_inv dbs shard T'"
  using assms(3)
proof (induction rule: rtranclp_induct)
  case (step T1 T2)
  from template_step_inv [OF assms(1,2) step.hyps(2) step.IH] show ?case .
qed (rule assms(4))

section \<open>Refinement\<close>

text \<open>The operations, what they answer, and what they do to a set of names.\<close>

datatype db_op =
    CreateOp string
  | TemplateOp string string
  | DropOp string
  | ExistsOp string
  | TempDropOp temporary_db
  | ForceDropOp temporary_db

datatype db_answer = Failed | Done | Answer bool

fun op_names :: "db_op \<Rightarrow> string list" where
  "op_names (CreateOp n) = [n]"
| "op_names (TemplateOp n t) = [n, t]"
| "op_names (DropOp n) = [n]"
| "op_names (ExistsOp n) = [n]"
| "op_names (TempDropOp td) = [td_name td]"
| "op_names (ForceDropOp td) = [td_name td]"

fun abs_step :: "db_op \<Rightarrow> db_answer \<Rightarrow> string set \<Rightarrow> string set option" where
  "abs_step _ Failed D = Some D"
| "abs_step (CreateOp n) Done D = (if n \<in> D then None else Some (insert n D))"
| "abs_step (TemplateOp n t) Done D = (if n \<in> D \<or> t \<notin> D then None else Some (insert n D))"
| "abs_step (DropOp n) Done D = (if n \<in> D then Some (D - {n}) else None)"
| "abs_step (ExistsOp n) (Answer b) D = (if b = (n \<in> D) then Some D else None)"
| "abs_step (TempDropOp td) Done D = (if td_name td \<in> D then Some (D - {td_name td}) else None)"
| "abs_step (ForceDropOp td) Done D = (if td_name td \<in> D then Some (D - {td_name td}) else None)"
| "abs_step _ _ D = None"

definition answer_of :: "('a \<Rightarrow> db_answer) \<Rightarrow> (bootstrap_error + 'a) \<times> 's \<Rightarrow> db_answer \<times> 's" where
  "answer_of f x = (case fst x of Inl _ \<Rightarrow> Failed | Inr a \<Rightarrow> f a, snd x)"

fun run_db_op :: "('c, 's) server \<Rightarrow> connection_metadata \<Rightarrow> db_op \<Rightarrow> 's \<Rightarrow> db_answer \<times> 's" where
  "run_db_op S cm (CreateOp n) s = answer_of (\<lambda>_. Done) (create_database S cm n s)"
| "run_db_op S cm (TemplateOp n t) s = answer_of (\<lambda>_. Done) (create_database_from_template S cm n t s)"
| "run_db_op S cm (DropOp n) s = answer_of (\<lambda>_. Done) (drop_database S cm n s)"
| "run_db_op S cm (ExistsOp n) s =
     answer_of Answer (database_exists S cm n s)"
| "run_db_op S cm (TempDropOp td) s = answer_of (\<lambda>_. Done) (try_drop S td s)"
| "run_db_op S cm (ForceDropOp td) s = answer_of (\<lambda>_. Done) (force_drop_body S td s)"

fun run_db_ops :: "('c, 's) server \<Rightarrow> connection_metadata \<Rightarrow> db_op list \<Rightarrow> 's \<Rightarrow> db_answer list \<times> 's" where
  "run_db_ops S cm [] s = ([], s)"
| "run_db_ops S cm (x # xs) s =
     (case run_db_op S cm x s of (a, s1) \<Rightarrow> (case run_db_ops S cm xs s1 of (as, s2) \<Rightarrow> (a # as, s2)))"

fun abs_run :: "(db_op \<times> db_answer) list \<Rightarrow> string set \<Rightarrow> string set option" where
  "abs_run [] D = Some D"
| "abs_run ((x, a) # xs) D = (case abs_step x a D of None \<Rightarrow> None | Some D' \<Rightarrow> abs_run xs D')"

lemma answer_of_effect:
  assumes "effect dbs D Q x" "answer_of f x = (a, s')"
  shows "a = Failed \<and> dbs s' = D \<or> (\<exists>b. a = f b \<and> Q b (dbs s'))"
  using assms by (cases x) (auto simp: effect_def answer_of_def split: sum.splits)

lemma run_db_op_refines:
  assumes spec: "server_spec S dbs" and valid: "list_all db_name (op_names x)" and run: "run_db_op S cm x s = (a, s')"
  shows "abs_step x a (dbs s) = Some (dbs s')"
proof (cases x)
  case (CreateOp n)
  with valid run answer_of_effect [OF create_database_effect [OF spec, of n s cm]] show ?thesis
    by (fastforce simp: created_def)
next
  case (TemplateOp n t)
  with valid run answer_of_effect [OF from_template_effect [OF spec, of n t s cm]] show ?thesis
    by (fastforce simp: created_def)
next
  case (DropOp n)
  with valid run answer_of_effect [OF drop_database_effect [OF spec, of n s cm]] show ?thesis
    by (fastforce simp: dropped_def)
next
  case (ExistsOp n)
  with valid run answer_of_effect [OF database_exists_effect [OF spec, of n s cm]] show ?thesis by fastforce
next
  case (TempDropOp td)
  with valid run answer_of_effect [OF try_drop_effect [OF spec, of td s]] show ?thesis
    by (fastforce simp: dropped_def)
next
  case (ForceDropOp td)
  with valid run answer_of_effect [OF force_drop_effect [OF spec, of td s]] show ?thesis
    by (fastforce simp: dropped_def)
qed

text \<open>
  C3. The database operations refine a set of names. For any server that treats the statements as PostgreSQL
  documents them, any sequence of operations over valid names, whatever characters they hold, answers as the
  operations on the set of databases would (a creation succeeds only for a new name, a clone only of an existing
  template, a drop only of an existing database, an existence test tells the truth), fails without effect
  otherwise, and leaves the set those operations leave.
\<close>

theorem databases_refine_set:
  assumes spec: "server_spec S dbs" and valid: "list_all (\<lambda>x. list_all db_name (op_names x)) ops"
    and run: "run_db_ops S cm ops s = (answers, s')"
  shows "abs_run (zip ops answers) (dbs s) = Some (dbs s')"
  using valid run
proof (induction ops arbitrary: s answers)
  case (Cons x xs)
  obtain a s1 as where r: "run_db_op S cm x s = (a, s1)" "run_db_ops S cm xs s1 = (as, s')" "answers = a # as"
    using Cons.prems(2) by (cases "run_db_op S cm x s"; cases "run_db_ops S cm xs (snd (run_db_op S cm x s))") auto
  have "list_all db_name (op_names x)" "list_all (\<lambda>x. list_all db_name (op_names x)) xs" using Cons.prems(1) by simp_all
  with run_db_op_refines [OF spec _ r(1)] Cons.IH [of s1 as] r(2,3) show ?case by simp
qed simp



text \<open>
  C36. A setup that fails leaves a template that later calls take for finished. The call that failed reports the
  error, but the database stays; from then on \<open>ensure_template_exists\<close> succeeds without running any setup, for as
  long as it can reach the server.
\<close>

theorem failed_setup_leaves_template:
  assumes spec: "server_spec S dbs" and n: "db_name n"
    and first: "database_exists S cm n s = (Inr False, s1)" "create_database S cm n s1 = (Inr (), s2)"
      "setup_fn n s2 = (Inl e, s3)" "dbs s3 = dbs s2"
    and reachable: "database_exists S cm n s3 = (Inr b, s4)"
  shows "ensure_template_exists S cm n setup_fn s = (Inl e, s3) \<and>
    ensure_template_exists S cm n other_setup s3 = (Inr (), s4)"
proof -
  have "n \<in> dbs s3" using create_database_effect [OF spec n, of s1 cm] first by (simp add: effect_def created_def)
  with database_exists_effect [OF spec n, of s3 cm] reachable have b by (simp add: effect_def)
  with first reachable show ?thesis by (simp add: ensure_template_exists_def)
qed

text \<open>
  An explicit drop drops twice. \<open>drop_database\<close> and \<open>force_drop\<close> consume the guard of a temporary database,
  whose \<open>Drop\<close> then sends the statement again. If another client has created a database of that name in
  between, the second statement removes it as well, and the result is that of the first.
\<close>

theorem explicit_drop_drops_twice:
  assumes spec: "server_spec S dbs" and n: "db_name (td_name td)"
    and first: "try_drop S td s = (r, s1)" and other: "td_name td \<in> dbs (other s1)"
    and second: "fst (try_drop S td (other s1)) = Inr ()"
  shows "fst (temp_drop_database S td other s) = r \<and>
    dbs (snd (temp_drop_database S td other s)) = dbs (other s1) - {td_name td} \<and>
    (force_drop_body S td s = (r, s1) \<longrightarrow> dbs (snd (force_drop S td other s)) = dbs (other s1) - {td_name td})"
proof -
  have "dbs (snd (try_drop S td (other s1))) = dbs (other s1) - {td_name td}"
    using try_drop_effect [OF spec n, of "other s1"] second
    by (cases "try_drop S td (other s1)") (simp add: effect_def dropped_def)
  then show ?thesis using first by (simp add: temp_drop_database_def force_drop_def drop_temporary_def)
qed

section \<open>Examples\<close>

text \<open>A server that is a list of names and reads the statements it is sent.\<close>

definition create_named :: "string \<Rightarrow> bool \<Rightarrow> string list \<Rightarrow> (string + unit) \<times> string list" where
  "create_named n ok D = (if n \<in> set D \<or> \<not> ok then (Inl ''error'', D) else (Inr (), n # D))"

definition demo_batch :: "unit \<Rightarrow> string \<Rightarrow> string list \<Rightarrow> (string + unit) \<times> string list" where
  "demo_batch _ sql D =
     (if prefix ''DROP DATABASE '' sql then
        (case lex_ident (drop 14 sql) of
           Some (n, []) \<Rightarrow> if n \<in> set D then (Inr (), removeAll n D) else (Inl ''no such database'', D)
         | _ \<Rightarrow> (Inl ''syntax error'', D))
      else if prefix ''CREATE DATABASE '' sql then
        (case lex_ident (drop 16 sql) of
           Some (n, []) \<Rightarrow> create_named n True D
         | Some (n, rest) \<Rightarrow>
             (case lex_ident (drop 10 rest) of
                Some (t, []) \<Rightarrow> create_named n (t \<in> set D \<and> prefix '' TEMPLATE '' rest) D
              | _ \<Rightarrow> (Inl ''syntax error'', D))
         | None \<Rightarrow> (Inl ''syntax error'', D))
      else (Inl ''syntax error'', D))"

definition demo_server :: "(unit, string list) server" where
  "demo_server =
     \<lparr>sv_url = (\<lambda>_ db. ''postgresql://localhost/'' @ db), sv_connect = (\<lambda>_ D. (Inr (), D)), sv_batch = demo_batch,
      sv_query_bool = (\<lambda>_ _ args D. (Inr (hd args \<in> set D), D)), sv_execute = (\<lambda>_ _ _ D. (Inr 0, D)), sv_close = (\<lambda>_ D. D)\<rparr>"

lemma demo_calls:
  "sv_connect demo_server = (\<lambda>_ D. (Inr (), D))" "sv_batch demo_server = demo_batch"
  "sv_query_bool demo_server = (\<lambda>_ _ args D. (Inr (hd args \<in> set D), D))"
  "sv_execute demo_server = (\<lambda>_ _ _ D. (Inr 0, D))" "sv_close demo_server = (\<lambda>_ D. D)"
  by (simp_all add: demo_server_def)

lemma demo_create: "demo_batch c (''CREATE DATABASE '' @ quote_ident n) D = create_named n True D"
  using lex_quoted [of "[]" n] by (simp add: demo_batch_def)

lemma demo_template:
  "demo_batch c (''CREATE DATABASE '' @ quote_ident n @ '' TEMPLATE '' @ quote_ident t) D = create_named n (t \<in> set D) D"
proof -
  have "lex_ident (quote_ident n @ '' TEMPLATE '' @ quote_ident t) = Some (n, '' TEMPLATE '' @ quote_ident t)"
    by (rule lex_quoted) (simp add: dquote_def)
  then show ?thesis using lex_quoted [of "[]" t] by (simp add: demo_batch_def)
qed

lemma demo_drop: "demo_batch c (''DROP DATABASE '' @ quote_ident n) D =
    (if n \<in> set D then (Inr (), removeAll n D) else (Inl ''no such database'', D))"
  using lex_quoted [of "[]" n] by (simp add: demo_batch_def)

lemma demo_server_spec: "server_spec demo_server set"
  unfolding server_spec_def demo_calls demo_create demo_template demo_drop
  by (auto simp: create_named_def effect_def created_def dropped_def)

definition demo_cm :: connection_metadata where
  "demo_cm = from_settings pid_bootstrap"

definition odd_name :: string where
  "odd_name = ''a'' @ dquote # ''; DROP DATABASE x; --''"

lemma odd_name_valid: "db_name odd_name"
  by (simp add: db_name_def odd_name_def dquote_def)

lemma demo_ops:
  "create_database demo_server demo_cm n D = wrap_db (''failed to create database '' @ quoted n) (create_named n True D)"
  "database_exists demo_server demo_cm n D = (Inr (n \<in> set D), D)"
  "try_drop demo_server td D = wrap_db (''failed to drop database '' @ quoted (td_name td))
     (if td_name td \<in> set D then (Inr (), removeAll (td_name td) D) else (Inl ''no such database'', D))"
  unfolding create_database_def execute_ddl_command_def create_statement Let_def admin_client_def connect_admin_def with_client_def
    demo_calls database_exists_def try_drop_def drop_sql_def
  unfolding demo_create quoted_escape demo_drop
  by (simp_all add: wrap_db_def map_err_def create_named_def)

theorem databases_refine_set_witness:
  "\<exists>answers D. run_db_ops demo_server demo_cm [CreateOp odd_name, ExistsOp odd_name, CreateOp odd_name] [''postgres''] = (answers, D) \<and>
     answers = [Done, Answer True, Failed] \<and>
     abs_run (zip [CreateOp odd_name, ExistsOp odd_name, CreateOp odd_name] answers) (set [''postgres'']) = Some (set D)"
proof -
  let ?ops = "[CreateOp odd_name, ExistsOp odd_name, CreateOp odd_name]"
  have "odd_name \<notin> set [''postgres'']" by (simp add: odd_name_def)
  then have run: "run_db_ops demo_server demo_cm ?ops [''postgres''] = ([Done, Answer True, Failed], [odd_name, ''postgres''])"
    by (simp add: answer_of_def demo_ops create_named_def wrap_db_def map_err_def)
  have "list_all (\<lambda>x. list_all db_name (op_names x)) ?ops" using odd_name_valid by simp
  from databases_refine_set [OF demo_server_spec this run] run show ?thesis by blast
qed


theorem failed_setup_leaves_template_witness:
  "ensure_template_exists demo_server demo_cm ''t'' (\<lambda>_ D. (Inl (bootstrap_msg ''setup''), D)) [] = (Inl (bootstrap_msg ''setup''), [''t'']) \<and>
   ensure_template_exists demo_server demo_cm ''t'' (\<lambda>_ D. (Inr (), D)) [''t''] = (Inr (), [''t''])"
proof -
  have "db_name ''t''" by (simp add: db_name_def)
  moreover have "database_exists demo_server demo_cm ''t'' [] = (Inr False, [])"
    "create_database demo_server demo_cm ''t'' [] = (Inr (), [''t''])"
    "database_exists demo_server demo_cm ''t'' [''t''] = (Inr True, [''t''])"
    by (simp_all add: demo_ops create_named_def wrap_db_def map_err_def)
  ultimately show ?thesis
    using failed_setup_leaves_template [OF demo_server_spec, of "''t''" demo_cm "[]" "[]" "[''t'']" "\<lambda>_ D. (Inl (bootstrap_msg ''setup''), D)"]
    by simp
qed

definition demo_temp :: temporary_db where
  "demo_temp = \<lparr>td_name = ''t'', td_admin_url = ''postgresql://localhost/postgres'', td_database_url = ''postgresql://localhost/t''\<rparr>"

theorem explicit_drop_drops_twice_witness:
  "fst (temp_drop_database demo_server demo_temp (\<lambda>D. ''t'' # D) [''t'', ''u'']) = Inr () \<and>
   set (snd (temp_drop_database demo_server demo_temp (\<lambda>D. ''t'' # D) [''t'', ''u''])) = {''u''}"
proof -
  have valid: "db_name (td_name demo_temp)" by (simp add: demo_temp_def db_name_def)
  have first: "try_drop demo_server demo_temp [''t'', ''u''] = (Inr (), [''u''])"
    by (simp add: demo_ops demo_temp_def wrap_db_def map_err_def)
  have other: "td_name demo_temp \<in> set (''t'' # [''u''])" by (simp add: demo_temp_def)
  have second: "fst (try_drop demo_server demo_temp (''t'' # [''u''])) = Inr ()"
    by (simp add: demo_ops demo_temp_def wrap_db_def map_err_def)
  from explicit_drop_drops_twice [where other = "\<lambda>D. ''t'' # D", OF demo_server_spec valid first other second]
  show ?thesis by (simp add: demo_temp_def)
qed

end
