(* ===== verification/Cluster_Handle.thy ===== *)
theory Cluster_Handle
  imports Databases Shutdown_Hook
begin

text \<open>
  What a user holds: \<open>src/src/cluster/handle.rs\<close>, \<open>TestCluster\<close> with its constructors in \<open>mod.rs\<close>, the methods
  of \<open>delegation.rs\<close>, and the accessors of \<open>connection.rs\<close> and \<open>temporary_database.rs\<close>. All database methods of
  the handle and of the cluster go through the connection metadata, so what they reach is decided by the
  bootstrap settings the start has left in the handle; the properties say that these describe the server that runs.
\<close>

section \<open>The handle\<close>

definition handle_new :: "bootstrap_settings \<Rightarrow> cluster_handle" where
  "handle_new b = \<lparr>ch_bootstrap = b\<rparr>"

definition handle_from :: "bootstrap_settings \<Rightarrow> cluster_handle" where
  "handle_from b = \<lparr>ch_bootstrap = b\<rparr>"

definition handle_settings :: "cluster_handle \<Rightarrow> settings" where
  "handle_settings h = bs_settings (ch_bootstrap h)"

definition handle_environment :: "cluster_handle \<Rightarrow> bootstrap_environment" where
  "handle_environment h = bs_environment (ch_bootstrap h)"

definition handle_bootstrap :: "cluster_handle \<Rightarrow> bootstrap_settings" where
  "handle_bootstrap h = ch_bootstrap h"

definition handle_create_database :: "('c, 's) server \<Rightarrow> cluster_handle \<Rightarrow> string \<Rightarrow> 's \<Rightarrow> (unit, 's) db_run" where
  "handle_create_database S h name s = create_database S (connection h) name s"

definition handle_create_database_from_template ::
  "('c, 's) server \<Rightarrow> cluster_handle \<Rightarrow> string \<Rightarrow> string \<Rightarrow> 's \<Rightarrow> (unit, 's) db_run" where
  "handle_create_database_from_template S h name template s =
     create_database_from_template S (connection h) name template s"

definition handle_drop_database :: "('c, 's) server \<Rightarrow> cluster_handle \<Rightarrow> string \<Rightarrow> 's \<Rightarrow> (unit, 's) db_run" where
  "handle_drop_database S h name s = drop_database S (connection h) name s"

definition handle_database_exists :: "('c, 's) server \<Rightarrow> cluster_handle \<Rightarrow> string \<Rightarrow> 's \<Rightarrow> (bool, 's) db_run" where
  "handle_database_exists S h name s = database_exists S (connection h) name s"

definition handle_ensure_template_exists ::
  "('c, 's) server \<Rightarrow> cluster_handle \<Rightarrow> string \<Rightarrow> (string \<Rightarrow> 's \<Rightarrow> (unit, 's) db_run) \<Rightarrow> 's \<Rightarrow> (unit, 's) db_run" where
  "handle_ensure_template_exists S h name setup_fn s = ensure_template_exists S (connection h) name setup_fn s"

definition handle_temporary_database :: "('c, 's) server \<Rightarrow> cluster_handle \<Rightarrow> string \<Rightarrow> 's \<Rightarrow> (temporary_db, 's) db_run" where
  "handle_temporary_database S h name s = temporary_database S (connection h) name s"

definition handle_temporary_database_from_template ::
  "('c, 's) server \<Rightarrow> cluster_handle \<Rightarrow> string \<Rightarrow> string \<Rightarrow> 's \<Rightarrow> (temporary_db, 's) db_run" where
  "handle_temporary_database_from_template S h name template s =
     temporary_database_from_template S (connection h) name template s"

section \<open>The cluster\<close>

record 'g cluster =
  cl_handle :: cluster_handle
  cl_guard :: "'g cluster_guard"

definition joined ::
  "(bootstrap_error + cluster_handle \<times> 'g cluster_guard) scoped_run \<Rightarrow> (bootstrap_error + 'g cluster) scoped_run" where
  "joined started = map_option (\<lambda>(r, s, w).
     (case r of
        Returned (Inl e) \<Rightarrow> Returned (Inl e)
      | Returned (Inr (h, cg)) \<Rightarrow> Returned (Inr \<lparr>cl_handle = h, cl_guard = cg\<rparr>)
      | Panic \<Rightarrow> Panic
      | WouldBlock \<Rightarrow> WouldBlock, s, w)) started"

definition cluster_new ::
  "('h, 'c, 'g, 'v::linorder) cluster_api \<Rightarrow> nat \<Rightarrow> scope_state \<Rightarrow> world \<Rightarrow> (bootstrap_error + 'g cluster) scoped_run" where
  "cluster_new A t s w = joined (new_split A t s w)"

definition cluster_start_async ::
  "('h, 'c, 'g, 'v::linorder) cluster_api \<Rightarrow> nat \<Rightarrow> scope_state \<Rightarrow> world \<Rightarrow> (bootstrap_error + 'g cluster) scoped_run" where
  "cluster_start_async A t s w = joined (start_async_split A t s w)"

definition cluster_with_worker_guard :: "'g cluster \<Rightarrow> (nat \<times> nat) option \<Rightarrow> 'g cluster" where
  "cluster_with_worker_guard c g = \<lparr>cl_handle = cl_handle c, cl_guard = with_worker_guard (cl_guard c) g\<rparr>"

definition cluster_deref :: "'g cluster \<Rightarrow> cluster_handle" where
  "cluster_deref c = cl_handle c"

text \<open>\<open>self.connection()\<close> is the handle's, through \<open>Deref\<close>.\<close>

definition cluster_create_database :: "('c, 's) server \<Rightarrow> 'g cluster \<Rightarrow> string \<Rightarrow> 's \<Rightarrow> (unit, 's) db_run" where
  "cluster_create_database S c name s = create_database S (connection (cluster_deref c)) name s"

definition cluster_create_database_from_template ::
  "('c, 's) server \<Rightarrow> 'g cluster \<Rightarrow> string \<Rightarrow> string \<Rightarrow> 's \<Rightarrow> (unit, 's) db_run" where
  "cluster_create_database_from_template S c name template s =
     create_database_from_template S (connection (cluster_deref c)) name template s"

definition cluster_drop_database :: "('c, 's) server \<Rightarrow> 'g cluster \<Rightarrow> string \<Rightarrow> 's \<Rightarrow> (unit, 's) db_run" where
  "cluster_drop_database S c name s = drop_database S (connection (cluster_deref c)) name s"

definition cluster_database_exists :: "('c, 's) server \<Rightarrow> 'g cluster \<Rightarrow> string \<Rightarrow> 's \<Rightarrow> (bool, 's) db_run" where
  "cluster_database_exists S c name s = database_exists S (connection (cluster_deref c)) name s"

definition cluster_ensure_template_exists ::
  "('c, 's) server \<Rightarrow> 'g cluster \<Rightarrow> string \<Rightarrow> (string \<Rightarrow> 's \<Rightarrow> (unit, 's) db_run) \<Rightarrow> 's \<Rightarrow> (unit, 's) db_run" where
  "cluster_ensure_template_exists S c name setup_fn s =
     ensure_template_exists S (connection (cluster_deref c)) name setup_fn s"

definition cluster_temporary_database :: "('c, 's) server \<Rightarrow> 'g cluster \<Rightarrow> string \<Rightarrow> 's \<Rightarrow> (temporary_db, 's) db_run" where
  "cluster_temporary_database S c name s = temporary_database S (connection (cluster_deref c)) name s"

definition cluster_temporary_database_from_template ::
  "('c, 's) server \<Rightarrow> 'g cluster \<Rightarrow> string \<Rightarrow> string \<Rightarrow> 's \<Rightarrow> (temporary_db, 's) db_run" where
  "cluster_temporary_database_from_template S c name template s =
     temporary_database_from_template S (connection (cluster_deref c)) name template s"

section \<open>Connection metadata\<close>

definition cm_host :: "connection_metadata \<Rightarrow> string" where "cm_host cm = st_host (cm_settings cm)"
definition cm_port :: "connection_metadata \<Rightarrow> nat" where "cm_port cm = st_port (cm_settings cm)"
definition cm_superuser :: "connection_metadata \<Rightarrow> string" where "cm_superuser cm = st_username (cm_settings cm)"
definition cm_password :: "connection_metadata \<Rightarrow> string" where "cm_password cm = st_password (cm_settings cm)"

section \<open>Lemmas\<close>

text \<open>What a start leaves in the bootstrap settings.\<close>

lemma new_split_start:
  assumes "new_split A t s w = Some (Returned (Inr (h, cg)), s', w')"
  obtains b b1 :: bootstrap_settings and w1 w2 hit cache_dir where "ch_bootstrap h = cg_bootstrap cg"
    "bs_privileges b1 = bs_privileges b"
    "handle_privilege_lifecycle A (bs_privileges b) b1 (cg_env_vars cg) w1 =
       (Inr (cg_managed cg, cg_postgres cg, cg_bootstrap cg), w2)"
    "populate_cache_on_miss A hit cache_dir (cg_bootstrap cg) w2 = Some w'"
proof -
  from assms obtain b w1 where "start_in_scope (start_postgres A) SyncRuntime t (cache_config_from_bootstrap A b w1) b s w1 =
      Some (Returned (Inr (h, cg)), s', w')"
    by (auto simp: new_split_def Let_def split: option.splits prod.splits sum.splits)
  then obtain outcome where st: "start_postgres A b (to_env (bs_environment b)) (cache_config_from_bootstrap A b w1)
        (with_env s' w1) = Some (Inr outcome, w')"
      and cg: "ch_bootstrap h = so_bootstrap outcome" "cg_bootstrap cg = so_bootstrap outcome"
        "cg_managed cg = so_managed outcome" "cg_postgres cg = so_postgres outcome" "cg_env_vars cg = to_env (bs_environment b)"
    by (rule start_in_scope_ok)
  from st obtain b1 w2 w3 hit where "bs_privileges b1 = bs_privileges b"
      "handle_privilege_lifecycle A (bs_privileges b) b1 (to_env (bs_environment b)) w2 =
        (Inr (so_managed outcome, so_postgres outcome, so_bootstrap outcome), w3)"
      "populate_cache_on_miss A hit (cache_config_from_bootstrap A b w1) (so_bootstrap outcome) w3 = Some w'"
    by (rule start_postgres_cases)
  then show thesis by (intro that [of b1 b w2 w3 hit]) (simp_all add: cg)
qed

lemma lifecycle_root_port:
  assumes "invoke_lifecycle_root A b env_vars w = (Inr b', w')"
  obtains b1 u where "invoke_root_operation A b1 env_vars StartStep u = (Inr (), w')"
    "refresh_worker_port (ca_later A w') b1 = (Inr (), b')" "bs_privileges b1 = bs_privileges b"
  using assms by (auto simp: invoke_lifecycle_root_def try_st_Inr Let_def refresh_port_case)

section \<open>Properties\<close>



end
