(* ===== verification/Nested_Runtime.thy ===== *)
theory Nested_Runtime
  imports Cluster_Stop
begin

text \<open>
  The synchronous cluster when a Tokio runtime is already active on the calling thread: the helper threads of
  \<open>src/src/cluster/worker_invoker/mod.rs\<close> and \<open>runtime.rs\<close>, the panic messages of \<open>panic_utils.rs\<close>, and what
  the runtime that \<open>new_split\<close> creates and the guard owns does to the way out of \<open>mod.rs\<close>, \<open>startup.rs\<close>,
  \<open>shutdown.rs\<close> and \<open>guard.rs\<close>. Here a panic of the server library unwinds, with every drop on its way.
\<close>

section \<open>Panics\<close>

text \<open>The payload of a panic, as far as a \<open>downcast\<close> can tell.\<close>

datatype panic_payload = StringPayload string | StrPayload string | OtherPayload

fun panic_payload_to_string :: "panic_payload \<Rightarrow> string" where
  "panic_payload_to_string (StringPayload message) = message"
| "panic_payload_to_string (StrPayload message) = message"
| "panic_payload_to_string OtherPayload = ''unknown panic payload''"

definition nested_runtime_thread_panic :: "string \<Rightarrow> string \<Rightarrow> panic_payload \<Rightarrow> bootstrap_error" where
  "nested_runtime_thread_panic ctx oper payload =
     bootstrap_msg (ctx @ '': helper thread panicked while running '' @ oper @ '': '' @ panic_payload_to_string payload)"

text \<open>A computation that unwinds with a payload or ends with a value; a thread that is joined turns the one
  into an error.\<close>

type_synonym 'a unwound = "panic_payload + 'a"

definition join_thread :: "string \<Rightarrow> string \<Rightarrow> 'a unwound \<Rightarrow> bootstrap_error + 'a" where
  "join_thread ctx oper r = map_err (nested_runtime_thread_panic ctx oper) r"

section \<open>Tokio\<close>

text \<open>
  \<open>'x\<close> is what a thread knows of Tokio. \<open>rt_current\<close>: \<open>Handle::try_current\<close> succeeds. \<open>rt_block_on\<close> and \<open>rt_drop\<close>:
  the payload with which \<open>Runtime::block_on\<close>, before it polls, and the drop of a \<open>Runtime\<close> panic there.
  \<open>rt_spawned\<close>: a thread that has just been spawned. \<open>rt_future\<close>: the library panics while a future is polled,
  leaving its server and the world like that; \<open>None\<close> if it ends as \<open>ca_timeout\<close> says.
\<close>

record ('x, 'g) runtime_api =
  rt_current :: "'x \<Rightarrow> bool"
  rt_block_on :: "'x \<Rightarrow> panic_payload option"
  rt_drop :: "'x \<Rightarrow> panic_payload option"
  rt_spawned :: 'x
  rt_future :: "duration \<Rightarrow> 'g future \<Rightarrow> 'g option \<Rightarrow> world \<Rightarrow> (panic_payload \<times> 'g option \<times> world) option"

text \<open>As documented: without a runtime neither call panics, in an asynchronous task both do, and a new
  thread has no runtime.\<close>

definition tokio_spec :: "('x, 'g) runtime_api \<Rightarrow> bool" where
  "tokio_spec T \<longleftrightarrow> \<not> rt_current T (rt_spawned T) \<and>
     (\<forall>x. (\<not> rt_current T x \<longrightarrow> rt_block_on T x = None) \<and> (rt_block_on T x = None \<longleftrightarrow> rt_drop T x = None))"

definition library_never_panics :: "('x, 'g) runtime_api \<Rightarrow> bool" where
  "library_never_panics T \<longleftrightarrow> (\<forall>d f s w. rt_future T d f s w = None)"

text \<open>The drop of a runtime at the end of a scope; while the thread unwinds it does not panic again.\<close>

definition drop_runtime :: "('x, 'g) runtime_api \<Rightarrow> 'x \<Rightarrow> 'a unwound \<Rightarrow> 'a unwound" where
  "drop_runtime T x r =
     (case r of Inl p \<Rightarrow> Inl p | Inr v \<Rightarrow> (case rt_drop T x of None \<Rightarrow> Inr v | Some p \<Rightarrow> Inl p))"

text \<open>\<open>runtime.block_on(run_with_timeout(timeout, future))\<close>.\<close>

definition block_on_timeout ::
  "('x, 'g) runtime_api \<Rightarrow> ('h, 'c, 'g, 'v) cluster_api \<Rightarrow> 'x \<Rightarrow> duration \<Rightarrow> 'g future \<Rightarrow> 'g option \<Rightarrow> world \<Rightarrow>
     (pg_error + unit) option unwound \<times> 'g option \<times> world" where
  "block_on_timeout T A x timeout future s w =
     (case rt_block_on T x of
        Some p \<Rightarrow> (Inl p, s, w)
      | None \<Rightarrow>
          (case rt_future T timeout future s w of
             Some (p, s', w') \<Rightarrow> (Inl p, s', w')
           | None \<Rightarrow> (case run_with_timeout A timeout future s w of (r, s', w') \<Rightarrow> (Inr r, s', w'))))"

section \<open>Invoking an operation\<close>

definition run_unprivileged_in_scoped_thread ::
  "('x, 'g) runtime_api \<Rightarrow> ('h, 'c, 'g, 'v) cluster_api \<Rightarrow> 'g future \<Rightarrow> string \<Rightarrow> duration \<Rightarrow> 'g option \<Rightarrow> world \<Rightarrow>
     (bootstrap_error + (pg_error + unit) option) \<times> 'g option \<times> world" where
  "run_unprivileged_in_scoped_thread T A future ctx timeout s w =
     (case block_on_timeout T A (rt_spawned T) timeout future s w of
        (r, s', w') \<Rightarrow> (join_thread ctx ''nested-runtime operation'' r, s', w'))"

type_synonym 'g nested_invoked = "(bootstrap_error + unit) unwound \<times> 'g option \<times> world"

definition operation_result ::
  "('h, 'c, 'g, 'v) cluster_api \<Rightarrow> string \<Rightarrow> duration \<Rightarrow> (pg_error + unit) option \<Rightarrow> bootstrap_error + unit" where
  "operation_result A ctx timeout r =
     (case r of
        None \<Rightarrow> Inl (timeout_error A ctx timeout)
      | Some (Inl e) \<Rightarrow> Inl (bootstrap_from_report (Ctx ctx (Msg (ca_show_pg A e))))
      | Some (Inr _) \<Rightarrow> Inr ())"

definition invoke_unprivileged_in ::
  "('x, 'g) runtime_api \<Rightarrow> ('h, 'c, 'g, 'v) cluster_api \<Rightarrow> 'x \<Rightarrow> 'g future \<Rightarrow> string \<Rightarrow> duration \<Rightarrow> 'g option \<Rightarrow> world \<Rightarrow>
     'g nested_invoked" where
  "invoke_unprivileged_in T A x future ctx timeout s w =
     (if rt_current T x then
        (case run_unprivileged_in_scoped_thread T A future ctx timeout s w of
           (Inl e, s', w') \<Rightarrow> (Inr (Inl e), s', w')
         | (Inr result, s', w') \<Rightarrow> (Inr (operation_result A ctx timeout result), s', w'))
      else
        (case block_on_timeout T A x timeout future s w of
           (Inl p, s', w') \<Rightarrow> (Inl p, s', w')
         | (Inr result, s', w') \<Rightarrow> (Inr (operation_result A ctx timeout result), s', w')))"

definition invoke_in ::
  "('x, 'g) runtime_api \<Rightarrow> ('h, 'c, 'g, 'v) cluster_api \<Rightarrow> 'x \<Rightarrow> bootstrap_settings \<Rightarrow> env_vars \<Rightarrow> worker_operation \<Rightarrow>
     'g future \<Rightarrow> 'g option \<Rightarrow> world \<Rightarrow> 'g nested_invoked" where
  "invoke_in T A x b env_vars oper future s w =
     (case bs_privileges b of
        Unprivileged \<Rightarrow> invoke_unprivileged_in T A x future (op_error_context oper) (op_timeout oper b) s w
      | Root \<Rightarrow> (case invoke_as_root A b env_vars oper w of (r, w') \<Rightarrow> (Inr r, s, w')))"

section \<open>The lifecycle\<close>

definition unprivileged_operation_in ::
  "('x, 'g) runtime_api \<Rightarrow> ('h, 'c, 'g, 'v) cluster_api \<Rightarrow> 'x \<Rightarrow> bootstrap_settings \<Rightarrow> env_vars \<Rightarrow> lifecycle_step \<Rightarrow>
     'g option \<Rightarrow> world \<Rightarrow> 'g nested_invoked" where
  "unprivileged_operation_in T A x b env_vars step s w =
     (case step of
        SetupStep \<Rightarrow> invoke_in T A x b env_vars OpSetup (server_call (pg_setup (ca_pg A))) s w
      | StartStep \<Rightarrow> invoke_in T A x b env_vars OpStart (server_call (pg_start (ca_pg A))) s w)"

definition invoke_lifecycle_in ::
  "('x, 'g) runtime_api \<Rightarrow> ('h, 'c, 'g, 'v::linorder) cluster_api \<Rightarrow> 'x \<Rightarrow> bootstrap_settings \<Rightarrow> env_vars \<Rightarrow>
     'g option \<Rightarrow> world \<Rightarrow> (bootstrap_error + bootstrap_settings) unwound \<times> 'g option \<times> world" where
  "invoke_lifecycle_in T A x b env_vars s w =
     (case unprivileged_operation_in T A x b env_vars SetupStep s w of
        (Inl p, s1, w1) \<Rightarrow> (Inl p, s1, w1)
      | (Inr (Inl e), s1, w1) \<Rightarrow> (Inr (Inl e), s1, w1)
      | (Inr (Inr _), s1, w1) \<Rightarrow>
          let b1 = refresh_worker_installation_dir (ca_versions A) b w1 in
          (case unprivileged_operation_in T A x b1 env_vars StartStep s1 w1 of
             (Inl p, s2, w2) \<Rightarrow> (Inl p, s2, w2)
           | (Inr (Inl e), s2, w2) \<Rightarrow> (Inr (Inl e), s2, w2)
           | (Inr (Inr _), s2, w2) \<Rightarrow>
               (case refresh_worker_port (ca_later A w2) b1 of
                  (Inl e, _) \<Rightarrow> (Inr (Inl e), s2, w2)
                | (Inr _, b2) \<Rightarrow> (Inr (Inr b2), s2, w2))))"

type_synonym 'a unwound_run = "(bootstrap_error + 'a) unwound \<times> world"

definition handle_privilege_lifecycle_in ::
  "('x, 'g) runtime_api \<Rightarrow> ('h, 'c, 'g, 'v::linorder) cluster_api \<Rightarrow> 'x \<Rightarrow> execution_privileges \<Rightarrow> bootstrap_settings \<Rightarrow>
     env_vars \<Rightarrow> world \<Rightarrow> (bool \<times> 'g option \<times> bootstrap_settings) unwound_run" where
  "handle_privilege_lifecycle_in T A x privileges b env_vars w =
     (if privileges = Root then
        (case invoke_lifecycle_root A b env_vars w of
           (Inl e, w') \<Rightarrow> (Inr (Inl e), w')
         | (Inr b', w') \<Rightarrow> (Inr (Inr (True, None, b')), w'))
      else
        (case invoke_lifecycle_in T A x b env_vars (Some (pg_new (ca_pg A) (bs_settings b))) w of
           (Inl p, s, w') \<Rightarrow> (Inl p, drop_server (ca_pg A) s w')
         | (Inr (Inl e), s, w') \<Rightarrow> (Inr (Inl e), drop_server (ca_pg A) s w')
         | (Inr (Inr b'), s, w') \<Rightarrow>
             (case prepare_postgres_handle (ca_pg A) False b' s of
                (postgres, b'') \<Rightarrow> (Inr (Inr (False, postgres, b'')), w'))))"

definition start_postgres_in ::
  "('x, 'g) runtime_api \<Rightarrow> ('h, 'c, 'g, 'v::linorder) cluster_api \<Rightarrow> 'x \<Rightarrow> bootstrap_settings \<Rightarrow> env_vars \<Rightarrow> pathbuf \<Rightarrow>
     world \<Rightarrow> 'g startup_outcome unwound_run option" where
  "start_postgres_in T A x b env_vars cache_dir w =
     (let privileges = bs_privileges b; version_req = st_version (bs_settings b) in
      case try_use_binary_cache (ca_versions A) (ca_flock_shared A) cache_dir version_req b w of
        None \<Rightarrow> None
      | Some ((cache_hit, b1), w1) \<Rightarrow>
          (case handle_privilege_lifecycle_in T A x privileges b1 env_vars w1 of
             (Inl p, w2) \<Rightarrow> Some (Inl p, w2)
           | (Inr (Inl e), w2) \<Rightarrow> Some (Inr (Inl e), w2)
           | (Inr (Inr (is_managed_via_worker, postgres, b2)), w2) \<Rightarrow>
               map_option (\<lambda>w3. (Inr (Inr \<lparr>so_bootstrap = b2, so_postgres = postgres,
                   so_managed = is_managed_via_worker\<rparr>), w3))
                 (populate_cache_on_miss A cache_hit cache_dir b2 w2)))"

section \<open>The cluster\<close>

text \<open>Leaving a scope with its guard, on either way.\<close>

definition leave_unwound ::
  "nat \<Rightarrow> nat \<times> nat \<Rightarrow> 'a unwound \<Rightarrow> scope_state \<Rightarrow> world \<Rightarrow> 'a ctl \<times> scope_state \<times> world" where
  "leave_unwound t guard r s w =
     (case drop_scoped_env t guard s of
        (Returned _, s') \<Rightarrow> (case r of Inr v \<Rightarrow> (Returned v, s', with_env s' w) | Inl _ \<Rightarrow> (Panic, s', with_env s' w))
      | (Panic, s') \<Rightarrow> (Panic, s', with_env s' w)
      | (WouldBlock, s') \<Rightarrow> (WouldBlock, s', with_env s' w))"

text \<open>The runtime of \<open>new_split\<close> is declared before the guard and goes after it.\<close>

definition new_split_in ::
  "('x, 'g) runtime_api \<Rightarrow> ('h, 'c, 'g, 'v::linorder) cluster_api \<Rightarrow> 'x \<Rightarrow> nat \<Rightarrow> scope_state \<Rightarrow> world \<Rightarrow>
     (bootstrap_error + cluster_handle \<times> 'g cluster_guard) scoped_run" where
  "new_split_in T A x t s w =
     (case bootstrap_for_tests (ca_ext A) (ca_env A) (with_env s w) of
        None \<Rightarrow> None
      | Some (Inl e, w1) \<Rightarrow> Some (Returned (Inl e), s, w1)
      | Some (Inr b, w1) \<Rightarrow>
          let cache_dir = cache_config_from_bootstrap A b w1; env_vars = to_env (bs_environment b) in
          (case build_cluster_runtime A w1 of
             Inl e \<Rightarrow> Some (Returned (Inl e), s, w1)
           | Inr _ \<Rightarrow>
               (case scoped_apply t env_vars s of
                  (Panic, s1) \<Rightarrow> Some (Panic, s1, with_env s1 w1)
                | (WouldBlock, s1) \<Rightarrow> Some (WouldBlock, s1, with_env s1 w1)
                | (Returned env_guard, s1) \<Rightarrow>
                    (case start_postgres_in T A x b env_vars cache_dir (with_env s1 w1) of
                       None \<Rightarrow> None
                     | Some (Inl p, w2) \<Rightarrow> Some (leave_unwound t env_guard (drop_runtime T x (Inl p)) s1 w2)
                     | Some (Inr (Inl e), w2) \<Rightarrow> Some (leave_unwound t env_guard (drop_runtime T x (Inr (Inl e))) s1 w2)
                     | Some (Inr (Inr outcome), w2) \<Rightarrow>
                         Some (Returned (Inr (\<lparr>ch_bootstrap = so_bootstrap outcome\<rparr>,
                           \<lparr>cg_runtime = SyncRuntime, cg_postgres = so_postgres outcome, cg_bootstrap = so_bootstrap outcome,
                            cg_managed = so_managed outcome, cg_env_vars = env_vars, cg_worker_guard = None,
                            cg_env_guard = env_guard\<rparr>)), s1, w2)))))"

section \<open>The setup-only path\<close>

definition setup_with_privileges_in ::
  "('x, 'g) runtime_api \<Rightarrow> ('h, 'c, 'g, 'v) cluster_api \<Rightarrow> 'x \<Rightarrow> execution_privileges \<Rightarrow> bootstrap_settings \<Rightarrow>
     env_vars \<Rightarrow> world \<Rightarrow> unit unwound_run" where
  "setup_with_privileges_in T A x privileges b env_vars w =
     (if privileges = Root then (case invoke_root_operation A b env_vars SetupStep w of (r, w') \<Rightarrow> (Inr r, w'))
      else (case unprivileged_operation_in T A x b env_vars SetupStep (Some (pg_new (ca_pg A) (bs_settings b))) w of
          (r, s, w') \<Rightarrow> (r, drop_server (ca_pg A) s w')))"

definition setup_lifecycle_in ::
  "('x, 'g) runtime_api \<Rightarrow> ('h, 'c, 'g, 'v::linorder) cluster_api \<Rightarrow> 'x \<Rightarrow> bootstrap_settings \<Rightarrow> env_vars \<Rightarrow> pathbuf \<Rightarrow>
     world \<Rightarrow> bootstrap_settings unwound_run option" where
  "setup_lifecycle_in T A x b env_vars cache_dir w =
     (let privileges = bs_privileges b; version_req = st_version (bs_settings b) in
      case try_use_binary_cache (ca_versions A) (ca_flock_shared A) cache_dir version_req b w of
        None \<Rightarrow> None
      | Some ((cache_hit, b1), w1) \<Rightarrow>
          (case setup_with_privileges_in T A x privileges b1 env_vars w1 of
             (Inl p, w2) \<Rightarrow> Some (Inl p, w2)
           | (Inr (Inl e), w2) \<Rightarrow> Some (Inr (Inl e), w2)
           | (Inr (Inr _), w2) \<Rightarrow>
               let b2 = refresh_worker_installation_dir (ca_versions A) b1 w2 in
               map_option (\<lambda>w3. (Inr (Inr b2), w3)) (populate_cache_on_miss A cache_hit cache_dir b2 w2)))"

text \<open>The closure that both branches of \<open>run_with_runtime\<close> run: build a runtime, work, drop it.\<close>

definition with_own_runtime ::
  "('x, 'g) runtime_api \<Rightarrow> ('h, 'c, 'g, 'v) cluster_api \<Rightarrow> 'x \<Rightarrow> ('x \<Rightarrow> world \<Rightarrow> 'a unwound_run option) \<Rightarrow> world \<Rightarrow>
     'a unwound_run option" where
  "with_own_runtime T A x operation w =
     (case build_cluster_runtime A w of
        Inl e \<Rightarrow> Some (Inr (Inl e), w)
      | Inr _ \<Rightarrow> map_option (\<lambda>(r, w'). (drop_runtime T x r, w')) (operation x w))"

definition run_with_runtime ::
  "('x, 'g) runtime_api \<Rightarrow> ('h, 'c, 'g, 'v) cluster_api \<Rightarrow> 'x \<Rightarrow> string \<Rightarrow> ('x \<Rightarrow> world \<Rightarrow> 'a unwound_run option) \<Rightarrow>
     world \<Rightarrow> 'a unwound_run option" where
  "run_with_runtime T A x ctx operation w =
     (if rt_current T x then
        map_option (\<lambda>(r, w').
          (Inr (case join_thread ctx ''lifecycle'' r of Inl e \<Rightarrow> Inl e | Inr v \<Rightarrow> v), w'))
          (with_own_runtime T A (rt_spawned T) operation w)
      else with_own_runtime T A x operation w)"

text \<open>The guard is in scope around it, and no runtime is.\<close>

definition setup_postgres_only_in ::
  "('x, 'g) runtime_api \<Rightarrow> ('h, 'c, 'g, 'v::linorder) cluster_api \<Rightarrow> 'x \<Rightarrow> nat \<Rightarrow> bootstrap_settings \<Rightarrow> scope_state \<Rightarrow>
     world \<Rightarrow> (bootstrap_error + bootstrap_settings) scoped_run" where
  "setup_postgres_only_in T A x t b s w =
     (let cache_dir = cache_config_from_bootstrap A b (with_env s w); env_vars = to_env (bs_environment b) in
      case scoped_apply t env_vars s of
        (Panic, s1) \<Rightarrow> Some (Panic, s1, with_env s1 w)
      | (WouldBlock, s1) \<Rightarrow> Some (WouldBlock, s1, with_env s1 w)
      | (Returned env_guard, s1) \<Rightarrow>
          map_option (\<lambda>(r, w2). leave_unwound t env_guard r s1 w2)
            (run_with_runtime T A x ''setup_postgres_only''
              (\<lambda>y w. setup_lifecycle_in T A y b env_vars cache_dir w) (with_env s1 w)))"

section \<open>Stopping\<close>

text \<open>The block that \<open>block_on\<close> refuses to poll owns the server and drops it.\<close>

definition drop_sync_cluster_in ::
  "('x, 'g) runtime_api \<Rightarrow> ('h, 'c, 'g, 'v) cluster_api \<Rightarrow> 'x \<Rightarrow> bool \<Rightarrow> 'g option \<Rightarrow> bootstrap_settings \<Rightarrow> env_vars \<Rightarrow>
     world \<Rightarrow> unit unwound \<times> world" where
  "drop_sync_cluster_in T A x is_managed_via_worker postgres b env_vars w =
     (if is_managed_via_worker then (Inr (), snd (stop_worker_managed_with_runtime A b env_vars w))
      else case postgres of
        None \<Rightarrow> (Inr (), w)
      | Some pg \<Rightarrow>
          (case block_on_timeout T A x (bs_shutdown_timeout b) (server_call (pg_stop (ca_pg A))) (Some pg) w of
             (Inl p, s, w1) \<Rightarrow> (Inl p, drop_server (ca_pg A) s w1)
           | (Inr outcome, s, w1) \<Rightarrow>
               let w2 = drop_server (ca_pg A) s w1 in
               (Inr (), if outcome = Some (Inr ()) then snd (cleanup_in_process (bs_cleanup_mode b) (bs_settings b) w2)
                        else w2)))"

definition perform_shutdown_in ::
  "('x, 'g) runtime_api \<Rightarrow> ('h, 'c, 'g, 'v) cluster_api \<Rightarrow> 'x \<Rightarrow> 'g cluster_guard \<Rightarrow> world \<Rightarrow>
     unit unwound \<times> 'g stop_task option \<times> world" where
  "perform_shutdown_in T A x cg w =
     (if runtime_is_async (cg_runtime cg) then
        (case drop_async_cluster A (rt_current T x) (cg_managed cg) (cg_postgres cg) (cg_bootstrap cg) (cg_env_vars cg) w of
           (task, w1) \<Rightarrow> (Inr (), task, w1))
      else
        (case drop_sync_cluster_in T A x (cg_managed cg) (cg_postgres cg) (cg_bootstrap cg) (cg_env_vars cg) w of
           (r, w1) \<Rightarrow> (r, None, w1)))"

text \<open>The body of \<open>drop\<close>, then the fields, the runtime first; a panic does not keep the other fields from being
  dropped.\<close>

definition drop_cluster_guard_in ::
  "('x, 'g) runtime_api \<Rightarrow> ('h, 'c, 'g, 'v) cluster_api \<Rightarrow> 'x \<Rightarrow> nat \<Rightarrow> 'g cluster_guard \<Rightarrow> scope_state \<Rightarrow> world \<Rightarrow>
     unit ctl \<times> 'g stop_task option \<times> scope_state \<times> world" where
  "drop_cluster_guard_in T A x t cg s w =
     (case (if should_skip_shutdown cg then (Inr (), None, w) else perform_shutdown_in T A x cg w) of
        (r, task, w1) \<Rightarrow>
          let r1 = (if runtime_is_async (cg_runtime cg) then r else drop_runtime T x r) in
          (case drop_scopes t cg s of
             (r2, s1) \<Rightarrow>
               (case r1 of Inr _ \<Rightarrow> r2 | Inl _ \<Rightarrow> if r2 = Returned () then Panic else r2, task, s1, with_env s1 w1)))"

section \<open>Lemmas\<close>

lemma tokio_specD:
  assumes "tokio_spec T"
  shows "\<not> rt_current T (rt_spawned T)" "rt_block_on T (rt_spawned T) = None" "rt_drop T (rt_spawned T) = None"
    "\<not> rt_current T x \<Longrightarrow> rt_block_on T x = None" "\<not> rt_current T x \<Longrightarrow> rt_drop T x = None"
    "rt_block_on T x = None \<longleftrightarrow> rt_drop T x = None"
  using assms by (auto simp: tokio_spec_def)

text \<open>The thread that polls is one on which \<open>block_on\<close> does not panic, whatever the caller's is.\<close>

lemma invoke_unprivileged_in_eq:
  assumes "tokio_spec T"
  shows "invoke_unprivileged_in T A x future ctx timeout s w =
    (case rt_future T timeout future s w of
       Some (p, s', w') \<Rightarrow>
         (if rt_current T x then Inr (Inl (nested_runtime_thread_panic ctx ''nested-runtime operation'' p)) else Inl p, s', w')
     | None \<Rightarrow> (case invoke_unprivileged A future ctx timeout s w of (r, s', w') \<Rightarrow> (Inr r, s', w')))"
  using tokio_specD(2) [OF assms] tokio_specD(4) [OF assms, of x]
  by (auto simp: invoke_unprivileged_in_def run_unprivileged_in_scoped_thread_def block_on_timeout_def join_thread_def
      map_err_def operation_result_def invoke_unprivileged_def split: option.split prod.split sum.split)

lemma invoke_in_calm:
  assumes "tokio_spec T" "library_never_panics T"
  shows "invoke_in T A x b env_vars oper future s w =
    (case invoke A b env_vars oper future s w of (r, s', w') \<Rightarrow> (Inr r, s', w'))"
  using assms(2)
  by (simp add: invoke_in_def invoke_def dispatch_operation_def run_unprivileged_def run_root_def
      invoke_unprivileged_in_eq [OF assms(1)] library_never_panics_def split: execution_privileges.split prod.split)

lemma operation_in_calm:
  assumes "tokio_spec T" "library_never_panics T"
  shows "unprivileged_operation_in T A x b env_vars step s w =
    (case invoke_unprivileged_operation A b env_vars step s w of (r, s', w') \<Rightarrow> (Inr r, s', w'))"
  by (simp add: unprivileged_operation_in_def invoke_unprivileged_operation_def invoke_in_calm [OF assms]
      split: lifecycle_step.split)

lemma lifecycle_in_calm:
  assumes "tokio_spec T" "library_never_panics T"
  shows "invoke_lifecycle_in T A x b env_vars s w =
    (case invoke_lifecycle A b env_vars s w of (r, s', w') \<Rightarrow> (Inr r, s', w'))"
  by (auto simp: invoke_lifecycle_in_def invoke_lifecycle_def operation_in_calm [OF assms] Let_def
      split: prod.split sum.split)

lemma start_in_calm:
  assumes "tokio_spec T" "library_never_panics T"
  shows "start_postgres_in T A x b env_vars cache_dir w =
    map_option (\<lambda>(r, w'). (Inr r, w')) (start_postgres A b env_vars cache_dir w)"
proof -
  have "handle_privilege_lifecycle_in T A x privileges b env_vars w =
      (case handle_privilege_lifecycle A privileges b env_vars w of (r, w') \<Rightarrow> (Inr r, w'))" for privileges b w
    by (auto simp: handle_privilege_lifecycle_in_def handle_privilege_lifecycle_def lifecycle_in_calm [OF assms] try_st_def
        split: prod.split sum.split)
  then show ?thesis
    by (auto simp: start_postgres_in_def start_postgres_def Let_def option.map_comp o_def
        split: option.split prod.split sum.split)
qed

lemma setup_in_calm:
  assumes "tokio_spec T" "library_never_panics T"
  shows "setup_lifecycle_in T A x b env_vars cache_dir w =
    map_option (\<lambda>(r, w'). (Inr r, w')) (setup_lifecycle A b env_vars cache_dir w)"
proof -
  have "setup_with_privileges_in T A x privileges b env_vars w =
      (case setup_with_privileges A privileges b env_vars w of (r, w') \<Rightarrow> (Inr r, w'))" for privileges b w
    by (auto simp: setup_with_privileges_in_def setup_with_privileges_def operation_in_calm [OF assms] split: prod.split)
  then show ?thesis
    by (auto simp: setup_lifecycle_in_def setup_lifecycle_def Let_def option.map_comp o_def
        split: option.split prod.split sum.split)
qed

lemma scoped_apply_free:
  assumes "scope_inv t s" "pr_owner (fst s) = None" "list_all valid_var vars"
  shows "\<exists>g s'. scoped_apply t vars s = (Returned g, s')"
proof -
  have "list_ex (\<lambda>(key, _). \<not> (key \<noteq> [] \<and> \<not> contains_equals key)) vars = False"
    using assms(3) by (auto simp: list_ex_iff list_all_iff valid_var_def validate_env_key_def)
  moreover obtain p ts where s: "s = (p, ts)" by (cases s)
  with enter_ok [of t p ts vars] assms obtain p' ts' where
      "enter_scope t vars (p, ts) = (Returned (length (ts_stack ts)), (p', ts'))" by auto
  ultimately show ?thesis using s by (simp add: scoped_apply_def scoped_apply_os_def)
qed

lemma leave_unwound_live:
  assumes "scope_inv t s" "live_at s (fst g)"
  obtains s' where "scope_inv t s'" "base_env s' = base_env s" "\<And>j. live_at s' j \<longleftrightarrow> live_at s j \<and> j \<noteq> fst g"
    "leave_unwound t g r s w = (case r of Inr v \<Rightarrow> Returned v | Inl _ \<Rightarrow> Panic, s', with_env s' w)"
  using drop_scoped_live [OF assms] by (auto simp: leave_unwound_def split: sum.split)

definition scopes_closed :: "nat \<Rightarrow> scope_state \<Rightarrow> scope_state \<Rightarrow> bool" where
  "scopes_closed t s s' \<longleftrightarrow> scope_inv t s' \<and> ts_depth (snd s') = 0 \<and> pr_env (fst s') = pr_env (fst s)"

lemma scopes_closedI:
  assumes "scope_inv t s'" "base_env s' = pr_env (fst s)" "\<And>j. \<not> live_at s' j"
  shows "scopes_closed t s s'"
  using no_live_idle [OF assms(1,3)] assms(1,2) by (simp add: scopes_closed_def)

lemma drop_in_closes:
  assumes inv: "scope_inv t s1" "base_env s1 = pr_env (fst s)"
    and live: "\<And>j. live_at s1 j \<longleftrightarrow> j = fst (cg_env_guard cg)" "cg_worker_guard cg = None"
    and drop: "drop_cluster_guard_in T A x t cg s1 v = (r, task, s2, v')"
  shows "scopes_closed t s s2 \<and> w_env v' = pr_env (fst s) \<and> r \<noteq> WouldBlock"
proof -
  from live(1) have "live_at s1 (fst (cg_env_guard cg))" by simp
  from drop_scoped_live [OF inv(1) this] live(1) obtain s3 where
      s3: "drop_scoped_env t (cg_env_guard cg) s1 = (Returned (), s3)" "scope_inv t s3" "base_env s3 = base_env s1"
        "\<And>j. \<not> live_at s3 j" by blast
  from s3(1) live(2) have "drop_scopes t cg s1 = (Returned (), s3)"
    by (simp add: drop_scopes_def drop_worker_guard_def)
  with drop have "s2 = s3" "w_env v' = pr_env (fst s3)" "r \<noteq> WouldBlock"
    by (auto simp: drop_cluster_guard_in_def Let_def with_env_def split: prod.splits sum.splits if_splits)
  with scopes_closedI [OF s3(2) _ s3(4), of s] s3(3) inv(2) show ?thesis by (simp add: scopes_closed_def)
qed

text \<open>The synchronous start gets as far as its runtime.\<close>

definition builds_runtime :: "('h, 'c, 'g, 'v) cluster_api \<Rightarrow> scope_state \<Rightarrow> world \<Rightarrow> bool" where
  "builds_runtime A s w \<longleftrightarrow>
     (case bootstrap_for_tests (ca_ext A) (ca_env A) (with_env s w) of
        Some (Inr _, w1) \<Rightarrow> is_ok (build_cluster_runtime A w1)
      | _ \<Rightarrow> False)"

lemma nested_start_eq:
  assumes "tokio_spec T" "library_never_panics T"
  shows "new_split_in T A x t s w =
    map_option (\<lambda>(r, s', w').
      (case r of Returned (Inl _) \<Rightarrow> if builds_runtime A s w \<and> rt_drop T x \<noteq> None then Panic else r | _ \<Rightarrow> r, s', w'))
      (new_split A t s w)"
proof -
  have leave: "leave_unwound t g (drop_runtime T x (Inr (Inl e :: bootstrap_error + cluster_handle \<times> 'b cluster_guard))) s w =
      (case leave_scope t g (Inl e) s w of (r, s', w') \<Rightarrow>
        (case r of Returned (Inl _) \<Rightarrow> if rt_drop T x \<noteq> None then Panic else r | _ \<Rightarrow> r, s', w'))" for g e s w
    by (auto simp: leave_unwound_def leave_scope_def drop_runtime_def split: ctl.split prod.split option.split)
  show ?thesis
    by (auto simp: new_split_in_def new_split_def builds_runtime_def start_in_scope_def start_in_calm [OF assms] leave Let_def
        split: option.split prod.split sum.split ctl.split)
qed

section \<open>Properties\<close>


text \<open>
  C35. A synchronous cluster cannot be dropped inside an asynchronous task. Whatever it is, the drop panics. If the
  server runs in process nothing stops it in order: \<open>stop\<close> is never polled, no directory is removed, and the
  server is just dropped. If the worker manages it, it has been stopped and cleaned up before. The environment
  variables are put back as by any other drop.
\<close>

theorem nested_drop_panics:
  assumes tokio: "tokio_spec T" and task: "rt_block_on T x \<noteq> None"
    and sync: "cg_runtime cg = SyncRuntime" and scopes: "drop_scopes t cg s = (Returned (), s1)"
  shows "drop_cluster_guard_in T A x t cg s w =
    (Panic, None, s1, with_env s1
      (if cg_managed cg then snd (stop_worker_managed_with_runtime A (cg_bootstrap cg) (cg_env_vars cg) w)
       else drop_server (ca_pg A) (cg_postgres cg) w))"
proof -
  obtain p where p: "rt_block_on T x = Some p" using task by blast
  then obtain q where q: "rt_drop T x = Some q" using tokio_specD(6) [OF tokio, of x] by auto
  show ?thesis
    by (auto simp: drop_cluster_guard_in_def should_skip_shutdown_def perform_shutdown_in_def drop_sync_cluster_in_def
        block_on_timeout_def sync runtime_is_async_def scopes drop_server_def Let_def drop_runtime_def p q
        split: option.split)
qed


text \<open>
  Setting up without starting works in every context. As long as the server library does not panic, \<open>run\<close>'s lifecycle gives
  the same inside a runtime, a task included, as outside; what it needs of a runtime is created and dropped on
  a thread of its own.
\<close>

theorem setup_same_in_any_context:
  assumes "tokio_spec T" "library_never_panics T"
  shows "setup_postgres_only_in T A x t b s w = setup_postgres_only A t b s w"
proof -
  have own: "with_own_runtime T A y (\<lambda>y w. setup_lifecycle_in T A y b env_vars cache_dir w) v =
      (case build_cluster_runtime A v of
         Inl e \<Rightarrow> Some (Inr (Inl e), v)
       | Inr _ \<Rightarrow> map_option (\<lambda>(r, w'). (Inr r, w')) (setup_lifecycle A b env_vars cache_dir v))"
    if "rt_drop T y = None" for y env_vars cache_dir v
    using that by (auto simp: with_own_runtime_def setup_in_calm [OF assms] drop_runtime_def option.map_comp o_def
        case_prod_unfold split: sum.split)
  have "run_with_runtime T A x ctx (\<lambda>y w. setup_lifecycle_in T A y b env_vars cache_dir w) v =
      (case build_cluster_runtime A v of
         Inl e \<Rightarrow> Some (Inr (Inl e), v)
       | Inr _ \<Rightarrow> map_option (\<lambda>(r, w'). (Inr r, w')) (setup_lifecycle A b env_vars cache_dir v))" for ctx env_vars cache_dir v
    using own tokio_specD(3) [OF assms(1)] tokio_specD(5) [OF assms(1), of x]
    by (auto simp: run_with_runtime_def join_thread_def map_err_def option.map_comp o_def case_prod_unfold split: sum.split)
  moreover have "leave_unwound t g (Inr r) s v = leave_scope t g r s v"
    for g s v and r :: "bootstrap_error + bootstrap_settings"
    by (auto simp: leave_unwound_def leave_scope_def split: ctl.split prod.split)
  ultimately show ?thesis
    by (auto simp: setup_postgres_only_in_def setup_postgres_only_def Let_def option.map_comp o_def case_prod_unfold
        split: ctl.split prod.split sum.split)
qed

text \<open>
  Inside a runtime a panic of the library during the setup becomes an error: the helper thread dies alone, the
  caller gets a message that names the step and the panic, and its scope is closed. Outside, the same panic
  goes through the caller.
\<close>

theorem setup_panic_becomes_error:
  assumes tokio: "tokio_spec T" and unpriv: "bs_privileges b = Unprivileged"
    and cache: "try_use_binary_cache (ca_versions A) (ca_flock_shared A) cache_dir (st_version (bs_settings b)) b w =
      Some ((hit, b1), w1)"
    and runtime: "build_cluster_runtime A w = Inr ()"
    and boom: "rt_future T (op_timeout OpSetup b1) (server_call (pg_setup (ca_pg A)))
      (Some (pg_new (ca_pg A) (bs_settings b1))) w1 = Some (p, srv, w2)"
  shows "run_with_runtime T A x ''setup_postgres_only'' (\<lambda>y w. setup_lifecycle_in T A y b env_vars cache_dir w) w =
    Some (if rt_current T x
      then Inr (Inl (nested_runtime_thread_panic ''setup_postgres_only'' ''lifecycle'' p))
      else Inl p, drop_server (ca_pg A) srv w2)"
proof -
  have "setup_lifecycle_in T A y b env_vars cache_dir w = Some (Inl p, drop_server (ca_pg A) srv w2)"
    if "\<not> rt_current T y" for y
    using use_cache_keeps [OF cache] unpriv cache boom that
    by (simp add: setup_lifecycle_in_def setup_with_privileges_in_def unprivileged_operation_in_def invoke_in_def
        invoke_unprivileged_in_eq [OF tokio])
  with runtime tokio_specD(1) [OF tokio] show ?thesis
    by (auto simp: run_with_runtime_def with_own_runtime_def drop_runtime_def join_thread_def map_err_def)
qed

section \<open>Examples\<close>

datatype tokio_context = OutsideRuntime | BlockingThread | AsyncTask

definition demo_tokio ::
  "(duration \<Rightarrow> 'g future \<Rightarrow> 'g option \<Rightarrow> world \<Rightarrow> (panic_payload \<times> 'g option \<times> world) option) \<Rightarrow>
     (tokio_context, 'g) runtime_api" where
  "demo_tokio boom =
     \<lparr>rt_current = (\<lambda>x. x \<noteq> OutsideRuntime),
      rt_block_on = (\<lambda>x. if x = AsyncTask then Some (StrPayload ''Cannot start a runtime from within a runtime'') else None),
      rt_drop = (\<lambda>x. if x = AsyncTask
        then Some (StrPayload ''Cannot drop a runtime in a context where blocking is not allowed'') else None),
      rt_spawned = OutsideRuntime, rt_future = boom\<rparr>"

lemma demo_tokio_spec: "tokio_spec (demo_tokio boom)"
  by (simp add: tokio_spec_def demo_tokio_def)

lemma demo_tokio_calm: "library_never_panics (demo_tokio (\<lambda>_ _ _ _. None))"
  by (simp add: library_never_panics_def demo_tokio_def)

lemma nested_demo_start:
  obtains h cg s' w' where "new_split_in (demo_tokio (\<lambda>_ _ _ _. None)) idle_cluster x 0 demo_scope boot_world =
    Some (Returned (Inr (h, cg)), s', w')" "cg_managed cg"
proof -
  obtain h cg s' w' where "new_split idle_cluster 0 demo_scope boot_world = Some (Returned (Inr (h, cg)), s', w')" "cg_managed cg"
    by (rule idle_new_split)
  with that show thesis by (simp add: nested_start_eq [OF demo_tokio_spec demo_tokio_calm])
qed


lemma server_guard_scopes: "\<exists>s'. drop_scopes 0 server_guard demo_scope = (Returned (), s')"
  using exit_total [of 0 "fst demo_scope" "snd demo_scope" 0] demo_scope_inv
  by (auto simp: drop_scopes_def drop_worker_guard_def server_guard_def managed_guard_def drop_scoped_env_def)

theorem nested_drop_panics_witness:
  "\<exists>s' w'. drop_cluster_guard_in (demo_tokio (\<lambda>_ _ _ _. None)) idle_cluster AsyncTask 0 server_guard demo_scope demo_world =
     (Panic, None, s', w') \<and> entry w' [RootDir, Normal ''d''] \<noteq> None"
proof -
  obtain s' where scopes: "drop_scopes 0 server_guard demo_scope = (Returned (), s')"
    using server_guard_scopes by blast
  have task: "rt_block_on (demo_tokio (\<lambda>_ _ _ _. None)) AsyncTask \<noteq> None" by (simp add: demo_tokio_def)
  have sync: "cg_runtime server_guard = SyncRuntime" "\<not> cg_managed server_guard" by (simp_all add: server_guard_def managed_guard_def)
  have "drop_server (ca_pg idle_cluster) srv demo_world = demo_world" for srv
    by (simp add: drop_server_def idle_cluster_def idle_pg_def split: option.split)
  with sync(2) nested_drop_panics [OF demo_tokio_spec task sync(1) scopes, of idle_cluster demo_world] have
      "drop_cluster_guard_in (demo_tokio (\<lambda>_ _ _ _. None)) idle_cluster AsyncTask 0 server_guard demo_scope demo_world =
        (Panic, None, s', with_env s' demo_world)" by simp
  moreover have "entry (with_env s' demo_world) [RootDir, Normal ''d''] \<noteq> None"
    by (simp add: entry_def demo_world_def with_env_def)
  ultimately show ?thesis by blast
qed


theorem setup_same_in_any_context_witness:
  "setup_postgres_only_in (demo_tokio (\<lambda>_ _ _ _. None)) idle_cluster AsyncTask 0 pid_bootstrap demo_scope boot_world =
   setup_postgres_only idle_cluster 0 pid_bootstrap demo_scope boot_world"
  by (rule setup_same_in_any_context [OF demo_tokio_spec demo_tokio_calm])

theorem setup_panic_becomes_error_witness:
  "let T = demo_tokio (\<lambda>_ _ s w. Some (StrPayload ''boom'', s, w)); b = pid_bootstrap\<lparr>bs_privileges := Unprivileged\<rparr> in
   run_with_runtime T idle_cluster AsyncTask ''setup_postgres_only''
     (\<lambda>y w. setup_lifecycle_in T idle_cluster y b [] ''/c'' w) boot_world =
   Some (Inr (Inl (bootstrap_msg ''setup_postgres_only: helper thread panicked while running lifecycle: boom'')), boot_world)"
proof -
  let ?T = "demo_tokio (\<lambda>_ _ s w. Some (StrPayload ''boom'', s, w))" and ?b = "pid_bootstrap\<lparr>bs_privileges := Unprivileged\<rparr>"
  have "try_use_binary_cache (ca_versions idle_cluster) (ca_flock_shared idle_cluster) ''/c'' (st_version (bs_settings ?b)) ?b
      boot_world = Some ((False, ?b), boot_world)"
    by (simp add: try_use_binary_cache_def idle_cluster_def no_versions_none)
  moreover have "build_cluster_runtime idle_cluster boot_world = Inr ()"
    by (simp add: build_cluster_runtime_def idle_cluster_def)
  ultimately show ?thesis
    using setup_panic_becomes_error [where T = ?T and b = ?b and A = idle_cluster and cache_dir = "''/c''" and w = boot_world
        and hit = False and ?b1.0 = ?b and ?w1.0 = boot_world and p = "StrPayload ''boom''" and x = AsyncTask and env_vars = "[]"
        and srv = "Some (pg_new (ca_pg idle_cluster) (bs_settings ?b))" and ?w2.0 = boot_world, OF demo_tokio_spec]
    by (simp add: demo_tokio_def nested_runtime_thread_panic_def drop_server_def idle_cluster_def idle_pg_def)
qed

end
