(* ===== verification/Log_Capture.thy ===== *)
theory Log_Capture
  imports Prelude
begin

text \<open>
  The capture of log output of \<open>src/src/test_support/logging.rs\<close>, and \<open>String::from_utf8_lossy\<close> of the standard library,
  which it falls back on. What \<open>tracing-subscriber\<close> writes for the events of an action is a parameter. The lemmas show that
  decoding keeps the lines apart, whatever bytes they hold.
\<close>

section \<open>Lossy decoding\<close>

text \<open>
  \<open>from_utf8_lossy\<close> copies whole characters and puts U+FFFD for every maximal prefix of one that does not go on as it
  should; the byte at which it stops is read again.
\<close>

definition replacement :: string where
  "replacement = bytes [239, 191, 189]"

text \<open>Which second bytes a character of three or four bytes may have.\<close>

definition second3 :: "char \<Rightarrow> char \<Rightarrow> bool" where
  "second3 a b \<longleftrightarrow> is_cont b \<and> (byte a = 224 \<longrightarrow> 160 \<le> byte b) \<and> (byte a = 237 \<longrightarrow> byte b < 160)"

definition second4 :: "char \<Rightarrow> char \<Rightarrow> bool" where
  "second4 a b \<longleftrightarrow> is_cont b \<and> (byte a = 240 \<longrightarrow> 144 \<le> byte b) \<and> (byte a = 244 \<longrightarrow> byte b < 144)"

fun utf8_lossy :: "string \<Rightarrow> string" where
  "utf8_lossy [] = []"
| "utf8_lossy (a # s) =
     (if byte a < 128 then a # utf8_lossy s
      else if 194 \<le> byte a \<and> byte a \<le> 223 then
        (case s of
           b # t \<Rightarrow> if is_cont b then a # b # utf8_lossy t else replacement @ utf8_lossy s
         | [] \<Rightarrow> replacement)
      else if 224 \<le> byte a \<and> byte a \<le> 239 then
        (case s of
           b # t \<Rightarrow>
             if second3 a b then
               (case t of
                  c # u \<Rightarrow> if is_cont c then a # b # c # utf8_lossy u else replacement @ utf8_lossy t
                | [] \<Rightarrow> replacement)
             else replacement @ utf8_lossy s
         | [] \<Rightarrow> replacement)
      else if 240 \<le> byte a \<and> byte a \<le> 244 then
        (case s of
           b # t \<Rightarrow>
             if second4 a b then
               (case t of
                  c # u \<Rightarrow>
                    if is_cont c then
                      (case u of
                         d # v \<Rightarrow> if is_cont d then a # b # c # d # utf8_lossy v else replacement @ utf8_lossy u
                       | [] \<Rightarrow> replacement)
                    else replacement @ utf8_lossy t
                | [] \<Rightarrow> replacement)
             else replacement @ utf8_lossy s
         | [] \<Rightarrow> replacement)
      else replacement @ utf8_lossy s)"

section \<open>Capturing\<close>

text \<open>\<open>Ok(buf.len())\<close> and nothing left to flush.\<close>

definition buffer_write :: "string \<Rightarrow> string \<Rightarrow> nat \<times> string" where
  "buffer_write buf buffer = (length buf, buffer @ buf)"

definition decode_logs :: "string \<Rightarrow> string list" where
  "decode_logs content = str_lines (if utf8_valid content then content else utf8_lossy content)"

datatype log_level = LevelWarn | LevelInfo | LevelDebug

text \<open>
  What the subscriber of a level, with or without span events, writes for the events of an action, call by call. Every
  call of \<open>write_all\<close> is one \<open>write\<close>, since the writer takes all it is given.
\<close>

type_synonym 'e subscriber = "log_level \<Rightarrow> bool \<Rightarrow> 'e list \<Rightarrow> string list"

definition capture_logs ::
  "'e subscriber \<Rightarrow> log_level \<Rightarrow> bool \<Rightarrow> ('w \<Rightarrow> 'a \<times> 'e list \<times> 'w) \<Rightarrow> 'w \<Rightarrow> (string list \<times> 'a) \<times> 'w" where
  "capture_logs S max_level span_events action w =
     (case action w of
        (result, events, w') \<Rightarrow>
          ((decode_logs (fold (\<lambda>buf b. snd (buffer_write buf b)) (S max_level span_events events) []), result), w'))"

definition capture_warn_logs where "capture_warn_logs S action w = capture_logs S LevelWarn False action w"
definition capture_info_logs where "capture_info_logs S action w = capture_logs S LevelInfo False action w"
definition capture_info_logs_with_spans where
  "capture_info_logs_with_spans S action w = capture_logs S LevelInfo True action w"
definition capture_debug_logs where "capture_debug_logs S action w = capture_logs S LevelDebug False action w"

section \<open>Lemmas\<close>

lemma replacement_valid: "utf8_valid replacement" by code_simp

lemma replacement_bytes: "c \<in> set replacement \<Longrightarrow> 128 \<le> byte c"
  by (auto simp: replacement_def bytes_def byte_def)

lemmas lossy_defs = second3_def second4_def

lemma ascii_not_cont: "byte d < 128 \<Longrightarrow> \<not> is_cont d" by (simp add: is_cont_def)

declare utf8_lossy.simps(2) [simp del] utf8_valid.simps(2) [simp del]

text \<open>
  One step of the decoder: it copies a whole character, or replaces a prefix of bytes above 127 that no valid text starts
  with. Neither depends on what follows an ASCII character.
\<close>

definition copies :: "string \<Rightarrow> string \<Rightarrow> string \<Rightarrow> bool" where
  "copies s h t \<longleftrightarrow> s = h @ t \<and> h \<noteq> [] \<and> (\<forall>r. utf8_valid (h @ r) = utf8_valid r) \<and>
     (\<forall>r. utf8_lossy (h @ r) = h @ utf8_lossy r)"

definition replaces :: "string \<Rightarrow> string \<Rightarrow> string \<Rightarrow> bool" where
  "replaces s h t \<longleftrightarrow> s = h @ t \<and> h \<noteq> [] \<and> \<not> utf8_valid s \<and> (\<forall>c\<in>set h. 128 \<le> byte c) \<and>
     utf8_lossy s = replacement @ utf8_lossy t \<and>
     (\<forall>d y. byte d < 128 \<longrightarrow> utf8_lossy (s @ d # y) = replacement @ utf8_lossy (t @ d # y))"

lemma replacesD:
  assumes "replaces s h t"
  shows "s = h @ t" "h \<noteq> []" "\<not> utf8_valid s" "\<forall>c\<in>set h. 128 \<le> byte c" "utf8_lossy s = replacement @ utf8_lossy t"
    "byte d < 128 \<Longrightarrow> utf8_lossy (s @ d # y) = replacement @ utf8_lossy (t @ d # y)" "length t < length s"
  using assms unfolding replaces_def by (blast, blast, blast, blast, blast, blast, auto)

lemma lossy_step2:
  assumes a: "\<not> byte a < 128" "194 \<le> byte a \<and> byte a \<le> 223"
  shows "\<exists>h t. copies (a # s) h t \<or> replaces (a # s) h t"
proof (cases "\<exists>b t. s = b # t \<and> is_cont b")
  case True
  then obtain b t where "s = b # t" "is_cont b" by blast
  with a have "copies (a # s) [a, b] t"
    by (simp add: copies_def utf8_lossy.simps(2) [of a] utf8_valid.simps(2) [of a])
  then show ?thesis by blast
next
  case False
  with a have "replaces (a # s) [a] s"
    by (cases s) (auto simp: replaces_def utf8_lossy.simps(2) [of a] utf8_valid.simps(2) [of a] ascii_not_cont)
  then show ?thesis by blast
qed

lemma lossy_step3:
  assumes a: "\<not> byte a < 128" "\<not> (194 \<le> byte a \<and> byte a \<le> 223)" "224 \<le> byte a \<and> byte a \<le> 239"
  shows "\<exists>h t. copies (a # s) h t \<or> replaces (a # s) h t"
proof (cases "\<exists>b t. s = b # t \<and> second3 a b")
  case True
  then obtain b t where s: "s = b # t" "second3 a b" by blast
  then have b: "128 \<le> byte b" by (simp add: second3_def is_cont_def)
  show ?thesis
  proof (cases "\<exists>c u. t = c # u \<and> is_cont c")
    case True
    then obtain c u where "t = c # u" "is_cont c" by blast
    with a s have "copies (a # s) [a, b, c] u"
      by (simp add: copies_def utf8_lossy.simps(2) [of a] utf8_valid.simps(2) [of a]) (simp add: second3_def)
    then show ?thesis by blast
  next
    case False
    with a s b have "replaces (a # s) [a, b] t"
      by (cases t) (auto simp: replaces_def utf8_lossy.simps(2) [of a] utf8_valid.simps(2) [of a] ascii_not_cont)
    then show ?thesis by blast
  qed
next
  case False
  then have "\<And>d. byte d < 128 \<Longrightarrow> \<not> second3 a d" "\<And>b t. s = b # t \<Longrightarrow> \<not> second3 a b" by (auto simp: second3_def ascii_not_cont)
  with a have "replaces (a # s) [a] s"
    by (cases s)
      (auto simp: replaces_def utf8_lossy.simps(2) [of a] utf8_valid.simps(2) [of a] second3_def split: list.split)
  then show ?thesis by blast
qed

lemma lossy_step4:
  assumes a: "\<not> byte a < 128" "\<not> (194 \<le> byte a \<and> byte a \<le> 223)" "\<not> (224 \<le> byte a \<and> byte a \<le> 239)"
    "240 \<le> byte a \<and> byte a \<le> 244"
  shows "\<exists>h t. copies (a # s) h t \<or> replaces (a # s) h t"
proof (cases "\<exists>b t. s = b # t \<and> second4 a b")
  case True
  then obtain b t where s: "s = b # t" "second4 a b" by blast
  then have b: "128 \<le> byte b" by (simp add: second4_def is_cont_def)
  show ?thesis
  proof (cases "\<exists>c u. t = c # u \<and> is_cont c")
    case True
    then obtain c u where t: "t = c # u" "is_cont c" by blast
    then have c: "128 \<le> byte c" by (simp add: is_cont_def)
    show ?thesis
    proof (cases "\<exists>d v. u = d # v \<and> is_cont d")
      case True
      then obtain d v where "u = d # v" "is_cont d" by blast
      with a s t have "copies (a # s) [a, b, c, d] v"
        by (simp add: copies_def utf8_lossy.simps(2) [of a] utf8_valid.simps(2) [of a]) (simp add: second4_def)
      then show ?thesis by blast
    next
      case False
      with a s t b c have "replaces (a # s) [a, b, c] u"
        by (cases u) (auto simp: replaces_def utf8_lossy.simps(2) [of a] utf8_valid.simps(2) [of a] ascii_not_cont)
      then show ?thesis by blast
    qed
  next
    case False
    with a s b have "replaces (a # s) [a, b] t"
      by (cases t)
        (auto simp: replaces_def utf8_lossy.simps(2) [of a] utf8_valid.simps(2) [of a] ascii_not_cont split: list.split)
    then show ?thesis by blast
  qed
next
  case False
  then have "\<And>d. byte d < 128 \<Longrightarrow> \<not> second4 a d" "\<And>b t. s = b # t \<Longrightarrow> \<not> second4 a b" by (auto simp: second4_def ascii_not_cont)
  with a have "replaces (a # s) [a] s"
    by (cases s)
      (auto simp: replaces_def utf8_lossy.simps(2) [of a] utf8_valid.simps(2) [of a] second4_def split: list.split)
  then show ?thesis by blast
qed

lemma lossy_step:
  obtains (end_of_text) "s = []" | (copied) h t where "copies s h t" | (replaced) h t where "replaces s h t"
proof (cases s)
  case (Cons a r)
  consider "byte a < 128" | "\<not> byte a < 128" "194 \<le> byte a \<and> byte a \<le> 223"
    | "\<not> byte a < 128" "\<not> (194 \<le> byte a \<and> byte a \<le> 223)" "224 \<le> byte a \<and> byte a \<le> 239"
    | "\<not> byte a < 128" "\<not> (194 \<le> byte a \<and> byte a \<le> 223)" "\<not> (224 \<le> byte a \<and> byte a \<le> 239)" "240 \<le> byte a \<and> byte a \<le> 244"
    | "\<not> byte a < 128" "\<not> (194 \<le> byte a \<and> byte a \<le> 223)" "\<not> (224 \<le> byte a \<and> byte a \<le> 239)" "\<not> (240 \<le> byte a \<and> byte a \<le> 244)"
    by blast
  then have "\<exists>h t. copies s h t \<or> replaces s h t"
  proof cases
    case 1
    then have "copies s [a] r" by (simp add: Cons copies_def utf8_lossy.simps(2) [of a] utf8_valid.simps(2) [of a])
    then show ?thesis by blast
  next
    case 5
    then have "(240 \<le> byte a \<and> byte a \<le> 244) = False" "(224 \<le> byte a \<and> byte a \<le> 239) = False"
      "(194 \<le> byte a \<and> byte a \<le> 223) = False" by blast+
    with 5(1) have "replaces s [a] r"
      by (simp only: Cons replaces_def utf8_lossy.simps(2) [of a] utf8_valid.simps(2) [of a] append_Cons if_False) simp
    then show ?thesis by blast
  qed (simp_all add: Cons lossy_step2 lossy_step3 lossy_step4)
  then show thesis using that by blast
qed (use that in blast)

text \<open>Decoding gives a valid text, and a valid text is its own decoding.\<close>

lemma utf8_lossy_valid: "utf8_valid (utf8_lossy s)"
proof (induction "length s" arbitrary: s rule: less_induct)
  case less
  show ?case
  proof (cases s rule: lossy_step)
    case (copied h t)
    then have "utf8_valid (utf8_lossy t)" using less by (simp add: copies_def)
    with copied show ?thesis by (simp add: copies_def)
  next
    case (replaced h t)
    then have "utf8_valid (utf8_lossy t)" using less by (simp add: replaces_def)
    then show ?thesis by (simp add: replacesD(5) [OF replaced] utf8_valid_append replacement_valid)
  qed simp
qed

lemma utf8_lossy_id: "utf8_valid s \<Longrightarrow> utf8_lossy s = s"
proof (induction "length s" arbitrary: s rule: less_induct)
  case less
  show ?case
  proof (cases s rule: lossy_step)
    case (copied h t)
    with less show ?thesis by (simp add: copies_def)
  next
    case (replaced h t)
    with less.prems replacesD(3) [OF replaced] show ?thesis by blast
  qed simp
qed

text \<open>An ASCII character ends whatever character was begun before it.\<close>

lemma utf8_lossy_break: "byte d < 128 \<Longrightarrow> utf8_lossy (s @ d # t) = utf8_lossy s @ d # utf8_lossy t"
proof (induction "length s" arbitrary: s rule: less_induct)
  case less
  show ?case
  proof (cases s rule: lossy_step)
    case end_of_text
    with less.prems show ?thesis by (simp add: utf8_lossy.simps(2) [of d])
  next
    case (copied h r)
    with less show ?thesis by (simp add: copies_def)
  next
    case (replaced h r)
    with less replacesD(5-7) [OF replaced] show ?thesis by simp
  qed
qed

lemma utf8_lossy_empty [simp]: "utf8_lossy s = [] \<longleftrightarrow> s = []"
proof (cases s rule: lossy_step)
  case (copied h t)
  then show ?thesis by (simp add: copies_def)
next
  case (replaced h t)
  have "replacement \<noteq> []" by (simp add: replacement_def bytes_def)
  with replacesD(1,2,5) [OF replaced] show ?thesis by auto
qed simp

lemma utf8_lossy_last: "s \<noteq> [] \<Longrightarrow> byte (last (utf8_lossy s)) < 128 \<Longrightarrow> last (utf8_lossy s) = last s"
proof (induction "length s" arbitrary: s rule: less_induct)
  case less
  show ?case
  proof (cases s rule: lossy_step)
    case (copied h t)
    then have "s = h @ t" "h \<noteq> []" "utf8_lossy s = h @ utf8_lossy t" by (simp_all add: copies_def)
    with less show ?thesis by (cases "t = []") (auto simp del: append_is_Nil_conv)
  next
    case (replaced h t)
    note e = replacesD(1,5,7) [OF replaced]
    have r: "128 \<le> byte (last replacement)" by code_simp
    show ?thesis
    proof (cases "t = []")
      case True
      with e(2) r less.prems show ?thesis by simp
    next
      case False
      with e less show ?thesis by (simp add: last_append)
    qed
  qed (use less in simp)
qed

lemma chomp_lossy: "chomp_cr (utf8_lossy s) = utf8_lossy (chomp_cr s)"
proof (cases "s \<noteq> [] \<and> last s = CHR 0x0D")
  case True
  then obtain r where s: "s = r @ [CHR 0x0D]" by (metis append_butlast_last_id)
  show ?thesis using utf8_lossy_break [of "CHR 0x0D" r "[]"] by (simp add: s byte_def chomp_cr_def)
next
  case False
  then have "\<not> (utf8_lossy s \<noteq> [] \<and> last (utf8_lossy s) = CHR 0x0D)"
    using utf8_lossy_last [of s] by (auto simp: byte_def)
  with False show ?thesis by (auto simp: chomp_cr_def)
qed

lemma utf8_lossy_ascii:
  "byte c < 128 \<Longrightarrow> c \<in> set (utf8_lossy s) \<longleftrightarrow> c \<in> set s"
proof (induction "length s" arbitrary: s rule: less_induct)
  case less
  show ?case
  proof (cases s rule: lossy_step)
    case (copied h t)
    with less show ?thesis by (simp add: copies_def)
  next
    case (replaced h t)
    with less.hyps [of t] less.prems replacement_bytes [of c] replacesD(1,4,5,7) [OF replaced] show ?thesis by force
  qed simp
qed

lemma split_lossy: "split_on (CHR 0x0A) (utf8_lossy s) = map utf8_lossy (split_on (CHR 0x0A) s)"
proof (induction "length s" arbitrary: s rule: less_induct)
  case less
  show ?case
  proof (cases "CHR 0x0A \<in> set s")
    case True
    then obtain a b where s: "s = a @ CHR 0x0A # b" "CHR 0x0A \<notin> set a" by (meson split_list_first)
    moreover have "CHR 0x0A \<notin> set (utf8_lossy a)" using s(2) utf8_lossy_ascii [of "CHR 0x0A" a] by (simp add: byte_def)
    ultimately show ?thesis using less [of b] by (simp add: utf8_lossy_break byte_def split_on_append)
  next
    case False
    then have "CHR 0x0A \<notin> set (utf8_lossy s)" using utf8_lossy_ascii [of "CHR 0x0A" s] by (simp add: byte_def)
    with False show ?thesis by (simp add: split_on_no_sep)
  qed
qed

lemma lines_lossy: "str_lines (utf8_lossy s) = map utf8_lossy (str_lines s)"
  by (auto simp: str_lines_def Let_def split_lossy rev_map [symmetric] chomp_lossy split: list.split)

lemma split_on_parts: "p \<in> set (split_on d s) \<Longrightarrow> d \<notin> set p"
  by (induction s arbitrary: p) (auto split: if_splits list.splits)

lemma lines_no_newline:
  assumes "l \<in> set (str_lines s)"
  shows "CHR 0x0A \<notin> set l"
proof (cases "rev (split_on (CHR 0x0A) s)")
  case (Cons p ps)
  have chomp: "set (chomp_cr x) \<subseteq> set x" for x by (auto simp: chomp_cr_def dest: in_set_butlastD)
  have "set (p # ps) = set (split_on (CHR 0x0A) s)" by (metis Cons set_rev)
  then have parts: "CHR 0x0A \<notin> set x" if "x \<in> set (p # ps)" for x using split_on_parts that by metis
  from assms have "l = p \<or> (\<exists>x\<in>set ps. l = chomp_cr x)"
    by (auto simp: str_lines_def Let_def Cons split: if_splits)
  with parts chomp show ?thesis by fastforce
qed simp

lemma str_lines_cons: "CHR 0x0A \<notin> set l \<Longrightarrow> str_lines (l @ CHR 0x0A # s) = chomp_cr l # str_lines s"
  by (cases "rev (split_on (CHR 0x0A) s)") (auto simp: str_lines_def Let_def split_on_append)

lemma str_lines_written:
  "(\<And>l. l \<in> set ls \<Longrightarrow> CHR 0x0A \<notin> set l \<and> chomp_cr l = l) \<Longrightarrow> str_lines (concat (map (\<lambda>l. l @ [CHR 0x0A]) ls)) = ls"
proof (induction ls)
  case (Cons l ls)
  then show ?case using str_lines_cons [of l "concat (map (\<lambda>l. l @ [CHR 0x0A]) ls)"] by simp
qed (simp add: str_lines_def)

lemma decode_logs_lossy: "decode_logs content = map utf8_lossy (str_lines content)"
  by (simp add: decode_logs_def lines_lossy [symmetric] utf8_lossy_id)

lemma written: "fold (\<lambda>buf b. snd (buffer_write buf b)) ws b = b @ concat ws"
  by (induction ws arbitrary: b) (simp_all add: buffer_write_def)

section \<open>Properties\<close>

text \<open>
  C33. Decoding captured output works line by line, whatever its bytes are: it is the lossy decoding of each line of the
  bytes, so invalid bytes never join lines, split them or spread into another line, and every
  line it gives is a valid text without a newline.
\<close>

theorem decoding_keeps_lines:
  "decode_logs content = map utf8_lossy (str_lines content) \<and>
   list_all (\<lambda>l. utf8_valid l \<and> CHR 0x0A \<notin> set l) (decode_logs content)"
proof -
  have "CHR 0x0A \<notin> set (utf8_lossy l)" if "l \<in> set (str_lines content)" for l
    using utf8_lossy_ascii [of "CHR 0x0A" l] lines_no_newline [OF that] by (simp add: byte_def)
  then show ?thesis by (auto simp: decode_logs_lossy list_all_iff utf8_lossy_valid)
qed

text \<open>
  What the subscriber writes line by line comes back: a capture gives the result of the action, and the lines its
  events were written as, as they are where they are valid UTF-8.
\<close>

theorem captured_lines:
  assumes "action w = (r, events, w')" and "S max_level span_events events = map (\<lambda>l. l @ [CHR 0x0A]) ls"
    and "list_all (\<lambda>l. CHR 0x0A \<notin> set l \<and> chomp_cr l = l) ls"
  shows "capture_logs S max_level span_events action w = ((map utf8_lossy ls, r), w') \<and>
    (list_all utf8_valid ls \<longrightarrow> map utf8_lossy ls = ls)"
  using assms str_lines_written [of ls]
  by (simp add: capture_logs_def written decode_logs_lossy list_all_iff utf8_lossy_id map_idI)

theorem captured_lines_witness:
  "fst (capture_warn_logs (\<lambda>level spans. map (\<lambda>e. e @ [CHR 0x0A])) (\<lambda>w. (42 :: nat, [''a'', bytes [240, 40, 140, 40]], w)) ()) =
     ([''a'', replacement @ ''('' @ replacement @ ''(''], 42)"
proof -
  have "list_all (\<lambda>l. CHR 0x0A \<notin> set l \<and> chomp_cr l = l) [''a'', bytes [240, 40, 140, 40]]" by code_simp
  moreover have "map utf8_lossy [''a'', bytes [240, 40, 140, 40]] = [''a'', replacement @ ''('' @ replacement @ ''('']" by code_simp
  ultimately show ?thesis
    using captured_lines [of "\<lambda>w. (42 :: nat, [''a'', bytes [240, 40, 140, 40]], w)" "()" 42 _ "()"
        "\<lambda>level spans. map (\<lambda>e. e @ [CHR 0x0A])" LevelWarn False "[''a'', bytes [240, 40, 140, 40]]"]
    by (simp add: capture_warn_logs_def)
qed

end
