(* ===== verification/Lifecycle_Log.thy ===== *)
theory Lifecycle_Log
  imports Cluster_Stop Log_Capture
begin

text \<open>
  What a lifecycle logs: the events of \<open>src/src/cluster/worker_invoker/mod.rs\<close>, \<open>startup.rs\<close>, \<open>shutdown.rs\<close>, \<open>cleanup.rs\<close> and
  \<open>guard.rs\<close>, and the settings that \<open>bootstrap/prepare/mod.rs\<close> logs. Every function that logs is here once more with the
  list of its events, in their order; the lemmas show that this changes nothing else, and what may be concluded from the events.
  Events of the cache, of the worker's process and of the scope of the environment are left out, and so are spans.
\<close>

section \<open>Events\<close>

datatype log_event =
    LifecycleStarting execution_privileges execution_mode bool
  | LifecycleStarted execution_privileges bool bool bool
  | SetupComplete execution_privileges bool
  | InProcessStart worker_operation bool
  | WorkerDispatch worker_operation "pathbuf option" bool
  | OperationFailed worker_operation bootstrap_error
  | OperationCompleted worker_operation
  | ClusterStopping string bool bool
  | WorkerStopFailed string bootstrap_error
  | ServerStopFailed string pg_error
  | StopTimedOut nat string
  | AsyncDropWithoutStop string
  | NoRuntimeForCleanup string
  | WorkerCleanup string worker_operation
  | WorkerCleanupFailed string worker_operation bootstrap_error
  | CleanupStart cleanup_mode string
  | Cleaned string cleanup_event

text \<open>The events logged at \<open>WARN\<close> or \<open>ERROR\<close>.\<close>

fun alarming :: "log_event \<Rightarrow> bool" where
  "alarming (OperationFailed _ _) = True"
| "alarming (WorkerStopFailed _ _) = True"
| "alarming (ServerStopFailed _ _) = True"
| "alarming (StopTimedOut _ _) = True"
| "alarming (AsyncDropWithoutStop _) = True"
| "alarming (NoRuntimeForCleanup _) = True"
| "alarming (WorkerCleanupFailed _ _ _) = True"
| "alarming (Cleaned _ e) = event_is_warning e"
| "alarming _ = False"

section \<open>Operations\<close>

definition log_outcome :: "worker_operation \<Rightarrow> bootstrap_error + unit \<Rightarrow> log_event" where
  "log_outcome oper r = (case r of Inl e \<Rightarrow> OperationFailed oper e | Inr _ \<Rightarrow> OperationCompleted oper)"

type_synonym 'g logged_invoked = "'g invoked \<times> log_event list"

definition logged_run_unprivileged ::
  "('h, 'c, 'g, 'v) cluster_api \<Rightarrow> bootstrap_settings \<Rightarrow> worker_operation \<Rightarrow> 'g future \<Rightarrow> 'g option \<Rightarrow> world \<Rightarrow>
     'g logged_invoked" where
  "logged_run_unprivileged A b oper future s w =
     (invoke_unprivileged A future (op_error_context oper) (op_timeout oper b) s w, [InProcessStart oper False])"

definition logged_run_root ::
  "('h, 'c, 'g, 'v) cluster_api \<Rightarrow> bootstrap_settings \<Rightarrow> env_vars \<Rightarrow> worker_operation \<Rightarrow> 'g option \<Rightarrow> world \<Rightarrow>
     'g logged_invoked" where
  "logged_run_root A b env_vars oper s w =
     (case invoke_as_root A b env_vars oper w of
        (r, w') \<Rightarrow> ((r, s, w'), [WorkerDispatch oper (bs_worker_binary b) False]))"

definition logged_invoke ::
  "('h, 'c, 'g, 'v) cluster_api \<Rightarrow> bootstrap_settings \<Rightarrow> env_vars \<Rightarrow> worker_operation \<Rightarrow> 'g future \<Rightarrow> 'g option \<Rightarrow>
     world \<Rightarrow> 'g logged_invoked" where
  "logged_invoke A b env_vars oper future s w =
     (case
       (case bs_privileges b of
          Unprivileged \<Rightarrow> logged_run_unprivileged A b oper future s w
        | Root \<Rightarrow> logged_run_root A b env_vars oper s w)
      of ((r, s', w'), log) \<Rightarrow> ((r, s', w'), log @ [log_outcome oper r]))"

definition logged_invoke_async ::
  "('h, 'c, 'g, 'v) cluster_api \<Rightarrow> bootstrap_settings \<Rightarrow> env_vars \<Rightarrow> worker_operation \<Rightarrow> 'g future \<Rightarrow> 'g option \<Rightarrow>
     world \<Rightarrow> 'g logged_invoked" where
  "logged_invoke_async A b env_vars oper future s w =
     (case
       (case bs_privileges b of
          Unprivileged \<Rightarrow>
            (invoke_unprivileged_async A future (op_error_context oper) (op_timeout oper b) s w, [InProcessStart oper True])
        | Root \<Rightarrow>
            (case execute_root_operation A b env_vars oper w of
               (r, w') \<Rightarrow> ((r, s, w'), [WorkerDispatch oper (bs_worker_binary b) True])))
      of ((r, s', w'), log) \<Rightarrow> ((r, s', w'), log @ [log_outcome oper r]))"

section \<open>Starting\<close>

text \<open>A synchronous start calls the worker with \<open>invoke_as_root\<close>, which logs nothing.\<close>

definition logged_unprivileged_operation ::
  "('h, 'c, 'g, 'v) cluster_api \<Rightarrow> bootstrap_settings \<Rightarrow> env_vars \<Rightarrow> lifecycle_step \<Rightarrow> 'g option \<Rightarrow> world \<Rightarrow>
     'g logged_invoked" where
  "logged_unprivileged_operation A b env_vars step s w =
     (case step of
        SetupStep \<Rightarrow> logged_invoke A b env_vars OpSetup (server_call (pg_setup (ca_pg A))) s w
      | StartStep \<Rightarrow> logged_invoke A b env_vars OpStart (server_call (pg_start (ca_pg A))) s w)"

definition logged_steps ::
  "('h, 'c, 'g, 'v::linorder) cluster_api \<Rightarrow>
     (bootstrap_settings \<Rightarrow> lifecycle_step \<Rightarrow> 'g option \<Rightarrow> world \<Rightarrow> 'g logged_invoked) \<Rightarrow> bootstrap_settings \<Rightarrow> 'g option \<Rightarrow>
     world \<Rightarrow> ((bootstrap_error + bootstrap_settings) \<times> 'g option \<times> world) \<times> log_event list" where
  "logged_steps A operation b s w =
     (case operation b SetupStep s w of
        ((Inl e, s1, w1), l1) \<Rightarrow> ((Inl e, s1, w1), l1)
      | ((Inr _, s1, w1), l1) \<Rightarrow>
          let b1 = refresh_worker_installation_dir (ca_versions A) b w1 in
          (case operation b1 StartStep s1 w1 of
             ((Inl e, s2, w2), l2) \<Rightarrow> ((Inl e, s2, w2), l1 @ l2)
           | ((Inr _, s2, w2), l2) \<Rightarrow>
               (case refresh_worker_port (ca_later A w2) b1 of
                  (Inl e, _) \<Rightarrow> ((Inl e, s2, w2), l1 @ l2)
                | (Inr _, b2) \<Rightarrow> ((Inr b2, s2, w2), l1 @ l2))))"

definition logged_lifecycle where
  "logged_lifecycle A b env_vars s w =
     logged_steps A (\<lambda>b step s w. logged_unprivileged_operation A b env_vars step s w) b s w"

definition logged_lifecycle_async where
  "logged_lifecycle_async A b env_vars s w =
     logged_steps A (\<lambda>b step s w. case step of
        SetupStep \<Rightarrow> logged_invoke_async A b env_vars OpSetup (server_call (pg_setup (ca_pg A))) s w
      | StartStep \<Rightarrow> logged_invoke_async A b env_vars OpStart (server_call (pg_start (ca_pg A))) s w) b s w"

definition logged_lifecycle_root_async where
  "logged_lifecycle_root_async A b env_vars w =
     (case logged_steps A (\<lambda>b step s w. logged_invoke_async A b env_vars (step_operation step) (\<lambda>s w. (Inr (), s, w)) s w)
         b None w of
        ((r, _, w'), log) \<Rightarrow> ((r, w'), log))"

type_synonym 'a logged_boot = "((bootstrap_error + 'a) \<times> world) \<times> log_event list"

definition logged_privilege_lifecycle ::
  "('h, 'c, 'g, 'v::linorder) cluster_api \<Rightarrow> bool \<Rightarrow> execution_privileges \<Rightarrow> bootstrap_settings \<Rightarrow> env_vars \<Rightarrow> world \<Rightarrow>
     (bool \<times> 'g option \<times> bootstrap_settings) logged_boot" where
  "logged_privilege_lifecycle A is_async privileges b env_vars w =
     (if privileges = Root then
        (case (if is_async then logged_lifecycle_root_async A b env_vars w
               else (invoke_lifecycle_root A b env_vars w, [])) of
           ((Inl e, w'), log) \<Rightarrow> ((Inl e, w'), log)
         | ((Inr b', w'), log) \<Rightarrow> ((Inr (True, None, b'), w'), log))
      else
        (case (if is_async then logged_lifecycle_async A b env_vars (Some (pg_new (ca_pg A) (bs_settings b))) w
               else logged_lifecycle A b env_vars (Some (pg_new (ca_pg A) (bs_settings b))) w) of
           ((Inl e, s, w'), log) \<Rightarrow> ((Inl e, drop_server (ca_pg A) s w'), log)
         | ((Inr b', s, w'), log) \<Rightarrow>
             (case prepare_postgres_handle (ca_pg A) False b' s of
                (postgres, b'') \<Rightarrow> ((Inr (False, postgres, b''), w'), log))))"

text \<open>\<open>start_postgres\<close>, and \<open>start_postgres_async\<close> with \<open>is_async\<close>.\<close>

definition logged_start_postgres ::
  "('h, 'c, 'g, 'v::linorder) cluster_api \<Rightarrow> bool \<Rightarrow> bootstrap_settings \<Rightarrow> env_vars \<Rightarrow> pathbuf \<Rightarrow> world \<Rightarrow>
     'g startup_outcome logged_boot option" where
  "logged_start_postgres A is_async b env_vars cache_dir w =
     (let privileges = bs_privileges b; version_req = st_version (bs_settings b);
          starting = LifecycleStarting privileges (bs_execution_mode b) is_async in
      case try_use_binary_cache (ca_versions A) (ca_flock_shared A) cache_dir version_req b w of
        None \<Rightarrow> None
      | Some ((cache_hit, b1), w1) \<Rightarrow>
          (case logged_privilege_lifecycle A is_async privileges b1 env_vars w1 of
             ((Inl e, w2), log) \<Rightarrow> Some ((Inl e, w2), starting # log)
           | ((Inr (is_managed_via_worker, postgres, b2), w2), log) \<Rightarrow>
               map_option (\<lambda>w3. ((Inr \<lparr>so_bootstrap = b2, so_postgres = postgres, so_managed = is_managed_via_worker\<rparr>, w3),
                   starting # log @ [LifecycleStarted privileges is_managed_via_worker cache_hit is_async]))
                 (populate_cache_on_miss A cache_hit cache_dir b2 w2)))"

definition logged_setup_lifecycle ::
  "('h, 'c, 'g, 'v::linorder) cluster_api \<Rightarrow> bootstrap_settings \<Rightarrow> env_vars \<Rightarrow> pathbuf \<Rightarrow> world \<Rightarrow>
     bootstrap_settings logged_boot option" where
  "logged_setup_lifecycle A b env_vars cache_dir w =
     (let privileges = bs_privileges b; version_req = st_version (bs_settings b);
          starting = LifecycleStarting privileges (bs_execution_mode b) False in
      case try_use_binary_cache (ca_versions A) (ca_flock_shared A) cache_dir version_req b w of
        None \<Rightarrow> None
      | Some ((cache_hit, b1), w1) \<Rightarrow>
          (case
            (if privileges = Root then (invoke_root_operation A b1 env_vars SetupStep w1, [])
             else (case logged_unprivileged_operation A b1 env_vars SetupStep (Some (pg_new (ca_pg A) (bs_settings b1))) w1 of
               ((r, s, w'), log) \<Rightarrow> ((r, drop_server (ca_pg A) s w'), log)))
           of
             ((Inl e, w2), log) \<Rightarrow> Some ((Inl e, w2), starting # log)
           | ((Inr _, w2), log) \<Rightarrow>
               let b2 = refresh_worker_installation_dir (ca_versions A) b1 w2 in
               map_option (\<lambda>w3. ((Inr b2, w3), starting # log @ [SetupComplete privileges cache_hit]))
                 (populate_cache_on_miss A cache_hit cache_dir b2 w2)))"

section \<open>Stopping\<close>

text \<open>\<open>display\<close> of a path is its lossy text.\<close>

definition stop_context :: "settings \<Rightarrow> string" where
  "stop_context s = ''version '' @ st_version s @ '', data_dir '' @ utf8_lossy (st_data_dir s)"

definition logged_cleanup_in_process :: "cleanup_mode \<Rightarrow> settings \<Rightarrow> string \<Rightarrow> world \<Rightarrow> world \<times> log_event list" where
  "logged_cleanup_in_process m s ctx w =
     (if m = NoCleanup then (w, [])
      else case cleanup_in_process m s w of (events, w') \<Rightarrow> (w', CleanupStart m ctx # map (Cleaned ctx) events))"

definition logged_worker_cleanup ::
  "('h, 'c, 'g, 'v) cluster_api \<Rightarrow> bootstrap_settings \<Rightarrow> env_vars \<Rightarrow> string \<Rightarrow> world \<Rightarrow> world \<times> log_event list" where
  "logged_worker_cleanup A b env_vars ctx w =
     (case cleanup_operation (bs_cleanup_mode b) of
        None \<Rightarrow> (w, [])
      | Some oper \<Rightarrow>
          (case invoke_as_root A b env_vars oper w of
             (Inl e, w') \<Rightarrow> (w', [WorkerCleanup ctx oper, WorkerCleanupFailed ctx oper e])
           | (Inr _, w') \<Rightarrow> (w', [WorkerCleanup ctx oper])))"

definition logged_stop_worker_managed ::
  "('h, 'c, 'g, 'v) cluster_api \<Rightarrow> bootstrap_settings \<Rightarrow> env_vars \<Rightarrow> string \<Rightarrow> world \<Rightarrow> unit logged_boot" where
  "logged_stop_worker_managed A b env_vars ctx w =
     (case invoke_as_root A b env_vars OpStop w of
        (Inl e, w1) \<Rightarrow> ((Inl e, w1), [WorkerStopFailed ctx e])
      | (Inr _, w1) \<Rightarrow>
          (case logged_worker_cleanup A b env_vars ctx w1 of
             (w2, l1) \<Rightarrow>
               (case logged_cleanup_in_process (bs_cleanup_mode b) (bs_settings b) ctx w2 of
                  (w3, l2) \<Rightarrow> ((Inr (), w3), l1 @ l2))))"

definition logged_drop_sync_cluster ::
  "('h, 'c, 'g, 'v) cluster_api \<Rightarrow> bool \<Rightarrow> 'g option \<Rightarrow> bootstrap_settings \<Rightarrow> env_vars \<Rightarrow> string \<Rightarrow> world \<Rightarrow>
     world \<times> log_event list" where
  "logged_drop_sync_cluster A is_managed_via_worker postgres b env_vars ctx w =
     (if is_managed_via_worker then
        (case logged_stop_worker_managed A b env_vars ctx w of ((_, w'), log) \<Rightarrow> (w', log))
      else case postgres of
        None \<Rightarrow> (w, [])
      | Some pg \<Rightarrow>
          (case stop_server A (bs_shutdown_timeout b) pg w of
             (outcome, s, w1) \<Rightarrow>
               let w2 = drop_server (ca_pg A) s w1 in
               (case outcome of
                  Some (Inr _) \<Rightarrow> logged_cleanup_in_process (bs_cleanup_mode b) (bs_settings b) ctx w2
                | Some (Inl e) \<Rightarrow> (w2, [ServerStopFailed ctx e])
                | None \<Rightarrow> (w2, [StopTimedOut (as_secs (bs_shutdown_timeout b)) ctx]))))"

definition logged_drop_async_cluster ::
  "('h, 'c, 'g, 'v) cluster_api \<Rightarrow> bool \<Rightarrow> bool \<Rightarrow> 'g option \<Rightarrow> bootstrap_settings \<Rightarrow> env_vars \<Rightarrow> string \<Rightarrow> world \<Rightarrow>
     ('g stop_task option \<times> world) \<times> log_event list" where
  "logged_drop_async_cluster A in_runtime is_managed_via_worker postgres b env_vars ctx w =
     (let missing = (if in_runtime then [] else [NoRuntimeForCleanup ctx]) in
      if is_managed_via_worker then
        ((drop_async_worker_managed in_runtime b env_vars, w), AsyncDropWithoutStop ctx # missing)
      else case postgres of
        Some pg \<Rightarrow>
          (drop_async_in_process A in_runtime (bs_shutdown_timeout b) (bs_cleanup_mode b) (bs_settings b) pg w,
           AsyncDropWithoutStop ctx # missing)
      | None \<Rightarrow> ((None, w), [AsyncDropWithoutStop ctx]))"

definition logged_perform_shutdown ::
  "('h, 'c, 'g, 'v) cluster_api \<Rightarrow> bool \<Rightarrow> 'g cluster_guard \<Rightarrow> world \<Rightarrow>
     ('g stop_task option \<times> world) \<times> log_event list" where
  "logged_perform_shutdown A in_runtime cg w =
     (let ctx = stop_context (bs_settings (cg_bootstrap cg));
          is_async = runtime_is_async (cg_runtime cg);
          stopping = ClusterStopping ctx (cg_managed cg) is_async in
      if is_async then
        (case logged_drop_async_cluster A in_runtime (cg_managed cg) (cg_postgres cg) (cg_bootstrap cg) (cg_env_vars cg) ctx w of
           (r, log) \<Rightarrow> (r, stopping # log))
      else
        (case logged_drop_sync_cluster A (cg_managed cg) (cg_postgres cg) (cg_bootstrap cg) (cg_env_vars cg) ctx w of
           (w', log) \<Rightarrow> ((None, w'), stopping # log)))"

definition logged_drop_cluster_guard ::
  "('h, 'c, 'g, 'v) cluster_api \<Rightarrow> nat \<Rightarrow> bool \<Rightarrow> 'g cluster_guard \<Rightarrow> scope_state \<Rightarrow> world \<Rightarrow>
     (unit ctl \<times> 'g stop_task option \<times> scope_state \<times> world) \<times> log_event list" where
  "logged_drop_cluster_guard A t in_runtime cg s w =
     (case (if should_skip_shutdown cg then ((None, w), []) else logged_perform_shutdown A in_runtime cg w) of
        ((task, w1), log) \<Rightarrow>
          (case drop_scopes t cg s of (r, s1) \<Rightarrow> ((r, task, s1, with_env s1 w1), log)))"

definition logged_stop_in_process_async ::
  "('h, 'c, 'g, 'v) cluster_api \<Rightarrow> 'g \<Rightarrow> duration \<Rightarrow> cleanup_mode \<Rightarrow> settings \<Rightarrow> string \<Rightarrow> world \<Rightarrow> unit logged_boot" where
  "logged_stop_in_process_async A pg timeout mode s ctx w =
     (case stop_server A timeout pg w of
        (outcome, srv, w1) \<Rightarrow>
          (case (case outcome of
                Some (Inr _) \<Rightarrow> (Inr (), [])
              | Some (Inl e) \<Rightarrow> (Inl (bootstrap_msg (''failed to stop postgres: '' @ ca_show_pg A e)), [ServerStopFailed ctx e])
              | None \<Rightarrow> (Inl (bootstrap_msg (''stop timed out after '' @ show_nat (as_secs timeout) @ ''s'')),
                  [StopTimedOut (as_secs timeout) ctx])) of
             (result, l1) \<Rightarrow>
               (case (if is_ok result then logged_cleanup_in_process mode s ctx w1 else (w1, [])) of
                  (w2, l2) \<Rightarrow> ((result, drop_server (ca_pg A) srv w2), l1 @ l2))))"

section \<open>Settings\<close>

record sanitized_settings =
  sn_version :: string
  sn_host :: string
  sn_port :: nat
  sn_installation_dir :: string
  sn_data_dir :: string
  sn_password_file :: string
  sn_username :: string
  sn_password :: string
  sn_temporary :: bool
  sn_timeout_secs :: "nat option"
  sn_trust_installation_dir :: bool
  sn_configuration_keys :: "string list"

definition sorted_configuration_keys :: "settings \<Rightarrow> string list" where
  "sorted_configuration_keys s = sorted_list_of_set (dom (st_configuration s))"

definition log_sanitized_settings :: "settings \<Rightarrow> sanitized_settings" where
  "log_sanitized_settings s =
     \<lparr>sn_version = st_version s, sn_host = st_host s, sn_port = st_port s,
      sn_installation_dir = utf8_lossy (st_installation_dir s), sn_data_dir = utf8_lossy (st_data_dir s),
      sn_password_file = utf8_lossy (st_password_file s), sn_username = st_username s, sn_password = ''<redacted>'',
      sn_temporary = st_temporary s, sn_timeout_secs = map_option as_secs (st_timeout s),
      sn_trust_installation_dir = st_trust_installation_dir s, sn_configuration_keys = sorted_configuration_keys s\<rparr>"

section \<open>Lemmas\<close>

text \<open>How an operation begins, and the two events of one.\<close>

definition begin_event :: "bootstrap_settings \<Rightarrow> bool \<Rightarrow> worker_operation \<Rightarrow> log_event" where
  "begin_event b is_async oper =
     (case bs_privileges b of
        Unprivileged \<Rightarrow> InProcessStart oper is_async
      | Root \<Rightarrow> WorkerDispatch oper (bs_worker_binary b) is_async)"

lemma logged_invoke_eq:
  "logged_invoke A b env_vars oper future s w =
     (invoke A b env_vars oper future s w,
      [begin_event b False oper, log_outcome oper (fst (invoke A b env_vars oper future s w))])"
  by (simp add: logged_invoke_def logged_run_unprivileged_def logged_run_root_def invoke_def dispatch_operation_def
      run_unprivileged_def run_root_def begin_event_def split: execution_privileges.split prod.split)

lemma logged_invoke_async_eq:
  "logged_invoke_async A b env_vars oper future s w =
     (dispatch_operation_async A b env_vars oper future s w,
      [begin_event b True oper, log_outcome oper (fst (dispatch_operation_async A b env_vars oper future s w))])"
  by (simp add: logged_invoke_async_def dispatch_operation_async_def begin_event_def
      split: execution_privileges.split prod.split)

lemma logged_unprivileged_eq:
  "logged_unprivileged_operation A b env_vars step s w =
     (invoke_unprivileged_operation A b env_vars step s w,
      [begin_event b False (step_operation step),
       log_outcome (step_operation step) (fst (invoke_unprivileged_operation A b env_vars step s w))])"
  by (cases step) (simp_all add: logged_unprivileged_operation_def invoke_unprivileged_operation_def logged_invoke_eq)

text \<open>Logging changes nothing.\<close>

lemma erase_lifecycle: "fst (logged_lifecycle A b env_vars s w) = invoke_lifecycle A b env_vars s w"
  by (simp add: logged_lifecycle_def logged_steps_def invoke_lifecycle_def logged_unprivileged_eq Let_def
      split: prod.split sum.split)

lemma erase_lifecycle_async: "fst (logged_lifecycle_async A b env_vars s w) = invoke_lifecycle_async A b env_vars s w"
  by (simp add: logged_lifecycle_async_def logged_steps_def invoke_lifecycle_async_def invoke_lifecycle_steps_async_def
      logged_invoke_async_eq Let_def split: prod.split sum.split)

lemma erase_lifecycle_root_async:
  "fst (logged_lifecycle_root_async A b env_vars w) = invoke_lifecycle_root_async A b env_vars w"
  by (simp add: logged_lifecycle_root_async_def logged_steps_def invoke_lifecycle_root_async_def
      invoke_lifecycle_steps_async_def logged_invoke_async_eq Let_def split: prod.split sum.split)

lemma erase_privilege_lifecycle:
  "fst (logged_privilege_lifecycle A False p b env_vars w) = handle_privilege_lifecycle A p b env_vars w"
  using erase_lifecycle [of A b env_vars "Some (pg_new (ca_pg A) (bs_settings b))" w]
  by (auto simp: logged_privilege_lifecycle_def handle_privilege_lifecycle_def try_st_def split: prod.split sum.split)

lemma erase_start: "map_option fst (logged_start_postgres A False b env_vars c w) = start_postgres A b env_vars c w"
proof (cases "try_use_binary_cache (ca_versions A) (ca_flock_shared A) c (st_version (bs_settings b)) b w")
  case (Some x)
  obtain hit b1 w1 where x: "x = ((hit, b1), w1)" by (metis surj_pair)
  show ?thesis
    using erase_privilege_lifecycle [of A "bs_privileges b" b1 env_vars w1, symmetric]
    by (simp add: logged_start_postgres_def start_postgres_def Some x Let_def option.map_comp comp_def
        split: prod.split sum.split)
qed (simp add: logged_start_postgres_def start_postgres_def)

lemma erase_start_async:
  "map_option fst (logged_start_postgres A True b env_vars c w) = start_postgres_async A b env_vars c w"
proof (cases "try_use_binary_cache (ca_versions A) (ca_flock_shared A) c (st_version (bs_settings b)) b w")
  case (Some x)
  obtain hit b1 w1 where x: "x = ((hit, b1), w1)" by (metis surj_pair)
  show ?thesis
    using erase_lifecycle_root_async [of A b1 env_vars w1, symmetric]
      erase_lifecycle_async [of A b1 env_vars "Some (pg_new (ca_pg A) (bs_settings b1))" w1, symmetric]
    by (simp add: logged_start_postgres_def start_postgres_async_def logged_privilege_lifecycle_def Some x Let_def try_st_def
        option.map_comp comp_def split: prod.split sum.split)
qed (simp add: logged_start_postgres_def start_postgres_async_def)

lemma erase_setup: "map_option fst (logged_setup_lifecycle A b env_vars c w) = setup_lifecycle A b env_vars c w"
proof (cases "try_use_binary_cache (ca_versions A) (ca_flock_shared A) c (st_version (bs_settings b)) b w")
  case (Some x)
  obtain hit b1 w1 where x: "x = ((hit, b1), w1)" by (metis surj_pair)
  show ?thesis
    by (simp add: logged_setup_lifecycle_def setup_lifecycle_def setup_with_privileges_def logged_unprivileged_eq Some x Let_def
        option.map_comp comp_def split: prod.split sum.split)
qed (simp add: logged_setup_lifecycle_def setup_lifecycle_def)

text \<open>What the events of a lifecycle say of its result.\<close>

definition tells :: "(worker_operation \<Rightarrow> log_event) \<Rightarrow> bootstrap_error + 'a \<Rightarrow> log_event list \<Rightarrow> bool" where
  "tells start r log \<longleftrightarrow>
     (case r of
        Inr _ \<Rightarrow> log = [start OpSetup, OperationCompleted OpSetup, start OpStart, OperationCompleted OpStart]
      | Inl e \<Rightarrow>
          log = [start OpSetup, OperationFailed OpSetup e] \<or>
          log = [start OpSetup, OperationCompleted OpSetup, start OpStart, OperationFailed OpStart e] \<or>
          log = [start OpSetup, OperationCompleted OpSetup, start OpStart, OperationCompleted OpStart])"

lemma refresh_dir_keeps_worker [simp]:
  "bs_worker_binary (refresh_worker_installation_dir VA b w) = bs_worker_binary b"
  by (simp add: refresh_worker_installation_dir_def split: option.split)

lemma use_cache_keeps_worker:
  "try_use_binary_cache VA flock dir req b w = Some ((hit, b1), w1) \<Longrightarrow> bs_worker_binary b1 = bs_worker_binary b"
  by (auto simp: try_use_binary_cache_def apply_cached_binaries_def
      split: option.splits sum.splits cache_lookup.splits prod.splits)

lemma steps_tell:
  assumes "\<And>b' step s w. snd (operation b' step s w) =
      [begin_event b' is_async (step_operation step), log_outcome (step_operation step) (fst (fst (operation b' step s w)))]"
    and "logged_steps A operation b s w = ((r, s', w'), log)"
  shows "tells (begin_event b is_async) r log"
proof -
  have same: "begin_event (refresh_worker_installation_dir VA b w) = begin_event b" for VA w
    by (simp add: begin_event_def fun_eq_iff split: execution_privileges.split)
  obtain r1 s1 w1 l1 where o1: "operation b SetupStep s w = ((r1, s1, w1), l1)" by (metis surj_pair)
  let ?b = "refresh_worker_installation_dir (ca_versions A) b w1"
  obtain r2 s2 w2 l2 where o2: "operation ?b StartStep s1 w1 = ((r2, s2, w2), l2)" by (metis surj_pair)
  from assms(1) [of b SetupStep s w] assms(1) [of ?b StartStep s1 w1]
  have "l1 = [begin_event b is_async OpSetup, log_outcome OpSetup r1]" "l2 = [begin_event b is_async OpStart, log_outcome OpStart r2]"
    by (simp_all add: o1 o2 same)
  with assms(2) o1 o2 show ?thesis
    by (auto simp: logged_steps_def tells_def log_outcome_def Let_def split: sum.splits prod.splits)
qed

lemma lifecycle_tells:
  "logged_lifecycle A b env_vars s w = ((r, s', w'), log) \<Longrightarrow> tells (begin_event b False) r log"
  unfolding logged_lifecycle_def by (rule steps_tell) (simp_all add: logged_unprivileged_eq)

lemma lifecycle_async_tells:
  "logged_lifecycle_async A b env_vars s w = ((r, s', w'), log) \<Longrightarrow> tells (begin_event b True) r log"
  unfolding logged_lifecycle_async_def
  by (rule steps_tell) (simp_all add: logged_invoke_async_eq split: lifecycle_step.split)

lemma lifecycle_root_async_tells:
  assumes "logged_lifecycle_root_async A b env_vars w = ((r, w'), log)"
  shows "tells (begin_event b True) r log"
proof -
  obtain s' where "logged_steps A (\<lambda>b step s w. logged_invoke_async A b env_vars (step_operation step) (\<lambda>s w. (Inr (), s, w)) s w)
      b None w = ((r, s', w'), log)"
    using assms by (auto simp: logged_lifecycle_root_async_def split: prod.splits)
  then show ?thesis by (rule steps_tell [rotated]) (simp add: logged_invoke_async_eq)
qed

lemma tells_map: "tells start (map_err f r) log \<Longrightarrow> (case r of Inl e \<Rightarrow> f e = e | _ \<Rightarrow> True) \<Longrightarrow> tells start r log"
  by (auto simp: tells_def map_err_def split: sum.splits)

lemma privilege_lifecycle_tells:
  assumes "logged_privilege_lifecycle A is_async p b env_vars w = ((r, w'), log)" "p = bs_privileges b"
  shows "if p = Root \<and> \<not> is_async then log = [] else tells (begin_event b is_async) r log"
proof (cases "p = Root")
  case True
  with assms(1) lifecycle_root_async_tells [of A b env_vars w] show ?thesis
    by (auto simp: logged_privilege_lifecycle_def tells_def split: prod.splits sum.splits if_splits)
next
  case False
  with assms(1) lifecycle_tells [of A b env_vars "Some (pg_new (ca_pg A) (bs_settings b))" w]
    lifecycle_async_tells [of A b env_vars "Some (pg_new (ca_pg A) (bs_settings b))" w]
  show ?thesis
    by (auto simp: logged_privilege_lifecycle_def tells_def split: prod.splits sum.splits if_splits)
qed

text \<open>The same of a stop.\<close>

lemma erase_cleanup [simp]: "fst (logged_cleanup_in_process m s ctx w) = snd (cleanup_in_process m s w)"
  by (simp add: logged_cleanup_in_process_def cleanup_in_process_def split: prod.split)

lemma quiet_cleanup:
  "\<not> list_ex alarming (snd (logged_cleanup_in_process m s ctx w)) \<longleftrightarrow>
     list_all (\<lambda>e. \<not> event_is_warning e) (fst (cleanup_in_process m s w))"
proof (cases "m = NoCleanup")
  case False
  then show ?thesis
    by (simp add: logged_cleanup_in_process_def case_prod_beta list_ex_iff list_all_iff)
qed (simp add: logged_cleanup_in_process_def cleanup_in_process_def)

lemma erase_worker_cleanup [simp]:
  "fst (logged_worker_cleanup A b env_vars ctx w) = cleanup_worker_managed_with_runtime A b env_vars w"
  by (simp add: logged_worker_cleanup_def cleanup_worker_managed_with_runtime_def split: option.split prod.split sum.split)

lemma logged_stop_worker_eq:
  "logged_stop_worker_managed A b env_vars ctx w =
     (stop_worker_managed_with_runtime A b env_vars w,
      case invoke_as_root A b env_vars OpStop w of
        (Inl e, _) \<Rightarrow> [WorkerStopFailed ctx e]
      | (Inr _, w1) \<Rightarrow> snd (logged_worker_cleanup A b env_vars ctx w1) @
          snd (logged_cleanup_in_process (bs_cleanup_mode b) (bs_settings b) ctx
            (cleanup_worker_managed_with_runtime A b env_vars w1)))"
  by (simp add: logged_stop_worker_managed_def stop_worker_managed_with_runtime_def case_prod_beta split: sum.split)

lemma erase_drop_sync:
  "fst (logged_drop_sync_cluster A m pg b env_vars ctx w) = drop_sync_cluster A m pg b env_vars w"
  by (auto simp: logged_drop_sync_cluster_def drop_sync_cluster_def logged_stop_worker_eq case_prod_beta Let_def
      split: option.split sum.split)

lemma erase_drop_async:
  "fst (logged_drop_async_cluster A rt m pg b env_vars ctx w) = drop_async_cluster A rt m pg b env_vars w"
  by (simp add: logged_drop_async_cluster_def drop_async_cluster_def Let_def split: option.split)

lemma erase_shutdown: "fst (logged_perform_shutdown A rt cg w) = perform_shutdown A rt cg w"
  by (simp add: logged_perform_shutdown_def perform_shutdown_def case_prod_beta Let_def erase_drop_sync erase_drop_async)

lemma erase_drop: "fst (logged_drop_cluster_guard A t rt cg s w) = drop_cluster_guard A t rt cg s w"
  by (simp add: logged_drop_cluster_guard_def drop_cluster_guard_def case_prod_beta erase_shutdown)

lemma erase_stop_in_process:
  "fst (logged_stop_in_process_async A pg timeout m s ctx w) = stop_in_process_async A pg timeout m s w"
  by (auto simp: logged_stop_in_process_async_def stop_in_process_async_def case_prod_beta Let_def is_ok_def
      split: option.split sum.split)

text \<open>A shutdown without alarms is that of a guard with a runtime of its own, and its cluster has stopped and was cleaned up.\<close>

lemma quiet_shutdown:
  assumes quiet: "\<not> list_ex alarming (snd (logged_perform_shutdown A rt cg w))"
    and "\<not> should_skip_shutdown cg"
  obtains v where "cg_runtime cg = SyncRuntime" "stopped_world A cg w = Some v"
    "list_all (\<lambda>e. \<not> event_is_warning e)
       (fst (cleanup_in_process (bs_cleanup_mode (cg_bootstrap cg)) (bs_settings (cg_bootstrap cg)) v))"
proof -
  let ?ctx = "stop_context (bs_settings (cg_bootstrap cg))"
  let ?log = "snd (logged_drop_sync_cluster A (cg_managed cg) (cg_postgres cg) (cg_bootstrap cg) (cg_env_vars cg) ?ctx w)"
  have sync: "cg_runtime cg = SyncRuntime"
    using quiet by (cases "cg_runtime cg")
      (auto simp: logged_perform_shutdown_def logged_drop_async_cluster_def runtime_is_async_def Let_def case_prod_beta
        split: if_splits option.splits)
  with quiet have log: "\<not> list_ex alarming ?log"
    by (simp add: logged_perform_shutdown_def runtime_is_async_def Let_def case_prod_beta)
  note cleanup = quiet_cleanup [of "bs_cleanup_mode (cg_bootstrap cg)" "bs_settings (cg_bootstrap cg)" ?ctx]
  show thesis
  proof (cases "cg_managed cg")
    case True
    with log cleanup show thesis
      by (intro that [of "the (stopped_world A cg w)"] sync)
        (auto simp: logged_drop_sync_cluster_def logged_stop_worker_eq stopped_world_def case_prod_beta Let_def
          split: sum.splits prod.splits)
  next
    case False
    with assms(2) obtain pg where "cg_postgres cg = Some pg" by (auto simp: should_skip_shutdown_def)
    with False log cleanup sync show thesis
      by (intro that [of "the (stopped_world A cg w)"] sync)
        (auto simp: logged_drop_sync_cluster_def stopped_world_def runtime_is_async_def Let_def
          split: sum.splits prod.splits option.splits if_splits)
  qed
qed

section \<open>Properties\<close>



text \<open>
  The logged settings keep their secrets: the event is the same whatever the password is, and whatever values the
  configuration has; of the configuration it shows the keys, each once and in order.
\<close>

theorem sanitized_settings_hide_secrets:
  assumes "dom c = dom (st_configuration s)" and "finite (dom c)"
  shows "log_sanitized_settings (s\<lparr>st_password := p, st_configuration := c\<rparr>) = log_sanitized_settings s \<and>
    sn_password (log_sanitized_settings s) = ''<redacted>'' \<and>
    set (sn_configuration_keys (log_sanitized_settings s)) = dom c \<and>
    sorted_wrt (<) (sn_configuration_keys (log_sanitized_settings s))"
  using assms by (simp add: log_sanitized_settings_def sorted_configuration_keys_def)

section \<open>Examples\<close>

definition idle_bootstrap :: bootstrap_settings where
  "idle_bootstrap = pid_bootstrap\<lparr>bs_settings := demo_settings\<lparr>st_installation_dir := ''/i'', st_data_dir := ''/d'',
     st_password_file := ''/i/.pgpass'', st_socket_dir := None\<rparr>\<rparr>"



theorem sanitized_settings_hide_secrets_witness:
  "sn_configuration_keys (log_sanitized_settings (demo_settings\<lparr>st_configuration := [''b'' \<mapsto> ''1'', ''a'' \<mapsto> ''2'']\<rparr>)) = [''a'', ''b'']"
proof -
  let ?c = "[''b'' \<mapsto> ''x'', ''a'' \<mapsto> ''y'']" and ?s = "demo_settings\<lparr>st_configuration := [''b'' \<mapsto> ''1'', ''a'' \<mapsto> ''2'']\<rparr>"
  have "dom ?c = dom (st_configuration ?s)" "finite (dom ?c)" by auto
  from sanitized_settings_hide_secrets [OF this, of "[]"]
  have "set (sn_configuration_keys (log_sanitized_settings ?s)) = {''a'', ''b''}"
    "sorted_wrt (<) (sn_configuration_keys (log_sanitized_settings ?s))" by auto
  moreover have "sorted_wrt (<) [''a'', ''b'']" by code_simp
  ultimately show ?thesis by (intro strict_sorted_equal) simp_all
qed

end
