(* ===== verification/Root_Hook.thy ===== *)
theory Root_Hook
  imports Cluster_Stop
begin

text \<open>
  The hooks with which the repository's tests stand in for the worker and for the setup: the slot of
  \<open>src/src/test_support/hook.rs\<close> and what \<open>execute_root_operation\<close> (\<open>cluster/worker_invoker/mod.rs\<close>) does with it,
  and the slot of \<open>bootstrap/mod.rs\<close>. The slots are statics behind mutexes that are taken over when poisoned, so that
  each access is one step. In a build without the tests there are no hooks, and the operations are those of
  \<open>Cluster_Start\<close> and \<open>Cluster_Stop\<close>.
\<close>

section \<open>The slot\<close>

type_synonym root_hook = "bootstrap_settings \<Rightarrow> env_vars \<Rightarrow> worker_operation \<Rightarrow> world \<Rightarrow> unit boot_run"

record root_hooks =
  rh_slot :: "root_hook option"
  rh_logs :: "string list"

datatype hook_install_error = AlreadyInstalled

definition no_hooks :: root_hooks where
  "no_hooks = \<lparr>rh_slot = None, rh_logs = []\<rparr>"

definition run_root_operation_hook :: "root_hooks \<Rightarrow> root_hook option" where
  "run_root_operation_hook st = rh_slot st"

definition drain_hook_install_logs :: "root_hooks \<Rightarrow> string list \<times> root_hooks" where
  "drain_hook_install_logs st = (rh_logs st, st\<lparr>rh_logs := []\<rparr>)"

text \<open>The name of the thread, if it has one, and its identifier as \<open>Debug\<close> shows it.\<close>

definition capture_thread_scope :: "string option \<Rightarrow> string \<Rightarrow> string" where
  "capture_thread_scope thread_name thread_id =
     (case thread_name of None \<Rightarrow> ''unnamed'' | Some n \<Rightarrow> n) @ '' ('' @ thread_id @ '')''"

definition record_duplicate_install :: "string \<Rightarrow> root_hooks \<Rightarrow> root_hooks" where
  "record_duplicate_install message st = st\<lparr>rh_logs := rh_logs st @ [message]\<rparr>"

definition log_duplicate_install :: "string \<Rightarrow> root_hooks \<Rightarrow> root_hooks" where
  "log_duplicate_install thread_label st =
     record_duplicate_install (''run_root_operation_hook already installed by thread '' @ thread_label) st"

definition register_hook :: "root_hook \<Rightarrow> string \<Rightarrow> root_hooks \<Rightarrow> (hook_install_error + unit) \<times> root_hooks" where
  "register_hook hook thread_label st =
     (if rh_slot st \<noteq> None then (Inl AlreadyInstalled, log_duplicate_install thread_label st)
      else (Inr (), st\<lparr>rh_slot := Some hook\<rparr>))"

text \<open>The guard itself holds nothing.\<close>

definition install_run_root_operation_hook ::
  "root_hook \<Rightarrow> string option \<Rightarrow> string \<Rightarrow> root_hooks \<Rightarrow> (hook_install_error + unit) \<times> root_hooks" where
  "install_run_root_operation_hook hook thread_name thread_id st =
     register_hook hook (capture_thread_scope thread_name thread_id) st"

definition drop_hook_guard :: "root_hooks \<Rightarrow> root_hooks" where
  "drop_hook_guard st = st\<lparr>rh_slot := None\<rparr>"

section \<open>Operations under a hook\<close>

definition hooked_root_operation ::
  "root_hooks \<Rightarrow> ('h, 'c, 'g, 'v) cluster_api \<Rightarrow> bootstrap_settings \<Rightarrow> env_vars \<Rightarrow> worker_operation \<Rightarrow> world \<Rightarrow>
     unit boot_run" where
  "hooked_root_operation st A b env_vars oper w =
     (case run_root_operation_hook st of
        Some hook \<Rightarrow> hook b env_vars oper w
      | None \<Rightarrow> execute_root_operation A b env_vars oper w)"

definition invoke_with_privileges ::
  "root_hooks \<Rightarrow> ('h, 'c, 'g, 'v) cluster_api \<Rightarrow> bootstrap_settings \<Rightarrow> env_vars \<Rightarrow> worker_operation \<Rightarrow> 'g future \<Rightarrow>
     'g option \<Rightarrow> world \<Rightarrow> 'g invoked" where
  "invoke_with_privileges st A b env_vars oper future s w =
     (case bs_privileges b of
        Unprivileged \<Rightarrow> run_unprivileged A b oper future s w
      | Root \<Rightarrow> (case hooked_root_operation st A b env_vars oper w of (r, w') \<Rightarrow> (r, s, w')))"

definition hooked_lifecycle_root ::
  "root_hooks \<Rightarrow> ('h, 'c, 'g, 'v::linorder) cluster_api \<Rightarrow> bootstrap_settings \<Rightarrow> env_vars \<Rightarrow> world \<Rightarrow>
     bootstrap_settings boot_run" where
  "hooked_lifecycle_root st A b env_vars w =
     try_st (hooked_root_operation st A b env_vars OpSetup w) (\<lambda>_ w1.
     let b1 = refresh_worker_installation_dir (ca_versions A) b w1 in
     try_st (hooked_root_operation st A b1 env_vars OpStart w1) (\<lambda>_ w2.
     case refresh_worker_port (ca_later A w2) b1 of
       (Inl e, _) \<Rightarrow> (Inl e, w2)
     | (Inr _, b2) \<Rightarrow> (Inr b2, w2)))"

definition hooked_stop_worker_managed ::
  "root_hooks \<Rightarrow> ('h, 'c, 'g, 'v) cluster_api \<Rightarrow> bootstrap_settings \<Rightarrow> env_vars \<Rightarrow> world \<Rightarrow> unit boot_run" where
  "hooked_stop_worker_managed st A b env_vars w =
     (case hooked_root_operation st A b env_vars OpStop w of
        (Inl e, w1) \<Rightarrow> (Inl e, w1)
      | (Inr _, w1) \<Rightarrow>
          let w2 = (case cleanup_operation (bs_cleanup_mode b) of
                      None \<Rightarrow> w1
                    | Some oper \<Rightarrow> snd (hooked_root_operation st A b env_vars oper w1))
          in (Inr (), snd (cleanup_in_process (bs_cleanup_mode b) (bs_settings b) w2)))"

section \<open>The setup hook\<close>

text \<open>Installing replaces what is there, and the drop of any guard empties the slot.\<close>

type_synonym setup_hook = "bootstrap_settings \<Rightarrow> scope_state \<Rightarrow> world \<Rightarrow> (bootstrap_error + unit) scoped_run"

definition install_setup_only_lifecycle_hook :: "setup_hook \<Rightarrow> setup_hook option \<Rightarrow> setup_hook option" where
  "install_setup_only_lifecycle_hook hook slot = Some hook"

definition drop_setup_hook_guard :: "setup_hook option \<Rightarrow> setup_hook option" where
  "drop_setup_hook_guard slot = None"

definition hooked_setup_only_lifecycle ::
  "setup_hook option \<Rightarrow> ('h, 'c, 'g, 'v::linorder) cluster_api \<Rightarrow> nat \<Rightarrow> bootstrap_settings \<Rightarrow> scope_state \<Rightarrow> world \<Rightarrow>
     (pg_embedded_error + unit) scoped_run" where
  "hooked_setup_only_lifecycle slot A t b s w =
     (case slot of
        Some hook \<Rightarrow> map_option (\<lambda>(r, s', w').
            (case r of
               Returned (Inl e) \<Rightarrow> Returned (Inl (Bootstrap e))
             | Returned (Inr _) \<Rightarrow> Returned (Inr ())
             | Panic \<Rightarrow> Panic
             | WouldBlock \<Rightarrow> WouldBlock, s', w')) (hook b s w)
      | None \<Rightarrow> run_setup_only_lifecycle A t b s w)"

section \<open>Any number of tests\<close>

text \<open>
  The tests of a process install hooks, drop the guards they were given, and read the log, in any order. The state
  beside the slot is the number of guards that live.
\<close>

inductive hook_step :: "root_hooks \<times> nat \<Rightarrow> root_hooks \<times> nat \<Rightarrow> bool" where
  Installed: "install_run_root_operation_hook hook name tid st = (Inr (), st') \<Longrightarrow> hook_step (st, n) (st', Suc n)"
| Refused: "install_run_root_operation_hook hook name tid st = (Inl e, st') \<Longrightarrow> hook_step (st, n) (st', n)"
| Dropped: "hook_step (st, Suc n) (drop_hook_guard st, n)"
| Drained: "drain_hook_install_logs st = (logs, st') \<Longrightarrow> hook_step (st, n) (st', n)"

inductive_cases hook_stepE: "hook_step (st, n) (st', n')"

lemma install_cases:
  "install_run_root_operation_hook hook name tid st = (r, st') \<longleftrightarrow>
     (if rh_slot st = None then r = Inr () \<and> st' = st\<lparr>rh_slot := Some hook\<rparr>
      else r = Inl AlreadyInstalled \<and>
        st' = st\<lparr>rh_logs := rh_logs st @ [''run_root_operation_hook already installed by thread '' @ capture_thread_scope name tid]\<rparr>)"
  by (auto simp: install_run_root_operation_hook_def register_hook_def log_duplicate_install_def record_duplicate_install_def)

definition one_guard :: "root_hooks \<times> nat \<Rightarrow> bool" where
  "one_guard s \<longleftrightarrow> snd s = (if rh_slot (fst s) = None then 0 else 1)"

lemma hook_step_keeps:
  assumes "hook_step s s'" "one_guard s"
  shows "one_guard s'"
  using assms
  by (induction rule: hook_step.induct)
    (auto simp: one_guard_def install_cases drop_hook_guard_def drain_hook_install_logs_def split: if_splits)

lemma hook_steps_keep: "hook_step\<^sup>*\<^sup>* s s' \<Longrightarrow> one_guard s \<Longrightarrow> one_guard s'"
  by (induction rule: rtranclp_induct) (auto intro: hook_step_keeps)

section \<open>Properties\<close>

text \<open>
  C34. At most one hook. Whatever tests install and drop, there is a hook exactly while a guard lives, never more than one
  guard does, and no step replaces a hook: it stays until its own guard is dropped. Every installation
  that is refused is logged with its thread.
\<close>

theorem hook_exclusive:
  assumes reach: "hook_step\<^sup>*\<^sup>* (no_hooks, 0) (st, n)"
  shows "n \<le> 1 \<and> (n = 1 \<longleftrightarrow> rh_slot st \<noteq> None) \<and>
    (\<forall>hook st' n'. rh_slot st = Some hook \<longrightarrow> hook_step (st, n) (st', n') \<longrightarrow>
       rh_slot st' = Some hook \<or> (st' = drop_hook_guard st \<and> n' = 0)) \<and>
    (\<forall>hook name tid. rh_slot st \<noteq> None \<longrightarrow>
       rh_logs (snd (install_run_root_operation_hook hook name tid st)) =
         rh_logs st @ [''run_root_operation_hook already installed by thread '' @ capture_thread_scope name tid])"
proof -
  have "one_guard (no_hooks, 0)" by (simp add: one_guard_def no_hooks_def)
  from hook_steps_keep [OF reach this] have inv: "one_guard (st, n)" .
  have "rh_slot st' = Some hook \<or> (st' = drop_hook_guard st \<and> n' = 0)"
    if "rh_slot st = Some hook" "hook_step (st, n) (st', n')" for hook st' n'
    using that(2)
    by (cases rule: hook_stepE)
      (use that(1) inv in \<open>auto simp: one_guard_def install_cases drop_hook_guard_def drain_hook_install_logs_def\<close>)
  moreover have "rh_logs (snd (install_run_root_operation_hook hook name tid st)) =
      rh_logs st @ [''run_root_operation_hook already installed by thread '' @ capture_thread_scope name tid]"
    if "rh_slot st \<noteq> None" for hook name tid
    using that install_cases [of hook name tid st "fst (install_run_root_operation_hook hook name tid st)"
        "snd (install_run_root_operation_hook hook name tid st)"] by auto
  ultimately show ?thesis using inv by (auto simp: one_guard_def split: if_splits)
qed

text \<open>
  While a hook is installed no process is started for a cluster. The start and the stop of a cluster of root,
  cleanup included, then depend neither on the operating system's processes nor on the worker's program nor
  on the execution mode, which is not even checked; without a hook they are those of the program.
\<close>

theorem hook_replaces_worker:
  "(case rh_slot st of
      Some hook \<Rightarrow>
        hooked_lifecycle_root st (A\<lparr>ca_process := P\<rparr>) b env_vars w = hooked_lifecycle_root st A b env_vars w \<and>
        hooked_stop_worker_managed st (A\<lparr>ca_process := P\<rparr>) b env_vars w = hooked_stop_worker_managed st A b env_vars w \<and>
        hooked_root_operation st A b env_vars oper w = hook b env_vars oper w
    | None \<Rightarrow>
        hooked_lifecycle_root st A b env_vars w = invoke_lifecycle_root A b env_vars w \<and>
        hooked_stop_worker_managed st A b env_vars w = stop_worker_managed_with_runtime A b env_vars w \<and>
        invoke_with_privileges st A b env_vars oper future s w = invoke A b env_vars oper future s w)"
proof (cases "rh_slot st")
  case None
  then have oper: "hooked_root_operation st A = invoke_as_root A"
    by (auto simp: hooked_root_operation_def run_root_operation_hook_def invoke_as_root_def fun_eq_iff)
  have "hooked_lifecycle_root st A b env_vars w = invoke_lifecycle_root A b env_vars w"
    by (simp add: hooked_lifecycle_root_def invoke_lifecycle_root_def invoke_root_operation_def oper)
  moreover have "hooked_stop_worker_managed st A b env_vars w = stop_worker_managed_with_runtime A b env_vars w"
    unfolding hooked_stop_worker_managed_def stop_worker_managed_with_runtime_def oper
      cleanup_worker_managed_with_runtime_def Let_def by (rule refl)
  ultimately show ?thesis using None
    by (simp add: invoke_with_privileges_def oper invoke_def dispatch_operation_def run_root_def
        split: execution_privileges.split)
next
  case (Some hook)
  then have oper: "hooked_root_operation st B b' ev oper' w' = hook b' ev oper' w'" for B :: "('a, 'b, 'c, 'd) cluster_api" and b' ev oper' w'
    by (simp add: hooked_root_operation_def run_root_operation_hook_def)
  show ?thesis
    unfolding Some option.case hooked_lifecycle_root_def hooked_stop_worker_managed_def oper by simp
qed

section \<open>An example\<close>

theorem hook_exclusive_witness:
  "\<exists>st. hook_step\<^sup>*\<^sup>* (no_hooks, 0) (st, 1) \<and> rh_slot st \<noteq> None \<and>
     fst (install_run_root_operation_hook (\<lambda>_ _ _ w. (Inr (), w)) None ''ThreadId(2)'' st) = Inl AlreadyInstalled \<and>
     rh_logs (snd (install_run_root_operation_hook (\<lambda>_ _ _ w. (Inr (), w)) None ''ThreadId(2)'' st)) =
       [''run_root_operation_hook already installed by thread unnamed (ThreadId(2))'']"
proof -
  let ?h = "\<lambda>_ _ _ w. (Inr (), w)" and ?st = "no_hooks\<lparr>rh_slot := Some (\<lambda>_ _ _ w. (Inr (), w))\<rparr>"
  have "install_run_root_operation_hook ?h None ''ThreadId(1)'' no_hooks = (Inr (), ?st)"
    by (simp add: install_cases no_hooks_def)
  then have "hook_step (no_hooks, 0) (?st, Suc 0)" by (rule Installed)
  then have reach: "hook_step\<^sup>*\<^sup>* (no_hooks, 0) (?st, 1)" by auto
  have logs: "rh_logs ?st = []" "rh_slot ?st \<noteq> None" by (simp_all add: no_hooks_def)
  moreover have "fst (install_run_root_operation_hook ?h None ''ThreadId(2)'' ?st) = Inl AlreadyInstalled"
    by (simp add: install_run_root_operation_hook_def register_hook_def)
  moreover have "rh_logs (snd (install_run_root_operation_hook ?h None ''ThreadId(2)'' ?st)) =
      rh_logs ?st @ [''run_root_operation_hook already installed by thread '' @ capture_thread_scope None ''ThreadId(2)'']"
    using hook_exclusive [OF reach] logs(2) by blast
  ultimately show ?thesis using reach by (auto simp: capture_thread_scope_def)
qed

end
