(* ===== verification/Test_Dirs.thy ===== *)
theory Test_Dirs
  imports Pg_Worker Worker_Staging
begin

text \<open>
  Directories for tests: the temporary directories of \<open>src/src/test_support/filesystem.rs\<close> and the half-made
  data directory of \<open>partial_data_dir.rs\<close>. The directory handles of \<open>cap_std\<close>, the clock and the
  counter the threads share come from outside: \<open>counters i\<close> is what the \<open>i\<close>-th \<open>fetch_add\<close> of a call returns.
\<close>

section \<open>Temporary directories\<close>

record 'h temp_api =
  ta_ext :: "'h ext"
  ta_current_dir :: "world \<Rightarrow> io_kind + pathbuf"
  ta_pid :: nat
  ta_epoch_ns :: nat
  ta_create_dir :: "'h \<Rightarrow> path \<Rightarrow> unit io"
  ta_open_dir :: "'h \<Rightarrow> path \<Rightarrow> world \<Rightarrow> io_kind + 'h"
  ta_remove_open_dir_all :: "'h \<Rightarrow> unit io"

definition test_metadata :: "'h temp_api \<Rightarrow> path \<Rightarrow> world \<Rightarrow> io_kind + node" where
  "test_metadata TA p w =
     (case ambient_dir_and_path (ta_ext TA) p w of
        Inl _ \<Rightarrow> Inl OtherIo
      | Inr (dir, relative) \<Rightarrow>
          if relative = [] then cap_dir_metadata (ta_ext TA) dir w else cap_metadata (ta_ext TA) dir relative w)"

definition resolve_env_path :: "string \<Rightarrow> world \<Rightarrow> report + pathbuf option" where
  "resolve_env_path var w =
     (case var_os var w of
        None \<Rightarrow> Inr None
      | Some p \<Rightarrow> if utf8_valid p then Inr (Some p) else Inl (Msg (var @ '' is not valid UTF-8'')))"

fun first_env_path :: "string list \<Rightarrow> world \<Rightarrow> report + pathbuf option" where
  "first_env_path [] w = Inr None"
| "first_env_path (var # vars) w =
     try_res (resolve_env_path var w) (\<lambda>r. case r of Some p \<Rightarrow> Inr (Some p) | None \<Rightarrow> first_env_path vars w)"

definition env_temp_base :: "execution_privileges \<Rightarrow> world \<Rightarrow> report + pathbuf option" where
  "env_temp_base privileges w =
     (case privileges of
        Root \<Rightarrow> first_env_path [''PG_EMBEDDED_TEST_TMPDIR''] w
      | Unprivileged \<Rightarrow> first_env_path [''PG_EMBEDDED_TEST_TMPDIR'', ''CARGO_TARGET_DIR''] w)"

definition target_temp_base :: "'h temp_api \<Rightarrow> world \<Rightarrow> report + pathbuf" where
  "target_temp_base TA w =
     try_res (context_io ''resolve current directory'' (ta_current_dir TA w)) (\<lambda>cwd.
       if utf8_valid cwd then Inr (join_path cwd ''target'') else Inl (Msg ''current directory is not valid UTF-8''))"

definition default_temp_base :: "'h temp_api \<Rightarrow> execution_privileges \<Rightarrow> world \<Rightarrow> report + pathbuf" where
  "default_temp_base TA privileges w =
     (case privileges of Root \<Rightarrow> Inr ''/var/tmp'' | Unprivileged \<Rightarrow> target_temp_base TA w)"

definition temp_root_dir :: "'h temp_api \<Rightarrow> world \<Rightarrow> pathbuf step" where
  "temp_root_dir TA w =
     (let privileges = detect_execution_privileges w in
      try_st (try_res (env_temp_base privileges w) (\<lambda>base.
          case base of Some p \<Rightarrow> Inr p | None \<Rightarrow> default_temp_base TA privileges w), w) (\<lambda>base w.
      let root = join_path base ''pg-embedded-setup-unpriv-tmp'' in
      try_st (context_io_st (''create temp root at '' @ root) (create_dir_all (components root) w)) (\<lambda>_ w.
      if privileges = Root then
        try_st (map_err_st (Ctx (''set temp root permissions for '' @ root))
            (set_permissions (ta_ext TA) (components root) 511 w)) (\<lambda>_ w. (Inr root, w))
      else (Inr root, w))))"

record 'h temp_dir_guard =
  ct_dir :: "'h option"
  ct_path :: pathbuf

definition temp_name :: "'h temp_api \<Rightarrow> string \<Rightarrow> nat \<Rightarrow> string" where
  "temp_name TA pfx n = pfx @ ''-'' @ show_nat (ta_pid TA) @ ''-'' @ show_nat (ta_epoch_ns TA) @ ''-'' @ show_nat n"

fun temp_attempts ::
  "'h temp_api \<Rightarrow> 'h \<Rightarrow> pathbuf \<Rightarrow> string \<Rightarrow> (nat \<Rightarrow> nat) \<Rightarrow> nat \<Rightarrow> nat \<Rightarrow> world \<Rightarrow> 'h temp_dir_guard step" where
  "temp_attempts TA ambient root pfx counters attempt 0 w =
     (Inl (Msg ''exhausted attempts creating capability tempdir''), w)"
| "temp_attempts TA ambient root pfx counters attempt (Suc left) w =
     (let name = temp_name TA pfx (counters attempt + attempt) in
      case ta_create_dir TA ambient (components name) w of
        (Inr _, w1) \<Rightarrow>
          try_st (context_io ''open capability tempdir'' (ta_open_dir TA ambient (components name) w1), w1) (\<lambda>dir w1.
            (Inr \<lparr>ct_dir = Some dir, ct_path = join_path root name\<rparr>, w1))
      | (Inl k, w1) \<Rightarrow>
          if k = AlreadyExists then temp_attempts TA ambient root pfx counters (Suc attempt) left w1
          else (Inl (Ctx (''create capability tempdir '' @ name) (IoErr k)), w1))"

definition temp_dir_new :: "'h temp_api \<Rightarrow> string \<Rightarrow> (nat \<Rightarrow> nat) \<Rightarrow> world \<Rightarrow> 'h temp_dir_guard step" where
  "temp_dir_new TA pfx counters w =
     try_st (temp_root_dir TA w) (\<lambda>temp_root w.
     try_st (context_io ''open ambient temp directory'' (cap_open (ta_ext TA) (components temp_root) w), w) (\<lambda>ambient w.
     temp_attempts TA ambient temp_root pfx counters 0 32 w))"

definition remove_temp_dir :: "'h temp_api \<Rightarrow> 'h \<Rightarrow> world \<Rightarrow> world" where
  "remove_temp_dir TA dir w = snd (ta_remove_open_dir_all TA dir w)"

definition drop_temp_dir :: "'h temp_api \<Rightarrow> 'h temp_dir_guard \<Rightarrow> world \<Rightarrow> world" where
  "drop_temp_dir TA td w = (case ct_dir td of None \<Rightarrow> w | Some dir \<Rightarrow> remove_temp_dir TA dir w)"

section \<open>A half-made data directory\<close>

definition create_partial_data_dir :: "pathbuf \<Rightarrow> unit io" where
  "create_partial_data_dir data_dir w =
     try_st (create_dir_all (components (join_path data_dir ''global'')) w) (\<lambda>_ w.
     try_st (write_file (components (join_path data_dir ''PG_VERSION'')) (''16'' @ [CHR 0x0A]) w) (\<lambda>_ w.
     try_st (create_dir_all (components (join_path data_dir ''base/1'')) w) (\<lambda>_ w.
     write_file (components (join_path data_dir ''base/1/pg_class'')) ''dummy'' w)))"

section \<open>Lemmas\<close>

lemma mkdir_missing:
  assumes "faultless w" "phys w p" "entry w (p @ [Normal n]) = None"
  shows "create_dir_all (p @ [Normal n]) w = (Inr (), put_entry (p @ [Normal n]) (new_node w KDir 493) w)"
proof -
  have "sys_mkdir (p @ [Normal n]) w = (Inr (), put_entry (p @ [Normal n]) (new_node w KDir 493) w)"
    using assms by (simp add: sys_mkdir_def phys_resolve_name(1) entry_at_def)
  then show ?thesis by (subst create_dir_all.simps) simp
qed

lemma faultless_put [simp]: "faultless (put_entry q n w) = faultless w"
  by (simp add: faultless_def)

lemma phys_put_new: "phys w p \<Longrightarrow> phys (put_entry (p @ [Normal n]) (new_node v KDir m) w) (p @ [Normal n])"
  by (simp add: phys_snoc phys_put_dir new_node_def)

lemma mkdir_missing2:
  assumes "faultless w" "phys w p" "entry w (p @ [Normal a]) = None" "entry w (p @ [Normal a, Normal b]) = None"
  shows "create_dir_all (p @ [Normal a, Normal b]) w =
    (Inr (), put_entry (p @ [Normal a, Normal b]) (new_node w KDir 493) (put_entry (p @ [Normal a]) (new_node w KDir 493) w))"
proof -
  let ?w = "put_entry (p @ [Normal a]) (new_node w KDir 493) w"
  have "resolve False w (p @ [Normal a, Normal b]) = Inl NotFound"
    using assms(3) by (simp add: resolve_def phys_walk [OF assms(2)])
  with assms(1) have first: "sys_mkdir (p @ [Normal a, Normal b]) w = (Inl NotFound, w)"
    by (simp add: sys_mkdir_def)
  have parent: "path_parent (p @ [Normal a, Normal b]) = Some (p @ [Normal a])"
    using path_parent_snoc_Normal [of "p @ [Normal a]" b] by simp
  have "resolve False ?w ((p @ [Normal a]) @ [Normal b]) = Inr ((p @ [Normal a]) @ [Normal b])"
    by (rule phys_resolve_name(1) [OF phys_put_new [OF assms(2)]])
  moreover have "new_node ?w KDir 493 = new_node w KDir 493" by (simp add: new_node_def put_entry_def)
  ultimately have "sys_mkdir (p @ [Normal a, Normal b]) ?w = (Inr (), put_entry (p @ [Normal a, Normal b]) (new_node w KDir 493) ?w)"
    using assms(1,4) by (simp add: sys_mkdir_def entry_at_def)
  then show ?thesis
    by (subst create_dir_all.simps) (simp add: first parent mkdir_missing [OF assms(1-3)])
qed

lemma write_missing:
  assumes "faultless w" "phys w p" "entry w (p @ [Normal n]) = None"
  shows "write_file (p @ [Normal n]) s w = (Inr (), put_entry (p @ [Normal n]) (new_node w (KFile s) 420) w)"
  using assms phys_resolve_name(2) [OF assms(2), of n] by (simp add: write_file_def entry_at_def)

lemma partial_paths:
  "components (join_path d ''global'') = components d @ [Normal ''global'']"
  "components (join_path d ''PG_VERSION'') = components d @ [Normal ''PG_VERSION'']"
  "components (join_path d ''base/1'') = components d @ [Normal ''base'', Normal ''1'']"
  "components (join_path d ''base/1/pg_class'') = components d @ [Normal ''base'', Normal ''1'', Normal ''pg_class'']"
proof -
  show "components (join_path d ''global'') = components d @ [Normal ''global'']"
    "components (join_path d ''PG_VERSION'') = components d @ [Normal ''PG_VERSION'']"
    by (rule components_join_simple; simp add: simple_name_def)+
  have "components ''base/1'' = [Normal ''base'', Normal ''1'']"
    "components ''base/1/pg_class'' = [Normal ''base'', Normal ''1'', Normal ''pg_class'']" by code_simp+
  moreover have "\<not> is_abs ''base/1'' \<and> hd (split_on (CHR ''/'') ''base/1'') \<noteq> ''.''"
    "\<not> is_abs ''base/1/pg_class'' \<and> hd (split_on (CHR ''/'') ''base/1/pg_class'') \<noteq> ''.''" by code_simp+
  ultimately show "components (join_path d ''base/1'') = components d @ [Normal ''base'', Normal ''1'']"
    "components (join_path d ''base/1/pg_class'') = components d @ [Normal ''base'', Normal ''1'', Normal ''pg_class'']"
    using components_join by simp_all
qed

text \<open>The directory as the helper leaves it.\<close>

definition partial_tree :: "path \<Rightarrow> world \<Rightarrow> world" where
  "partial_tree p w =
     (let dir = new_node w KDir 493;
          file = (\<lambda>s. new_node w (KFile s) 420)
      in put_entry (p @ [Normal ''base'', Normal ''1'', Normal ''pg_class'']) (file ''dummy'')
        (put_entry (p @ [Normal ''base'', Normal ''1'']) dir (put_entry (p @ [Normal ''base'']) dir
        (put_entry (p @ [Normal ''PG_VERSION'']) (file (''16'' @ [CHR 0x0A])) (put_entry (p @ [Normal ''global'']) dir
        (put_entry p dir w))))))"

lemma new_node_put [simp]: "new_node (put_entry q n w) k m = new_node w k m"
  by (simp add: new_node_def put_entry_def)

lemma create_partial:
  assumes w: "faultless w" "phys w q" and none: "\<And>rel. entry w (q @ Normal b # rel) = None"
    and d: "components d = q @ [Normal b]"
  shows "create_partial_data_dir d w = (Inr (), partial_tree (components d) w)"
proof -
  let ?p = "components d" and ?dir = "new_node w KDir 493"
  have n: "entry w (?p @ rel) = None" for rel using none d by simp
  have ne: "?p \<noteq> []" using d by simp
  define w1 where "w1 = put_entry (?p @ [Normal ''global'']) ?dir (put_entry ?p ?dir w)"
  define w2 where "w2 = put_entry (?p @ [Normal ''PG_VERSION'']) (new_node w (KFile (''16'' @ [CHR 0x0A])) 420) w1"
  define w3 where "w3 = put_entry (?p @ [Normal ''base'', Normal ''1'']) ?dir (put_entry (?p @ [Normal ''base'']) ?dir w2)"
  have "create_dir_all (?p @ [Normal ''global'']) w = (Inr (), w1)"
    using mkdir_missing2 [OF w, of b "''global''"] none by (simp add: d w1_def)
  moreover have p1: "phys w1 ?p" "faultless w1"
    using w phys_put_new [OF w(2), of b w 493] by (simp_all add: w1_def d phys_put_dir new_node_def)
  then have "write_file (?p @ [Normal ''PG_VERSION'']) (''16'' @ [CHR 0x0A]) w1 = (Inr (), w2)"
    using write_missing [OF p1(2,1), of "''PG_VERSION''"] n by (simp add: w1_def w2_def)
  moreover have p2: "phys w2 ?p" "faultless w2"
    using p1 n by (simp_all add: w2_def w1_def phys_put)
  then have "create_dir_all (?p @ [Normal ''base'', Normal ''1'']) w2 = (Inr (), w3)"
    using mkdir_missing2 [OF p2(2,1), of "''base''" "''1''"] n by (simp add: w3_def w2_def w1_def)
  moreover have p3: "phys w3 (?p @ [Normal ''base'', Normal ''1''])" "faultless w3"
    using p2 phys_put_new [OF phys_put_new [OF p2(1), of "''base''" w 493], of "''1''" w 493] by (simp_all add: w3_def)
  then have "write_file (?p @ [Normal ''base'', Normal ''1'', Normal ''pg_class'']) ''dummy'' w3 =
      (Inr (), put_entry (?p @ [Normal ''base'', Normal ''1'', Normal ''pg_class'']) (new_node w (KFile ''dummy'') 420) w3)"
    using write_missing [OF p3(2,1), of "''pg_class''"] n by (simp add: w3_def w2_def w1_def)
  ultimately show ?thesis
    by (simp add: create_partial_data_dir_def partial_paths partial_tree_def Let_def w3_def w2_def w1_def)
qed

text \<open>What the recovery sees through a handle of the directory's parent.\<close>

lemma resolve_in_dir:
  "phys w q \<Longrightarrow> rel \<noteq> [] \<Longrightarrow> resolve f (w\<lparr>w_cwd := q\<rparr>) rel = resolve f w (q @ rel)"
  using phys_walk [of w q f 40 "w_cwd w" rel] by (simp add: resolve_def entry_def [abs_def])

lemma node_in_dir:
  assumes "phys w q" "rel \<noteq> []"
  shows "node_of f (w\<lparr>w_cwd := q\<rparr>) rel = node_of f w (q @ rel)"
  using assms by (simp add: node_of_def resolve_in_dir entry_at_def entry_def)

lemma posix_parent:
  assumes "phys w q" "dir_at w q" "components d = q @ [Normal b]"
  shows "ambient_dir_and_path posix_ext (components d) w = Inr (q, [Normal b])"
proof -
  have "is_absolute (components d)"
    using assms(1,3) by (cases q) (auto simp: phys_def is_absolute_def)
  moreover have "posix_open q w = Inr q"
    using assms(1,2) by (auto simp: posix_open_def dir_at_def leads_to_def node_of_def phys_resolve try_res_Inr split: option.splits)
  ultimately show ?thesis
    using assms(3) by (simp add: ambient_dir_and_path_def posix_ext_def strip_prefix_def)
qed

lemma posix_caps:
  "cap_exists posix_ext q rel w = path_exists (w\<lparr>w_cwd := q\<rparr>) rel"
  "cap_read_dir posix_ext q rel w = read_dir rel (w\<lparr>w_cwd := q\<rparr>)"
  "cap_remove_dir_all posix_ext q rel w = in_dir q (remove_dir_all rel) w"
  by (simp_all add: posix_ext_def)

text \<open>The recovery of a directory that has the wrong contents, for a process without faults.\<close>

lemma recover_bad:
  assumes w: "faultless w" "phys w q" "dir_at w q" and d: "components d = q @ [Normal b]"
    and dir: "entry w (components d) = Some n" "nd_kind n = KDir"
    and global: "phys w (components d @ [Normal ''global''])"
    and marker: "entry w (components d @ [Normal ''global'', Normal ''pg_filenode.map'']) = None"
  shows "has_valid_data_dir posix_ext d w = Inr False"
    "recover_invalid_data_dir posix_ext W d w = (Inr (), drop_entries (\<lambda>r. prefix (components d) r) w)"
proof -
  let ?p = "components d"
  note parent = posix_parent [OF w(2,3) d]
  have p: "node_of f w ?p = Inr (?p, n)" for f
    using node_of_name [OF w(2), of b] node_of_name_follow [OF w(2), of b n] dir by (cases f) (simp_all add: d)
  have "node_of True w (?p @ [Normal ''global'', Normal ''pg_filenode.map'']) = Inl NotFound"
    using phys_resolve_name(2) [OF global, of "''pg_filenode.map''"] marker by (simp add: node_of_def entry_at_def d)
  then have "\<not> path_exists (w\<lparr>w_cwd := q\<rparr>) [Normal b, Normal ''global'', Normal ''pg_filenode.map'']"
    using node_in_dir [OF w(2), of "[Normal b, Normal ''global'', Normal ''pg_filenode.map'']" True] w(1)
    by (simp add: path_exists_def metadata_def guarded_def faultless_def d)
  then show valid: "has_valid_data_dir posix_ext d w = Inr False"
    by (simp add: has_valid_data_dir_def parent pg_filenode_map_marker_def posix_caps)
  have "''global'' \<in> set (children w ?p)" using global by (auto simp: children_set phys_snoc)
  moreover have "children (w\<lparr>w_cwd := q\<rparr>) ?p = children w ?p" by (simp add: children_def)
  ultimately obtain m ms where "read_dir [Normal b] (w\<lparr>w_cwd := q\<rparr>) = Inr (m # ms)"
    using node_in_dir [OF w(2), of "[Normal b]" True] p w(1) dir(2)
    by (cases "children w ?p") (simp_all add: read_dir_def guarded_def faultless_def d)
  then have empty: "is_dir_empty posix_ext d w = Inr False"
    by (simp add: is_dir_empty_def parent posix_caps)
  have "remove_dir_all [Normal b] (w\<lparr>w_cwd := q\<rparr>) = (Inr (), drop_entries (\<lambda>r. prefix ?p r) (w\<lparr>w_cwd := q\<rparr>))"
    using node_in_dir [OF w(2), of "[Normal b]" False] p w(1) dir(2)
    by (simp add: remove_dir_all_def remove_effect_def faultless_def d)
  then have "cap_remove_dir_all posix_ext q [Normal b] w = (Inr (), drop_entries (\<lambda>r. prefix ?p r) w)"
    by (simp add: posix_caps in_dir_def drop_entries_def)
  then have reset: "reset_data_dir posix_ext d w = (Inr (), drop_entries (\<lambda>r. prefix ?p r) w)"
    by (simp add: reset_data_dir_def parent)
  have "path_exists w ?p" using p w(1) by (simp add: path_exists_def metadata_def)
  then show "recover_invalid_data_dir posix_ext W d w = (Inr (), drop_entries (\<lambda>r. prefix ?p r) w)"
    by (simp add: recover_invalid_data_dir_def valid empty perform_data_dir_reset_def reset)
qed

section \<open>Properties\<close>

text \<open>
  C32. The half-made data directory is what it is meant to be, and recovery undoes it. Where there is nothing yet, below a
  directory reached without links and without faults, the helper succeeds, the result has \<open>PG_VERSION\<close> but is not valid,
  and the recovery of the worker then leaves every entry of the file system as it was before the helper.
\<close>

theorem partial_data_dir_recovered:
  assumes w: "faultless w" "phys w q" "dir_at w q" and d: "components d = q @ [Normal b]"
    and none: "\<And>rel. entry w (components d @ rel) = None"
  shows "\<exists>w1 w2. create_partial_data_dir d w = (Inr (), w1) \<and>
    path_is_file w1 (components (join_path d ''PG_VERSION'')) \<and> has_valid_data_dir posix_ext d w1 = Inr False \<and>
    recover_invalid_data_dir posix_ext W d w1 = (Inr (), w2) \<and> entry w2 = entry w"
proof -
  let ?p = "components d"
  define w1 where "w1 = partial_tree ?p w"
  have create: "create_partial_data_dir d w = (Inr (), w1)"
    unfolding w1_def by (rule create_partial [OF w(1,2) _ d]) (use none d in simp)
  have at: "entry w1 r = (if \<not> prefix ?p r then entry w r else entry w1 r)"
      "entry w1 ?p = Some (new_node w KDir 493)" "entry w1 (?p @ [Normal ''global'']) = Some (new_node w KDir 493)"
      "entry w1 (?p @ [Normal ''global'', Normal ''pg_filenode.map'']) = None"
      "entry w1 (?p @ [Normal ''PG_VERSION'']) = Some (new_node w (KFile (''16'' @ [CHR 0x0A])) 420)" for r
    using none by (auto simp: w1_def partial_tree_def Let_def d)
  have short: "\<not> prefix ?p r" if "prefix r q" for r using that d by (auto dest!: prefix_length_le)
  have phys: "phys w1 q" by (rule phys_mono [OF w(2)]) (metis at(1) short)
  have p1: "phys w1 ?p" using phys at(2) by (simp add: d phys_snoc new_node_def)
  have "entry_at w1 q = entry_at w q" using at(1) [of q] short [of q] by (cases "q = [RootDir]") (simp_all add: entry_at_def)
  then have dir1: "dir_at w1 q"
    using w(2,3) phys by (auto simp: dir_at_def leads_to_iff phys_resolve)
  have f1: "faultless w1" using w(1) by (simp add: w1_def partial_tree_def Let_def)
  have version: "path_is_file w1 (?p @ [Normal ''PG_VERSION''])"
    using node_of_name_follow [OF p1 at(5)] f1
    by (simp add: path_is_file_def metadata_def new_node_def)
  have "phys w1 (?p @ [Normal ''global''])" using p1 at(3) by (simp add: phys_snoc new_node_def)
  note recovery = recover_bad(1) [OF f1 phys dir1 d at(2) _ this at(4)]
    recover_bad(2) [where W = W, OF f1 phys dir1 d at(2) _ this at(4)]
  have "entry (drop_entries (\<lambda>r. prefix ?p r) w1) r = entry w r" for r
    using at(1) [of r] none by (auto simp: prefix_def)
  then have "entry (drop_entries (\<lambda>r. prefix ?p r) w1) = entry w" by (rule ext)
  with create version recovery show ?thesis by (simp add: partial_paths new_node_def)
qed

text \<open>
  What is relied on of the directory handles: creating a directory through a handle that was opened at a place makes a
  directory where nothing was, at the name resolved from that place, or changes nothing; and opening changes nothing
  because it has no effect to begin with.
\<close>

definition temp_spec :: "'h temp_api \<Rightarrow> bool" where
  "temp_spec TA \<longleftrightarrow>
     (\<forall>p w dir q0 n0 rel r w'. cap_open (ta_ext TA) p w = Inr dir \<longrightarrow> leads_to w p q0 n0 \<longrightarrow>
        ta_create_dir TA dir rel w = (r, w') \<longrightarrow>
        (case r of
           Inl _ \<Rightarrow> w' = w
         | Inr _ \<Rightarrow> \<exists>q n. walk (entry w) False 40 q0 rel = Inr q \<and> entry_at w q = None \<and> nd_kind n = KDir \<and>
             w' = put_entry q n w))"

definition already_there :: "'h temp_api \<Rightarrow> 'h \<Rightarrow> string \<Rightarrow> world \<Rightarrow> bool" where
  "already_there TA ambient name w \<longleftrightarrow> fst (ta_create_dir TA ambient (components name) w) = Inl AlreadyExists"

abbreviation attempt_name :: "'h temp_api \<Rightarrow> string \<Rightarrow> (nat \<Rightarrow> nat) \<Rightarrow> nat \<Rightarrow> string" where
  "attempt_name TA pfx counters i \<equiv> temp_name TA pfx (counters i + i)"

definition exhausted :: report where
  "exhausted = Msg ''exhausted attempts creating capability tempdir''"

text \<open>The directory of one attempt is new, and nothing else is.\<close>

definition made_new :: "path \<Rightarrow> string \<Rightarrow> world \<Rightarrow> world \<Rightarrow> bool" where
  "made_new q0 name w w' \<longleftrightarrow>
     (\<exists>q n. walk (entry w) False 40 q0 (components name) = Inr q \<and> entry_at w q = None \<and> nd_kind n = KDir \<and>
        w' = put_entry q n w)"

lemma attempts_cases:
  assumes spec: "temp_spec TA" and o: "cap_open (ta_ext TA) p w = Inr ambient" "leads_to w p q0 n0"
    and run: "temp_attempts TA ambient root pfx counters attempt left w = (r, w')"
  shows "(r = Inl exhausted \<longleftrightarrow>
      (\<forall>i. attempt \<le> i \<and> i < attempt + left \<longrightarrow> already_there TA ambient (attempt_name TA pfx counters i) w)) \<and>
    (r = Inl exhausted \<longrightarrow> w' = w) \<and>
    (\<forall>td. r = Inr td \<longrightarrow> (\<exists>i. attempt \<le> i \<and> i < attempt + left \<and>
       ct_path td = join_path root (attempt_name TA pfx counters i) \<and>
       made_new q0 (attempt_name TA pfx counters i) w w' \<and>
       (\<forall>j. attempt \<le> j \<and> j < i \<longrightarrow> already_there TA ambient (attempt_name TA pfx counters j) w)))"
  using run
proof (induction left arbitrary: attempt)
  case (Suc left)
  let ?n = "attempt_name TA pfx counters"
  obtain c w1 where c: "ta_create_dir TA ambient (components (?n attempt)) w = (c, w1)" by fastforce
  with spec o have eff: "case c of Inl _ \<Rightarrow> w1 = w | Inr _ \<Rightarrow> made_new q0 (?n attempt) w w1"
    unfolding temp_spec_def made_new_def by blast
  have split: "attempt \<le> i \<and> i < attempt + Suc left \<longleftrightarrow> i = attempt \<or> Suc attempt \<le> i \<and> i < Suc attempt + left" for i
    by auto
  show ?case
  proof (cases "c = Inl AlreadyExists")
    case True
    with c eff have here: "already_there TA ambient (?n attempt) w" "w1 = w" by (auto simp: already_there_def)
    have rest: "temp_attempts TA ambient root pfx counters (Suc attempt) left w = (r, w')"
      using Suc.prems c True here(2) by simp
    note ih = Suc.IH [OF rest]
    have before: "already_there TA ambient (?n j) w" if "attempt \<le> j \<and> j < i"
        "\<forall>j. Suc attempt \<le> j \<and> j < i \<longrightarrow> already_there TA ambient (?n j) w" for i j
      using that here(1) by (cases "j = attempt") auto
    show ?thesis
      unfolding split
    proof (intro conjI allI impI)
      show "(r = Inl exhausted) = (\<forall>i. i = attempt \<or> Suc attempt \<le> i \<and> i < Suc attempt + left \<longrightarrow>
          already_there TA ambient (?n i) w)"
        using ih here(1) by blast
      show "w' = w" if "r = Inl exhausted" using ih that by blast
      fix td assume "r = Inr td"
      with ih obtain i where i: "Suc attempt \<le> i \<and> i < Suc attempt + left" "ct_path td = join_path root (?n i)"
          "made_new q0 (?n i) w w'" "\<forall>j. Suc attempt \<le> j \<and> j < i \<longrightarrow> already_there TA ambient (?n j) w"
        by blast
      then have "attempt \<le> i" "i < attempt + Suc left" by auto
      with i before [OF _ i(4)] show "\<exists>i. attempt \<le> i \<and> i < attempt + Suc left \<and>
          ct_path td = join_path root (?n i) \<and> made_new q0 (?n i) w w' \<and>
          (\<forall>j. attempt \<le> j \<and> j < i \<longrightarrow> already_there TA ambient (?n j) w)"
        by blast
    qed
  next
    case False
    with c have here: "\<not> already_there TA ambient (?n attempt) w" by (simp add: already_there_def)
    from Suc.prems c False have "r \<noteq> Inl exhausted \<and> (\<forall>td. r = Inr td \<longrightarrow> ct_path td = join_path root (?n attempt) \<and>
        (\<exists>u. c = Inr u) \<and> w' = w1)"
      by (cases c) (auto simp: exhausted_def context_io_def try_st_def map_err_def Let_def split: sum.splits)
    with here eff show ?thesis unfolding split by (auto split: sum.splits)
  qed
qed (auto simp: exhausted_def)

text \<open>
  A temporary directory is new. It is made under the name of the first of 32 attempts whose name is free in the
  temporary root, at a place where nothing was, and making it changes nothing else; the attempts are exhausted
  if and only if all 32 names are taken, and then nothing has changed.
\<close>

theorem temp_dir_fresh:
  assumes spec: "temp_spec TA" "open_spec (ta_ext TA)"
    and root: "temp_root_dir TA w = (Inr root, w1)" "cap_open (ta_ext TA) (components root) w1 = Inr ambient"
    and new: "temp_dir_new TA pfx counters w = (r, w')"
  shows "(r = Inl exhausted \<longleftrightarrow> (\<forall>i<32. already_there TA ambient (attempt_name TA pfx counters i) w1)) \<and>
    (r = Inl exhausted \<longrightarrow> w' = w1) \<and>
    (\<forall>td. r = Inr td \<longrightarrow> (\<exists>i<32. \<exists>q0 n0. ct_path td = join_path root (attempt_name TA pfx counters i) \<and>
       leads_to w1 (components root) q0 n0 \<and> made_new q0 (attempt_name TA pfx counters i) w1 w' \<and>
       (\<forall>j<i. already_there TA ambient (attempt_name TA pfx counters j) w1)))"
proof -
  from spec(2) root(2) obtain q0 n0 where q0: "leads_to w1 (components root) q0 n0"
    unfolding open_spec_def dir_at_def by blast
  have "temp_attempts TA ambient root pfx counters 0 32 w1 = (r, w')"
    using new root by (simp add: temp_dir_new_def context_io_def map_err_def)
  note cases = attempts_cases [OF spec(1) root(2) q0 this, unfolded add_0]
  show ?thesis
  proof (intro conjI allI impI)
    show "(r = Inl exhausted) = (\<forall>i<32. already_there TA ambient (attempt_name TA pfx counters i) w1)"
      using cases by simp
    show "w' = w1" if "r = Inl exhausted" using cases that by simp
    fix td assume "r = Inr td"
    with cases obtain i where "i < 32" "ct_path td = join_path root (attempt_name TA pfx counters i)"
        "made_new q0 (attempt_name TA pfx counters i) w1 w'"
        "\<forall>j<i. already_there TA ambient (attempt_name TA pfx counters j) w1"
      by auto
    with q0 show "\<exists>i<32. \<exists>q0 n0. ct_path td = join_path root (attempt_name TA pfx counters i) \<and>
        leads_to w1 (components root) q0 n0 \<and> made_new q0 (attempt_name TA pfx counters i) w1 w' \<and>
        (\<forall>j<i. already_there TA ambient (attempt_name TA pfx counters j) w1)"
      by blast
  qed
qed

section \<open>Examples\<close>

lemma fs_demo_root: "phys fs_demo [RootDir]" "dir_at fs_demo [RootDir]" "faultless fs_demo"
  by (rule phys_root) (simp_all add: dir_at_def leads_to_iff resolve_def entry_at_def entry_def fs_demo_def root_node_def faultless_def)

theorem partial_data_dir_recovered_witness:
  "\<exists>w1 w2. create_partial_data_dir ''/p'' fs_demo = (Inr (), w1) \<and>
     recover_invalid_data_dir posix_ext (idle_worker Stopped (Inl [])) ''/p'' w1 = (Inr (), w2) \<and>
     entry w2 [RootDir, Normal ''p''] = None"
proof -
  have d: "components ''/p'' = [RootDir] @ [Normal ''p'']" by code_simp
  have none: "\<And>rel. entry fs_demo (components ''/p'' @ rel) = None" by (simp add: d entry_def fs_demo_def)
  from partial_data_dir_recovered [OF fs_demo_root(3,1,2) d none, of "idle_worker Stopped (Inl [])"] none [of "[]"] show ?thesis
    by (auto simp: d)
qed

definition demo_temp :: "path temp_api" where
  "demo_temp =
     \<lparr>ta_ext = posix_ext, ta_current_dir = (\<lambda>_. Inr ''/''), ta_pid = 7, ta_epoch_ns = 9,
      ta_create_dir = (\<lambda>d rel. in_dir d (sys_mkdir rel)), ta_open_dir = (\<lambda>d rel w. posix_open rel (w\<lparr>w_cwd := d\<rparr>)),
      ta_remove_open_dir_all = remove_dir_all\<rparr>"

lemma demo_temp_spec: "temp_spec demo_temp"
  unfolding temp_spec_def
proof (intro allI impI)
  fix p w dir q0 n0 rel r w'
  assume o: "cap_open (ta_ext demo_temp) p w = Inr dir" "leads_to w p q0 n0"
    and c: "ta_create_dir demo_temp dir rel w = (r, w')"
  have dir: "dir = q0" using o posix_open_is by (simp add: demo_temp_def posix_ext_def)
  let ?w = "w\<lparr>w_cwd := q0\<rparr>"
  have same: "w' = v\<lparr>w_cwd := w_cwd w\<rparr>" "sys_mkdir rel ?w = (r, v)" if "sys_mkdir rel ?w = (r', v)" for r' v
    using c that dir by (simp_all add: demo_temp_def in_dir_def)
  obtain v where v: "sys_mkdir rel ?w = (r, v)" using same by (metis prod.collapse)
  show "case r of Inl _ \<Rightarrow> w' = w
     | Inr _ \<Rightarrow> \<exists>q n. walk (entry w) False 40 q0 rel = Inr q \<and> entry_at w q = None \<and> nd_kind n = KDir \<and> w' = put_entry q n w"
  proof (cases r)
    case (Inl k)
    with v same(1) [OF v] show ?thesis by (auto simp: sys_mkdir_def split: sum.splits if_splits)
  next
    case (Inr u)
    with v obtain q where q: "resolve False ?w rel = Inr q" "entry_at ?w q = None"
        "v = put_entry q (new_node ?w KDir 493) ?w"
      by (auto simp: sys_mkdir_def guarded_def split: sum.splits if_splits option.splits)
    have "walk (entry w) False 40 q0 rel = Inr q" "entry_at w q = None"
      using q(1,2) by (auto simp: resolve_def entry_def [abs_def] entry_at_def split: if_splits)
    moreover have "w' = put_entry q (new_node ?w KDir 493) w" using same(1) [OF v] q(3) by (simp add: put_entry_def)
    moreover have "nd_kind (new_node ?w KDir 493) = KDir" by (simp add: new_node_def)
    ultimately show ?thesis unfolding Inr sum.case by blast
  qed
qed

definition temp_world :: world where
  "temp_world = fs_demo\<lparr>w_env := [''CARGO_TARGET_DIR'' \<mapsto> ''/v''], w_euid := 1\<rparr>"

theorem temp_dir_fresh_witness:
  "\<exists>root w1 ambient. temp_root_dir demo_temp temp_world = (Inr root, w1) \<and> root = ''/v/pg-embedded-setup-unpriv-tmp'' \<and>
     (fst (temp_dir_new demo_temp ''t'' (\<lambda>i. i) temp_world) = Inl exhausted \<longleftrightarrow>
        (\<forall>i<32. already_there demo_temp ambient (attempt_name demo_temp ''t'' (\<lambda>i. i) i) w1))"
proof -
  let ?root = "''/v/pg-embedded-setup-unpriv-tmp''" and ?name = "''pg-embedded-setup-unpriv-tmp''"
  have c: "components ?root = [RootDir, Normal ''v''] @ [Normal ?name]" by code_simp
  have "phys temp_world [RootDir, Normal ''v'']"
    using phys_snoc [of temp_world "[RootDir]" "''v''"] phys_root by (simp add: temp_world_def fs_demo_def entry_def)
  then have v: "faultless temp_world" "phys temp_world [RootDir, Normal ''v'']" "entry temp_world ([RootDir, Normal ''v''] @ [Normal ?name]) = None"
    by (simp_all add: temp_world_def fs_demo_def entry_def faultless_def)
  define w1 where "w1 = put_entry ([RootDir, Normal ''v''] @ [Normal ?name]) (new_node temp_world KDir 493) temp_world"
  have made: "create_dir_all (components ?root) temp_world = (Inr (), w1)"
    using mkdir_missing [OF v] by (simp add: c w1_def)
  have u: "utf8_valid ''/v''" by code_simp
  have base: "env_temp_base Unprivileged temp_world = Inr (Some ''/v'')"
    using u by (simp add: env_temp_base_def resolve_env_path_def var_os_def temp_world_def del: utf8_valid.simps)
  have join: "join_path ''/v'' ?name = ?root" by (simp add: join_path_def is_abs_def)
  have root: "temp_root_dir demo_temp temp_world = (Inr ?root, w1)"
    by (simp add: temp_root_dir_def detect_execution_privileges_def base join made context_io_st_def map_err_st_def map_err_def Let_def)
      (simp add: temp_world_def)
  have p1: "phys w1 (components ?root)" using phys_put_new [OF v(2), of ?name temp_world 493] by (simp add: w1_def c)
  then have "posix_open (components ?root) w1 = Inr (components ?root)"
    using node_of_phys [OF p1, of True] by (auto simp: posix_open_def c w1_def new_node_def entry_at_def)
  then have ambient: "cap_open (ta_ext demo_temp) (components ?root) w1 = Inr (components ?root)"
    by (simp add: demo_temp_def posix_ext_def)
  have spec: "open_spec (ta_ext demo_temp)" by (simp add: demo_temp_def posix_open_spec)
  obtain r w' where "temp_dir_new demo_temp ''t'' (\<lambda>i. i) temp_world = (r, w')" by fastforce
  from temp_dir_fresh [OF demo_temp_spec spec root ambient this] this root show ?thesis by auto
qed

end
