(* ===== verification/Spec2Isabelle.thy ===== *)
theory Spec2Isabelle
  imports Shared_Cluster Template_Hash Cluster_Handle Nested_Runtime Lifecycle_Log Root_Hook Test_Dirs
begin

text \<open>
  A verification library for \<open>pg-embedded-setup-unpriv\<close>, which sets up a PostgreSQL server for tests, also when
  the tests run as root. Everything below \<open>src/src/\<close> is written \<open>file.rs\<close> here.

  \<^bold>\<open>The program.\<close> A bootstrap reads the configuration and the environment, prepares directories and finds the
  worker's program. A lifecycle then sets the server up and starts it: an ordinary user does it in process through
  the PostgreSQL library, root hands every operation to \<open>pg_worker\<close>, a subprocess that drops its privileges and
  is told what to do by a payload file. Binaries are shared between processes through a cache with lock files. While
  a cluster lives its environment variables are set in the process, one thread at a time; its guard stops the server
  and removes directories when it is dropped, and an exit hook does the same for clusters that never are. On a running
  cluster databases are created, cloned from templates and dropped.

  \<^bold>\<open>Common ground.\<close>
    \<^item> \<open>Prelude\<close>: \<open>Result\<close> and \<open>?\<close> over plain values and over state, byte strings, UTF-8, numbers in text, lists.
    \<^item> \<open>Paths\<close>: \<open>Path\<close> and \<open>PathBuf\<close> of the standard library, as text and as components.
    \<^item> \<open>Errors\<close> (\<open>error.rs\<close>), \<open>Types\<close> (\<open>lib.rs\<close>, \<open>bootstrap/env_types.rs\<close>, \<open>cluster/worker_operation.rs\<close>): the records
      and datatypes of the source, under its names.
    \<^item> \<open>Os_World\<close>: the state \<open>world\<close> that \<open>std::fs\<close> and \<open>std::env\<close> act on: directories, files and symbolic links with
      owners and modes, the working directory, the environment, the effective user. Any call may fail (\<open>w_faults\<close>), and
      a failing removal or copy may leave part of its effect (\<open>w_residue\<close>); theorems hold for all of them unless
      they say otherwise. Paths resolve through links, up to the kernel's forty.

  \<^bold>\<open>The environment of a scope.\<close>
    \<^item> \<open>Scope_Contract\<close>: the locale \<open>env_scopes\<close>, what opening and closing scopes promise to those who hold several.
    \<^item> \<open>Scoped_Env\<close> (\<open>env/state.rs\<close>): the thread's depth, lock and stack of saved values, with every path of
      \<open>exit_scope\<close>, mutex and poison included; it interprets the locale. The lemmas show that scopes closed in any order
      restore the environment and that threads exclude each other.
    \<^item> \<open>Env_Guard\<close> (\<open>env/mod.rs\<close>, \<open>env/summary.rs\<close>): \<open>ScopedEnv\<close>, its checks, and the bounded summary of changes.

  \<^bold>\<open>Files and privileges.\<close>
    \<^item> \<open>Fs_Helpers\<close> (\<open>fs.rs\<close>) and \<open>Privileges\<close> (\<open>privileges.rs\<close>): directories made, handed over and made private. The
      calls on \<open>cap_std\<close> and \<open>nix\<close> are the record \<open>ext\<close>; what is relied on is stated call by call (\<open>open_spec\<close> and
      its siblings) and shown of an instance over \<open>world\<close>.
    \<^item> \<open>Cleanup\<close> (\<open>cleanup_helpers.rs\<close>, \<open>cluster/cleanup.rs\<close>, \<open>bin/pg_worker/removal.rs\<close>): which directories may be
      removed, as a locale \<open>guarded_removal\<close> interpreted on \<open>try_remove_dir_all\<close>.
    \<^item> \<open>Cache_Copy\<close> (\<open>cache/operations/copy.rs\<close>), \<open>Cache_Ops\<close> (\<open>cache/config.rs\<close>, \<open>cache/lock.rs\<close>,
      \<open>cache/operations/\<close>), \<open>Installation\<close> (\<open>cluster/installation.rs\<close>), \<open>Cache_Use\<close> (\<open>cluster/cache_integration.rs\<close>): the
      shared cache, from one copied entry to the protocol of reading and filling processes as a transition system.

  \<^bold>\<open>Bootstrap and worker.\<close>
    \<^item> \<open>Bootstrap_Env\<close> (\<open>lib.rs\<close>, \<open>bootstrap/env.rs\<close>, \<open>bootstrap/mode.rs\<close>) and \<open>Bootstrap_Prepare\<close>
      (\<open>bootstrap/prepare/mod.rs\<close>, \<open>bootstrap/mod.rs\<close>): from configuration and environment to \<open>bootstrap_settings\<close>.
    \<^item> \<open>Worker_Process\<close> (\<open>worker.rs\<close>, \<open>worker_process/\<close>): payload, command, privilege drop, timeout, errors.
    \<^item> \<open>Pg_Worker\<close> (\<open>bin/pg_worker.rs\<close>): the worker's side, with the recovery of a broken data directory.
    \<^item> \<open>Worker_Staging\<close> (\<open>test_support/worker_env.rs\<close>): finding the worker and staging it where an unprivileged process
      can run it, interleaved with what other users do in the temporary directory; the locale \<open>call_invariant\<close> lifts
      what every call keeps to the whole staging, and is interpreted on a directory only this user can write to.

  \<^bold>\<open>Clusters.\<close>
    \<^item> \<open>Cluster_Start\<close> (\<open>cluster/worker_invoker/mod.rs\<close>, \<open>startup.rs\<close>, \<open>mod.rs\<close>, \<open>runtime.rs\<close>): who runs an operation,
      in which order, synchronously or not, inside the scope of the environment.
    \<^item> \<open>Cluster_Stop\<close> (\<open>cluster/shutdown.rs\<close>, \<open>guard.rs\<close>, \<open>mod.rs\<close>): dropping a guard, the tasks it may leave behind,
      \<open>stop_async\<close>, and leaving the scopes of the environment.
    \<^item> \<open>Shutdown_Hook\<close> (\<open>cluster/shutdown_hook.rs\<close>): the exit hook and the signals it sends.
    \<^item> \<open>Shared_Cluster\<close> (\<open>test_support/shared_singleton.rs\<close>, \<open>fixtures.rs\<close>): one cluster for all tests of a process.
    \<^item> \<open>Databases\<close> (\<open>cluster/connection.rs\<close>, \<open>lifecycle.rs\<close>, \<open>temporary_database.rs\<close>): statements and their quoting, a
      refinement of a set of names, templates set up by several threads, temporary databases.
    \<^item> \<open>Cluster_Handle\<close> (\<open>cluster/handle.rs\<close>, \<open>delegation.rs\<close>, \<open>mod.rs\<close>, \<open>connection.rs\<close>): handles and \<open>TestCluster\<close> with
      everything that forwards to a connection; the settings behind it are those of the server that runs.
    \<^item> \<open>Nested_Runtime\<close> (\<open>cluster/panic_utils.rs\<close>, \<open>runtime.rs\<close>, and the functions of the start, setup and drop that use
      them): the same operations when the caller may be inside a Tokio runtime and calls may panic. The helper threads make
      no difference to a start; the drop has none.
    \<^item> \<open>Log_Capture\<close> (\<open>test_support/logging.rs\<close>): captured log output and its lossy decoding, line by line.
    \<^item> \<open>Lifecycle_Log\<close> (the log events of \<open>cluster/worker_invoker/mod.rs\<close>, \<open>startup.rs\<close>, \<open>shutdown.rs\<close>, \<open>cleanup.rs\<close>,
      \<open>guard.rs\<close> and \<open>bootstrap/prepare/mod.rs\<close>): what a lifecycle logs, and what may be concluded from it.
    \<^item> \<open>Root_Hook\<close> (\<open>test_support/hook.rs\<close>): the hook that takes the place of the worker, as a step relation.
    \<^item> \<open>Test_Dirs\<close> (\<open>test_support/filesystem.rs\<close>, \<open>partial_data_dir.rs\<close>): temporary directories, and a data directory as an
      interrupted \<open>initdb\<close> leaves it.
    \<^item> \<open>Template_Hash\<close> (\<open>test_support/hash.rs\<close>): the hash of a directory that names a template.
    \<^item> This theory: what the shared clusters and the exit hook do together.

  \<^bold>\<open>How the code is translated.\<close> A Rust function is a definition of the same name. \<open>Err\<close> and \<open>Ok\<close> are \<open>Inl\<close> and
  \<open>Inr\<close>; a function with effects takes the state last and returns it with its result; panics and a mutex that is held
  by another thread are values of \<open>ctl\<close>. Third-party code is an argument: the records \<open>ext\<close>, \<open>environment_api\<close>,
  \<open>process_api\<close>, \<open>worker_api\<close>, \<open>cluster_api\<close>, \<open>kernel\<close>, \<open>server\<close>, \<open>dir_api\<close>, \<open>runtime_api\<close>, \<open>temp_api\<close>; where a theorem relies on what such
  code is documented to do, that is a named hypothesis, and its witness gives an instance.

  \<^bold>\<open>Loops and bounds.\<close> \<open>None\<close> as the outcome of a run means that fuel ran out or that it never returns.
    \<^item> The change of owner of a tree takes as fuel one more than the entries of the file system; each turn of its
      worklist takes an entry not taken before, and \<open>ensure_tree_owned_by_user_ends\<close> shows that this is enough.
    \<^item> A recursive copy needs one more than the entries below its source (\<open>copy_fuel\<close>, the entries of the file system
      and one); the theorems on copies state the result with it, not only when there is one.
    \<^item> The hash of a directory needs more fuel than the directory is deep (\<open>hash_recursive_ends\<close>).
    \<^item> The polling of the exit hook is a partial function; \<open>shutdown_callback_returns\<close> shows that it returns and
      bounds its calls.
    \<^item> Other loops are structural: ten attempts to read the port, the parents of a path, the retried lock over a list
      of outcomes of \<open>flock\<close>.

  \<^bold>\<open>Not modelled.\<close> Spans, the log events outside of \<open>Lifecycle_Log\<close>, and how errors are rendered. The inside of the
  asynchronous runtime: a timeout is a parameter that says whether it struck, a spawned task is a value that is run
  later, and where \<open>block_on\<close> and dropping a runtime panic is a parameter (\<open>runtime_api\<close>, with Tokio's documented rules as
  \<open>tokio_spec\<close>). The Diesel connection, the deprecated \<open>with_temp_euid\<close>, \<open>main.rs\<close>, re-exports, and the platforms without the
  privilege drop.
\<close>

section \<open>Two shared clusters\<close>

text \<open>What a registration stores for a cluster.\<close>

definition hook_of :: "cluster_handle \<Rightarrow> shutdown_state" where
  "hook_of h = \<lparr>sh_settings = bs_settings (ch_bootstrap h), sh_timeout = bs_shutdown_timeout (ch_bootstrap h),
     sh_mode = bs_cleanup_mode (ch_bootstrap h)\<rparr>"

lemma register_hook_of:
  assumes "\<And>k. fst (ke_atexit K k) = 0"
  shows "sh_slot (best_effort_register K show_int h st) = (case sh_slot st of None \<Rightarrow> Some (hook_of h) | Some x \<Rightarrow> Some x)"
  using assms [of "os_kernel (sh_os st)"]
  by (auto simp: best_effort_register_def register_shutdown_on_exit_def register_shutdown_hook_def register_atexit_def hook_of_def
      split: option.split prod.split)

lemma access_keeps_slot:
  assumes "sh_slot st = Some x" "access_shared A K show_int debug finder keep t st = Some (r, st')"
  shows "sh_slot st' = Some x"
  using assms
  by (auto simp: access_shared_def best_effort_register_def register_shutdown_on_exit_def register_shutdown_hook_def Let_def
      split: shared_state.splits prod.splits ctl.splits option.splits sum.splits)

lemma first_access_registers:
  assumes "\<And>k. fst (ke_atexit K k) = 0" "sh_state st = Uninitialised" "sh_slot st = None"
    and "shared_cluster_handle A K show_int debug finder t st = Some (Returned (Inr h), st1)"
  shows "sh_slot st1 = Some (hook_of h)"
  using assms(2-4)
  by (auto simp: shared_cluster_handle_def access_shared_def Let_def register_hook_of [OF assms(1)]
      split: prod.splits ctl.splits option.splits sum.splits)

text \<open>
  The second shared cluster of a process is never stopped. The cluster behind \<open>shared_cluster\<close> and the one behind
  \<open>shared_cluster_handle\<close> are started separately and both guards are leaked, but the exit hook holds one
  registration: once the handle's cluster has it, the start of the other reports success all the same, and when the
  process exits the callback reads the identifier of the first server, signals no other process, and cleans up
  the first cluster's directories only.
\<close>

theorem second_shared_cluster_unhooked:
  assumes atexit: "\<And>k. fst (ke_atexit K k) = 0" and fresh: "sh_state st = Uninitialised" "sh_slot st = None"
    and first: "shared_cluster_handle A K show_int debug finder t st = Some (Returned (Inr h), st1)"
    and later: "sh_slot st2 = sh_slot st1" "shared_cluster B K show_int debug finder' u st2 = Some (Returned (Inr (h', g')), st3)"
    and at_exit: "shutdown_callback K False (sh_slot st3) s = Some s'"
  shows "\<exists>s1. s' = best_effort_cleanup K (hook_of h) s1 \<and>
    (case read_postmaster_pid (st_data_dir (bs_settings (ch_bootstrap h))) (ke_world K (os_kernel s)) of
       None \<Rightarrow> s1 = s
     | Some pid \<Rightarrow> \<exists>calls\<in>hook_calls pid. os_calls s1 = os_calls s @ calls)"
proof -
  have "sh_slot st1 = Some (hook_of h)" by (rule first_access_registers [OF atexit fresh first])
  with later access_keeps_slot have "sh_slot st3 = Some (hook_of h)" by (metis shared_cluster_def)
  with at_exit registered_callback [of K "hook_of h" s s'] show ?thesis by (auto simp: hook_of_def split: option.splits)
qed

theorem second_shared_cluster_unhooked_witness:
  "\<exists>h st1 h' g' st3 s' s1.
     shared_cluster_handle idle_cluster stubborn_kernel (\<lambda>_. ''rc'') (\<lambda>_. ''error'') (\<lambda>w. (Some ''/w'', w)) 0 fresh_shared =
       Some (Returned (Inr h), st1) \<and>
     shared_cluster idle_cluster stubborn_kernel (\<lambda>_. ''rc'') (\<lambda>_. ''error'') (\<lambda>w. (Some ''/w'', w)) 0
       \<lparr>sh_state = Uninitialised, sh_slot = sh_slot st1, sh_scope = demo_scope, sh_world = boot_world, sh_os = hook_os\<rparr> =
       Some (Returned (Inr (h', g')), st3) \<and>
     shutdown_callback stubborn_kernel False (sh_slot st3) hook_os = Some s' \<and>
     s' = best_effort_cleanup stubborn_kernel (hook_of h) s1"
proof -
  let ?K = stubborn_kernel and ?F = "\<lambda>w. (Some ''/w'', w)"
  obtain h st1 where first: "shared_cluster_handle idle_cluster ?K (\<lambda>_. ''rc'') (\<lambda>_. ''error'') ?F 0 fresh_shared = Some (Returned (Inr h), st1)"
    by (rule fresh_access)
  let ?st2 = "\<lparr>sh_state = Uninitialised, sh_slot = sh_slot st1, sh_scope = demo_scope, sh_world = boot_world, sh_os = hook_os\<rparr>"
  obtain h' g' st3 where later: "shared_cluster idle_cluster ?K (\<lambda>_. ''rc'') (\<lambda>_. ''error'') ?F 0 ?st2 = Some (Returned (Inr (h', g')), st3)"
    using idle_access [of ?st2 ?K "\<lambda>_. ''rc''" "\<lambda>_. ''error''" "\<lambda>h cg. (h, cg)"] by (auto simp: shared_cluster_def)
  obtain s' where at_exit: "shutdown_callback ?K False (sh_slot st3) hook_os = Some s'"
    using callback_ends [OF stubborn_clock] by blast
  have "fst (ke_atexit ?K k) = 0" for k by (simp add: stubborn_kernel_def)
  from second_shared_cluster_unhooked [OF this _ _ first _ later at_exit] first later at_exit show ?thesis
    by (fastforce simp: fresh_shared_def)
qed

end
